(* ===== verification/Prelude.thy ===== *)
theory Prelude
  imports
    "HOL-Library.Word"
    "HOL-Library.Multiset"
    "HOL-Library.AList"
    "HOL-Library.Sublist"
    "HOL-Library.List_Lexorder"
    "HOL-Library.Char_ord"
begin

text \<open>
  The vocabulary the component theories share.

  Machine integers: \<open>u16\<close>, \<open>u32\<close> and \<open>u64\<close> are words of that width. A Rust \<open>i32\<close> is an
  \<open>int\<close>, because the program only compares and prints exit codes. A \<open>usize\<close> that counts
  elements held in memory is a \<open>nat\<close>.

  Strings: a Rust \<open>String\<close> is the list of its UTF-8 bytes, so \<open>length\<close> is \<open>str::len\<close>.
  Searching, splitting and comparing on bytes agrees with the operations on \<open>str\<close> the program
  uses, whose patterns are valid UTF-8 themselves.

  Hash maps: a \<open>HashMap\<close> is an association list with distinct keys; the order of the list is
  the map's iteration order, which no theorem fixes.

  Results: \<open>Result<T, E>\<close> is the sum \<open>'e + 't\<close>, \<open>Inl\<close> the error.
\<close>

section \<open>Types\<close>

type_synonym u16 = "16 word"
type_synonym u32 = "32 word"
type_synonym u64 = "64 word"
type_synonym byte = "8 word"
type_synonym i32 = int
type_synonym ('k, 'v) hashmap = "('k \<times> 'v) list"

section \<open>Collections of rules\<close>

named_theorems handler_defs \<open>definitions of the operations of a component, unfolded together\<close>
named_theorems inv_intros \<open>introduction rules for the invariants of the components\<close>
named_theorems frame_simps \<open>fields an operation leaves alone\<close>

section \<open>Hash maps\<close>

abbreviation hm_get :: "('k, 'v) hashmap \<Rightarrow> 'k \<Rightarrow> 'v option" where
  "hm_get m k \<equiv> map_of m k"

abbreviation hm_insert :: "'k \<Rightarrow> 'v \<Rightarrow> ('k, 'v) hashmap \<Rightarrow> ('k, 'v) hashmap" where
  "hm_insert k v m \<equiv> AList.update k v m"

abbreviation hm_remove :: "'k \<Rightarrow> ('k, 'v) hashmap \<Rightarrow> ('k, 'v) hashmap" where
  "hm_remove k m \<equiv> AList.delete k m"

abbreviation hm_keys :: "('k, 'v) hashmap \<Rightarrow> 'k list" where
  "hm_keys m \<equiv> map fst m"

definition hm_contains :: "('k, 'v) hashmap \<Rightarrow> 'k \<Rightarrow> bool" where
  "hm_contains m k \<longleftrightarrow> hm_get m k \<noteq> None"

text \<open>\<open>HashMap::eq\<close>: the same number of entries, and each entry of one is an entry of the other.\<close>

definition hm_eq :: "('k, 'v) hashmap \<Rightarrow> ('k, 'v) hashmap \<Rightarrow> bool" where
  "hm_eq a b \<longleftrightarrow> length a = length b \<and> list_all (\<lambda>(k, v). hm_get b k = Some v) a"

lemma hm_contains_iff: "hm_contains m k \<longleftrightarrow> k \<in> fst ` set m"
  by (simp add: hm_contains_def map_of_eq_None_iff)

lemma hm_eq_imp_map_of_eq:
  assumes "hm_eq a b" and "distinct (hm_keys a)" and "distinct (hm_keys b)"
  shows "map_of a = map_of b"
proof -
  from assms(1) have sub: "set a \<subseteq> set b"
    by (fastforce simp: hm_eq_def list_all_iff dest: map_of_SomeD)
  from assms have "card (set a) = card (set b)"
    by (metis distinct_card distinct_map hm_eq_def)
  with sub have "set a = set b"
    by (simp add: card_subset_eq)
  with assms(2,3) show ?thesis
    by (metis map_of_inject_set)
qed

lemma hm_eq_refl [simp]: "distinct (hm_keys a) \<Longrightarrow> hm_eq a a"
  by (auto simp: hm_eq_def list_all_iff)

lemma map_of_update_apply [simp]:
  "map_of (hm_insert k v m) k' = (if k' = k then Some v else map_of m k')"
  by (simp add: update_conv')

lemma map_of_delete_apply [simp]:
  "map_of (hm_remove k m) k' = (if k' = k then None else map_of m k')"
  by (simp add: delete_conv')

lemma keys_update_present [simp]:
  "k \<in> fst ` set m \<Longrightarrow> map fst (hm_insert k v m) = map fst m"
  by (simp add: update_keys)

lemma set_update_distinct:
  "distinct (hm_keys m) \<Longrightarrow>
     set (hm_insert k v m) = insert (k, v) {e \<in> set m. fst e \<noteq> k}"
proof (induction m)
  case Nil
  then show ?case by simp
next
  case (Cons e m)
  obtain k' v' where e: "e = (k', v')" by force
  show ?case
  proof (cases "k' = k")
    case True
    with Cons.prems e have "\<forall>e' \<in> set m. fst e' \<noteq> k" by auto
    with True e show ?thesis by auto
  next
    case False
    with Cons e show ?thesis by auto
  qed
qed

text \<open>Changing one entry in place: the list splits at the key, and only that entry differs.\<close>

lemma update_split:
  assumes "map_of m k = Some v"
  obtains xs ys where "m = xs @ (k, v) # ys"
    and "\<And>v'. hm_insert k v' m = xs @ (k, v') # ys" and "k \<notin> fst ` set xs"
  using assms
proof (induction m arbitrary: thesis)
  case Nil
  then show ?case by simp
next
  case (Cons e m)
  obtain k' w where e: "e = (k', w)" by force
  show ?case
  proof (cases "k' = k")
    case True
    with Cons.prems e show ?thesis
      by (intro Cons.prems(1) [of "[]" m]) auto
  next
    case False
    with Cons.prems(2) e have "map_of m k = Some v" by simp
    from Cons.IH [OF _ this] obtain xs ys where
      "m = xs @ (k, v) # ys" "\<And>v'. hm_insert k v' m = xs @ (k, v') # ys" "k \<notin> fst ` set xs"
      by blast
    with False e show ?thesis
      by (intro Cons.prems(1) [of "e # xs" ys]) auto
  qed
qed

section \<open>Strings\<close>

text \<open>\<open>str::contains\<close> on bytes, with its specification.\<close>

fun str_contains :: "string \<Rightarrow> string \<Rightarrow> bool" where
  "str_contains pat [] = (pat = [])"
| "str_contains pat (c # cs) = (prefix pat (c # cs) \<or> str_contains pat cs)"

lemma str_contains_iff: "str_contains pat s \<longleftrightarrow> sublist pat s"
  by (induction s) (auto simp: sublist_Cons_right)

definition str_starts_with :: "string \<Rightarrow> string \<Rightarrow> bool" where
  "str_starts_with pat s \<longleftrightarrow> prefix pat s"

definition str_ends_with :: "string \<Rightarrow> string \<Rightarrow> bool" where
  "str_ends_with pat s \<longleftrightarrow> suffix pat s"

text \<open>\<open>str::split\<close> at a one-byte separator: one field more than there are separators.\<close>

fun str_split :: "char \<Rightarrow> string \<Rightarrow> string list" where
  "str_split sep [] = [[]]"
| "str_split sep (c # cs) =
     (if c = sep then [] # str_split sep cs
      else (case str_split sep cs of [] \<Rightarrow> [[c]] | f # fs \<Rightarrow> (c # f) # fs))"

lemma str_split_nonempty [simp]: "str_split sep s \<noteq> []"
  by (induction s) (auto split: list.splits)

lemma str_split_no_sep: "sep \<notin> set s \<Longrightarrow> str_split sep s = [s]"
  by (induction s) auto

lemma str_split_append:
  "sep \<notin> set s \<Longrightarrow> str_split sep (s @ sep # t) = s # str_split sep t"
  by (induction s) auto

lemma str_split_fields: "f \<in> set (str_split sep s) \<Longrightarrow> sep \<notin> set f"
  by (induction s arbitrary: f) (fastforce split: if_splits list.splits)+

text \<open>\<open>format!("{}", n)\<close> of an unsigned and of a signed number.\<close>

definition dec_digit :: "nat \<Rightarrow> char" where
  "dec_digit d = char_of (48 + d)"

fun dec_nat :: "nat \<Rightarrow> string" where
  "dec_nat n = (if n < 10 then [dec_digit n] else dec_nat (n div 10) @ [dec_digit (n mod 10)])"

declare dec_nat.simps [simp del]

definition dec_int :: "int \<Rightarrow> string" where
  "dec_int i = (if i < 0 then CHR ''-'' # dec_nat (nat (- i)) else dec_nat (nat i))"

definition dec_word :: "'a::len word \<Rightarrow> string" where
  "dec_word w = dec_nat (unat w)"

text \<open>Decimal numerals read back, so printing is injective.\<close>

definition dec_value :: "string \<Rightarrow> nat" where
  "dec_value s = foldl (\<lambda>v c. v * 10 + (of_char c - 48)) 0 s"

lemma of_char_dec_digit: "d < 10 \<Longrightarrow> of_char (dec_digit d) = 48 + d"
  by (simp add: dec_digit_def)

lemma dec_value_snoc: "dec_value (s @ [c]) = dec_value s * 10 + (of_char c - 48)"
  by (simp add: dec_value_def)

lemma dec_nat_nonempty [simp]: "dec_nat n \<noteq> []"
  by (subst dec_nat.simps) simp

lemma dec_value_dec_nat [simp]: "dec_value (dec_nat n) = n"
proof (induction n rule: dec_nat.induct)
  case (1 n)
  show ?case
  proof (cases "n < 10")
    case True
    then show ?thesis
      by (subst dec_nat.simps) (simp add: dec_value_def of_char_dec_digit)
  next
    case False
    with "1.IH" show ?thesis
      by (subst dec_nat.simps) (simp add: dec_value_snoc of_char_dec_digit)
  qed
qed

lemma dec_nat_inject [simp]: "dec_nat m = dec_nat n \<longleftrightarrow> m = n"
  by (metis dec_value_dec_nat)

lemma dec_word_inject [simp]: "dec_word v = dec_word w \<longleftrightarrow> v = w"
  by (simp add: dec_word_def word_unat_eq_iff)

lemma dec_nat_digits: "c \<in> set (dec_nat n) \<Longrightarrow> \<exists>d < 10. c = dec_digit d"
proof (induction n rule: dec_nat.induct)
  case (1 n)
  show ?case
  proof (cases "n < 10")
    case True
    with "1.prems" show ?thesis by (subst (asm) dec_nat.simps) auto
  next
    case False
    with "1.prems" have "c \<in> set (dec_nat (n div 10)) \<or> c = dec_digit (n mod 10)"
      by (subst (asm) dec_nat.simps) auto
    then show ?thesis
    proof
      assume "c \<in> set (dec_nat (n div 10))"
      with False "1.IH" show ?thesis by blast
    next
      assume "c = dec_digit (n mod 10)"
      then show ?thesis by (intro exI [of _ "n mod 10"]) simp
    qed
  qed
qed

section \<open>Ranges of words and rotations\<close>

lemma set_word_range:
  fixes a b :: "'a::len word"
  shows "set (map of_nat [unat a..<Suc (unat b)]) = {p. a \<le> p \<and> p \<le> b}"
proof (intro set_eqI iffI)
  fix p :: "'a word"
  assume "p \<in> set (map of_nat [unat a..<Suc (unat b)])"
  then obtain n where p: "p = of_nat n" and n: "unat a \<le> n" "n \<le> unat b"
    by auto
  have "unat b < 2 ^ LENGTH('a)" by (rule unsigned_less)
  with n(2) have "n < 2 ^ LENGTH('a)" by linarith
  then have "unat p = n" by (simp add: p unat_of_nat)
  with n show "p \<in> {p. a \<le> p \<and> p \<le> b}" by (simp add: word_le_nat_alt)
next
  fix p :: "'a word"
  assume "p \<in> {p. a \<le> p \<and> p \<le> b}"
  then have "unat a \<le> unat p" "unat p \<le> unat b" by (simp_all add: word_le_nat_alt)
  then have "unat p \<in> set [unat a..<Suc (unat b)]"
    by (simp del: upt_Suc add: less_Suc_eq_le)
  then show "p \<in> set (map of_nat [unat a..<Suc (unat b)])"
    unfolding set_map by (rule rev_image_eqI) simp
qed

lemma rotation_inject:
  fixes s i j n :: nat
  assumes "(s + i) mod n = (s + j) mod n" and "i < n" and "j < n"
  shows "i = j"
  using assms
proof (induction i j rule: linorder_wlog)
  case (le i j)
  from le have "n dvd (s + j) - (s + i)"
    by (metis add_left_mono mod_eq_dvd_iff_nat)
  then have "n dvd j - i" by simp
  with le show ?case
    by (metis diff_is_0_eq dvd_imp_le le_antisym less_imp_diff_less linorder_not_less zero_less_diff)
next
  case (sym i j)
  then show ?case by simp
qed

section \<open>Folds over distinct keys\<close>

text \<open>A loop over distinct keys whose body works on the key's own entry: the keys still to come
  keep their precondition.\<close>

lemma fold_distinct_inv:
  assumes "distinct ks" and "G s" and "\<forall>k \<in> set ks. Q k s"
    and step: "\<And>k s. k \<in> set ks \<Longrightarrow> G s \<Longrightarrow> Q k s \<Longrightarrow> G (f k s)"
    and keep: "\<And>k k' s. G s \<Longrightarrow> Q k s \<Longrightarrow> k' \<noteq> k \<Longrightarrow> Q k' s \<Longrightarrow> Q k' (f k s)"
  shows "G (fold f ks s)"
  using assms(1-3) step
proof (induction ks arbitrary: s)
  case Nil
  then show ?case by simp
next
  case (Cons k ks)
  have G: "G (f k s)" using Cons.prems by simp
  have "\<forall>k' \<in> set ks. Q k' (f k s)"
    using Cons.prems keep by (metis distinct.simps(2) list.set_intros(1) list.set_intros(2))
  with G Cons show ?case by simp
qed

section \<open>The end of a list\<close>

definition last_n :: "nat \<Rightarrow> 'a list \<Rightarrow> 'a list" where
  "last_n n xs = drop (length xs - n) xs"

lemma length_last_n [simp]: "length (last_n n xs) = min n (length xs)"
  by (simp add: last_n_def)

lemma last_n_short [simp]: "length xs \<le> n \<Longrightarrow> last_n n xs = xs"
  by (simp add: last_n_def)

lemma last_n_snoc:
  "0 < n \<Longrightarrow> last_n n (xs @ [x]) = last_n (n - 1) xs @ [x]"
  by (simp add: last_n_def Suc_diff_le)

lemma last_n_twice: "m \<le> n \<Longrightarrow> last_n m (last_n n xs) = last_n m xs"
  by (cases "n \<le> length xs") (simp_all add: last_n_def)

lemma last_n_step:
  "0 < n \<Longrightarrow> last_n n (last_n n xs @ [x]) = last_n n (xs @ [x])"
  by (simp add: last_n_snoc last_n_twice)

section \<open>Transition systems\<close>

text \<open>
  A component whose callers interleave freely is a transition system: an initial state and a
  step relation. The locale states what an inductive invariant has to satisfy and derives once
  that it holds in every state a run can reach.
\<close>

inductive reaches :: "('s \<Rightarrow> 's \<Rightarrow> bool) \<Rightarrow> 's \<Rightarrow> 's \<Rightarrow> bool" for step where
  here: "reaches step s s"
| there: "reaches step s t \<Longrightarrow> step t u \<Longrightarrow> reaches step s u"

locale invariant_system =
  fixes start :: "'s \<Rightarrow> bool"
    and step :: "'s \<Rightarrow> 's \<Rightarrow> bool"
    and inv :: "'s \<Rightarrow> bool"
  assumes inv_start: "start s \<Longrightarrow> inv s"
    and inv_step: "inv s \<Longrightarrow> step s t \<Longrightarrow> inv t"
begin

lemma inv_along: "reaches step s t \<Longrightarrow> inv s \<Longrightarrow> inv t"
  by (induction rule: reaches.induct) (auto intro: inv_step)

lemma inv_reachable: "start s \<Longrightarrow> reaches step s t \<Longrightarrow> inv t"
  by (blast intro: inv_along inv_start)

end

text \<open>A component that handles one event after the other. Read as a transition system, any event may come
  next.\<close>

locale event_system =
  fixes handle :: "'e \<Rightarrow> 's \<Rightarrow> 's"
    and ok :: "'s \<Rightarrow> bool"
  assumes handle_ok: "ok s \<Longrightarrow> ok (handle e s)"
begin

lemma ok_fold: "ok s \<Longrightarrow> ok (fold handle es s)"
  by (induction es arbitrary: s) (simp_all add: handle_ok)

end

sublocale event_system \<subseteq> invariant_system ok "\<lambda>s t. \<exists>e. t = handle e s" ok
  by unfold_locales (auto intro: handle_ok)

text \<open>A bounded buffer: it holds the last \<open>cap\<close> of the items pushed.\<close>

locale recent_items = event_system push ok
  for push :: "'x \<Rightarrow> 'b \<Rightarrow> 'b" and ok :: "'b \<Rightarrow> bool" +
  fixes cap :: nat
    and items :: "'b \<Rightarrow> 'x list"
  assumes cap_pos: "0 < cap"
    and push_items: "ok b \<Longrightarrow> items (push x b) = last_n cap (items b @ [x])"
begin

lemma push_recent: "\<lbrakk>ok b; items b = last_n cap old\<rbrakk> \<Longrightarrow> items (push x b) = last_n cap (old @ [x])"
  by (simp add: push_items last_n_step cap_pos)

lemma pushes_recent:
  "\<lbrakk>ok b; items b = last_n cap old\<rbrakk> \<Longrightarrow> items (fold push xs b) = last_n cap (old @ xs)"
proof (induction xs arbitrary: b old)
  case (Cons x xs)
  from Cons.IH [OF handle_ok [OF Cons.prems(1)] push_recent [OF Cons.prems], of x] show ?case by simp
qed simp

end

section \<open>Codecs\<close>

text \<open>The contract of a wire name or a binary format: decoding an encoding gives the value back.\<close>

locale codec =
  fixes enc :: "'a \<Rightarrow> 'w"
    and dec :: "'w \<Rightarrow> 'a"
  assumes dec_enc: "dec (enc x) = x"
begin

lemma enc_inject: "enc x = enc y \<longleftrightarrow> x = y"
  by (metis dec_enc)

lemma map_dec_enc: "map (dec \<circ> enc) xs = xs"
  by (induction xs) (simp_all add: dec_enc)

end

end
