(* ===== verification/Protocol.thy ===== *)
theory Protocol
  imports Prelude
begin

text \<open>
  \<open>src/protocol.rs\<close>: the messages between client and daemon and the small enumerations inside
  them. The structs are records, the enums datatypes whose constructors carry the variant's
  fields in the source's order (prefixed by the enum, since HOL has one name space). The
  conversions the file writes by hand (\<open>From<i32>\<close>, \<open>RestartMode::parse\<close>, the \<open>Deserialize\<close> of
  \<open>ProcessState\<close>) are functions; the JSON text itself is produced by serde and is not modelled.

  The wire names are interpretations of the locale \<open>codec\<close>.
\<close>

section \<open>Constants and enumerations\<close>

definition MAX_MESSAGE_SIZE :: nat where
  "MAX_MESSAGE_SIZE = 1024 * 1024"

definition PROTOCOL_VERSION :: u32 where
  "PROTOCOL_VERSION = 1"

datatype error_code = General | NotFound

definition exit_code :: "error_code \<Rightarrow> i32" where
  "exit_code c = (case c of General \<Rightarrow> 1 | NotFound \<Rightarrow> 2)"

definition error_code_from_i32 :: "i32 \<Rightarrow> error_code" where
  "error_code_from_i32 v = (if v = 2 then NotFound else General)"

datatype restart_mode = Always | OnFailure | Never

record restart_policy =
  rp_mode :: restart_mode
  rp_max_restarts :: "u32 option"
  rp_restart_delay_ms :: u64

definition restart_mode_parse :: "string \<Rightarrow> restart_mode" where
  "restart_mode_parse s =
     (if s = ''always'' then Always else if s = ''on-failure'' then OnFailure else Never)"

text \<open>\<open>rename_all = "kebab-case"\<close>, also written out in \<open>build_process_infos\<close>.\<close>

definition restart_mode_name :: "restart_mode \<Rightarrow> string" where
  "restart_mode_name m =
     (case m of Always \<Rightarrow> ''always'' | OnFailure \<Rightarrow> ''on-failure'' | Never \<Rightarrow> ''never'')"

definition should_restart :: "restart_mode \<Rightarrow> i32 option \<Rightarrow> bool" where
  "should_restart m code =
     (case m of Never \<Rightarrow> False | Always \<Rightarrow> True | OnFailure \<Rightarrow> code \<noteq> Some 0)"

definition restart_policy_from_args :: "string \<Rightarrow> u32 option \<Rightarrow> u64 option \<Rightarrow> restart_policy" where
  "restart_policy_from_args mode max_restarts restart_delay =
     \<lparr>rp_mode = restart_mode_parse mode,
      rp_max_restarts = max_restarts,
      rp_restart_delay_ms = (case restart_delay of None \<Rightarrow> 1000 | Some d \<Rightarrow> d)\<rparr>"

record watch_config =
  wc_paths :: "string list"
  wc_ignore :: "string list option"

definition watch_config_from_args :: "string list \<Rightarrow> string list \<Rightarrow> watch_config option" where
  "watch_config_from_args paths ignore =
     (if paths = [] then None
      else Some \<lparr>wc_paths = paths, wc_ignore = (if ignore = [] then None else Some ignore)\<rparr>)"

definition process_url :: "string \<Rightarrow> u16 \<Rightarrow> u16 option \<Rightarrow> string" where
  "process_url name port proxy_port =
     (case proxy_port of
        Some pp \<Rightarrow> ''http://'' @ name @ ''.localhost:'' @ dec_word pp
      | None \<Rightarrow> ''http://127.0.0.1:'' @ dec_word port)"

datatype stream = Stdout | Stderr

datatype process_state = PRunning | PExited | PFailed | PUnknown

text \<open>\<open>Display\<close>, for people; the wire name (\<open>rename_all = "lowercase"\<close>) and its hand-written
  \<open>Deserialize\<close>, for machines.\<close>

definition process_state_display :: "process_state \<Rightarrow> string" where
  "process_state_display st =
     (case st of PRunning \<Rightarrow> ''running'' | PExited \<Rightarrow> ''exited'' | PFailed \<Rightarrow> ''FAILED''
      | PUnknown \<Rightarrow> ''unknown'')"

definition process_state_wire :: "process_state \<Rightarrow> string" where
  "process_state_wire st =
     (case st of PRunning \<Rightarrow> ''running'' | PExited \<Rightarrow> ''exited'' | PFailed \<Rightarrow> ''failed''
      | PUnknown \<Rightarrow> ''unknown'')"

definition process_state_deserialize :: "string \<Rightarrow> process_state" where
  "process_state_deserialize s =
     (if s = ''running'' then PRunning
      else if s = ''exited'' then PExited
      else if s = ''failed'' then PFailed
      else PUnknown)"

section \<open>Messages\<close>

record process_info =
  pi_name :: string
  pi_id :: string
  pi_pid :: u32
  pi_state :: process_state
  pi_exit_code :: "i32 option"
  pi_uptime_secs :: "nat option"
  pi_command :: string
  pi_port :: "u16 option"
  pi_url :: "string option"
  pi_restart_count :: "u32 option"
  pi_max_restarts :: "u32 option"
  pi_restart_policy :: "string option"
  pi_watched :: "bool option"

text \<open>\<open>Run\<close>: command, name, cwd, env, port, restart, watch. \<open>Logs\<close>: target, tail, follow, stderr,
  all, timeout, lines. \<open>Wait\<close>: target, until, regex, exit, timeout.\<close>

datatype request =
    ReqRun string "string option" "string option" "(string, string) hashmap option" "u16 option"
      "restart_policy option" "watch_config option"
  | ReqStop string
  | ReqStopAll
  | ReqRestart string
  | ReqStatus
  | ReqLogs "string option" nat bool bool bool "nat option" "nat option"
  | ReqWait string "string option" bool bool "nat option"
  | ReqShutdown
  | ReqEnableProxy "u16 option"
  | ReqHello u32
  | ReqUnknown

text \<open>\<open>RunOk\<close>: name, id, pid, port, url.\<close>

datatype response =
    RespOk string
  | RespRunOk string string u32 "u16 option" "string option"
  | RespStatus "process_info list"
  | RespLogLine string stream string
  | RespLogEnd
  | RespWaitMatch string
  | RespWaitExited "i32 option"
  | RespWaitTimeout
  | RespError error_code string
  | RespHello u32
  | RespUnknown

section \<open>The wire names are codecs\<close>

interpretation error_code_wire: codec exit_code error_code_from_i32
  by unfold_locales (simp add: exit_code_def error_code_from_i32_def split: error_code.split)

interpretation process_state_codec: codec process_state_wire process_state_deserialize
  by unfold_locales
    (simp add: process_state_wire_def process_state_deserialize_def split: process_state.split)

interpretation restart_mode_codec: codec restart_mode_name restart_mode_parse
  by unfold_locales (simp add: restart_mode_name_def restart_mode_parse_def split: restart_mode.split)

lemma should_restart_cases:
  "should_restart Always c" "\<not> should_restart Never c"
  "should_restart OnFailure c \<longleftrightarrow> c \<noteq> Some 0"
  by (simp_all add: should_restart_def)

lemma watch_config_from_args_None: "watch_config_from_args ps is = None \<longleftrightarrow> ps = []"
  by (simp add: watch_config_from_args_def)

lemma process_url_proxy_inject:
  "process_url n p (Some q) = process_url m p' (Some q) \<longleftrightarrow> n = m"
  by (simp add: process_url_def)

lemma process_url_direct_inject:
  "process_url n p None = process_url m q None \<longleftrightarrow> p = q"
  by (simp add: process_url_def)

end
