(* ===== verification/Errors.thy ===== *)
theory Errors
  imports Protocol
begin

text \<open>
  \<open>src/error.rs\<close>: the error enumerations and the text \<open>thiserror\<close> prints for each variant.
  Errors that come from the operating system or from a parser keep only what the program looks
  at: the kind and the printed text of an \<open>io::Error\<close>, the printed text of a parser error.
\<close>

datatype io_kind =
  KNotFound | KPermissionDenied | KAlreadyExists | KInvalidInput | KUnexpectedEof | KTimedOut | KOther

record io_error =
  io_kind :: io_kind
  io_text :: string

definition io_err :: "io_kind \<Rightarrow> string \<Rightarrow> io_error" where
  "io_err k t = \<lparr>io_kind = k, io_text = t\<rparr>"

lemma io_err_sel [simp]: "io_kind (io_err k t) = k" "io_text (io_err k t) = t"
  by (simp_all add: io_err_def)

datatype config_error =
    ConfigNotFound
  | Cwd io_error
  | ConfigRead io_error
  | Parse string
  | CycleDetected
  | UnknownDep string string

fun config_error_display :: "config_error \<Rightarrow> string" where
  "config_error_display ConfigNotFound = ''no agent-procs.yaml found''"
| "config_error_display (Cwd e) = ''cannot get cwd: '' @ io_text e"
| "config_error_display (ConfigRead e) = ''cannot read config: '' @ io_text e"
| "config_error_display (Parse e) = ''invalid config: '' @ e"
| "config_error_display CycleDetected = ''dependency cycle detected''"
| "config_error_display (UnknownDep from to) =
     ''unknown dependency: '' @ from @ '' depends on '' @ to"

datatype client_error =
    NoDaemon
  | SpawnFailedErr io_error
  | ConnectionFailed io_error
  | Serialize string
  | WriteErr io_error
  | FlushErr io_error
  | ReadErr io_error
  | ParseResponse string

fun client_error_display :: "client_error \<Rightarrow> string" where
  "client_error_display NoDaemon = ''no daemon running for this session''"
| "client_error_display (SpawnFailedErr e) = ''failed to spawn daemon: '' @ io_text e"
| "client_error_display (ConnectionFailed e) = ''failed to connect to daemon: '' @ io_text e"
| "client_error_display (Serialize e) = ''serialize error: '' @ e"
| "client_error_display (WriteErr e) = ''write error: '' @ io_text e"
| "client_error_display (FlushErr e) = ''flush error: '' @ io_text e"
| "client_error_display (ReadErr e) = ''read error: '' @ io_text e"
| "client_error_display (ParseResponse e) = ''parse error: '' @ e"

datatype proxy_error =
    PortUnavailable u16 io_error
  | NoFreePort u16 u16
  | NoFreeAutoPort u16 u16 u16

fun proxy_error_display :: "proxy_error \<Rightarrow> string" where
  "proxy_error_display (PortUnavailable port e) =
     ''requested proxy port '' @ dec_word port @ '' is not available: '' @ io_text e"
| "proxy_error_display (NoFreePort lo hi) =
     ''no free proxy port available in range '' @ dec_word lo @ ''-'' @ dec_word hi"
| "proxy_error_display (NoFreeAutoPort lo hi start) =
     ''no free port available in range '' @ dec_word lo @ ''-'' @ dec_word hi
       @ '' (started at '' @ dec_word start @ '')''"

end
