(* ===== verification/Ports.thy ===== *)
theory Ports
  imports Errors
begin

text \<open>
  The counters and port pools of the daemon: \<open>IdCounter\<close> of \<open>src/session.rs\<close>, \<open>PortAllocator\<close>
  of \<open>src/daemon/port_allocator.rs\<close> and \<open>bind_proxy_port\<close> of \<open>src/daemon/proxy.rs\<close>.

  Whether a TCP port can be bound is the operating system's answer, a parameter \<open>bind\<close>. The
  locale \<open>port_pool\<close> is the contract of a finite pool of ports that is scanned in some order:
  a scan returns a port that is free, and fails only when no port of the pool is.
\<close>

section \<open>Process ids\<close>

record id_counter =
  ic_next_id :: u32

definition id_counter_new :: id_counter where
  "id_counter_new = \<lparr>ic_next_id = 1\<rparr>"

definition process_id :: "u32 \<Rightarrow> string" where
  "process_id n = ''p'' @ dec_word n"

definition next_id :: "id_counter \<Rightarrow> string \<times> id_counter" where
  "next_id c = (process_id (ic_next_id c), c\<lparr>ic_next_id := ic_next_id c + 1\<rparr>)"

lemma process_id_inject [simp]: "process_id m = process_id n \<longleftrightarrow> m = n"
  by (simp add: process_id_def)

section \<open>Scanning a pool of ports\<close>

text \<open>The loop both scans share: the first candidate that the test accepts.\<close>

fun scan_ports :: "(u16 \<Rightarrow> bool) \<Rightarrow> u16 list \<Rightarrow> u16 option" where
  "scan_ports usable [] = None"
| "scan_ports usable (p # ps) = (if usable p then Some p else scan_ports usable ps)"

locale port_pool =
  fixes pool :: "u16 set"
    and order :: "u16 \<Rightarrow> u16 list"
    and start_ok :: "u16 \<Rightarrow> bool"
  assumes order_pool: "start_ok s \<Longrightarrow> set (order s) = pool"
begin

lemma scan_Some:
  "start_ok s \<Longrightarrow> scan_ports usable (order s) = Some p \<Longrightarrow> p \<in> pool \<and> usable p"
proof -
  assume "start_ok s" and scan: "scan_ports usable (order s) = Some p"
  have "scan_ports usable ps = Some p \<Longrightarrow> p \<in> set ps \<and> usable p" for ps
    by (induction ps) (auto split: if_splits)
  with scan have "p \<in> set (order s) \<and> usable p" by blast
  with \<open>start_ok s\<close> show ?thesis by (simp add: order_pool)
qed

lemma scan_None:
  "start_ok s \<Longrightarrow> scan_ports usable (order s) = None \<longleftrightarrow> (\<forall>p \<in> pool. \<not> usable p)"
proof -
  assume "start_ok s"
  have "scan_ports usable ps = None \<longleftrightarrow> (\<forall>p \<in> set ps. \<not> usable p)" for ps
    by (induction ps) auto
  with \<open>start_ok s\<close> show ?thesis by (simp add: order_pool)
qed

end

section \<open>Automatic backend ports\<close>

definition AUTO_PORT_MIN :: u16 where
  "AUTO_PORT_MIN = 4000"

definition AUTO_PORT_MAX :: u16 where
  "AUTO_PORT_MAX = 4999"

record port_allocator =
  pa_proxy_enabled :: bool
  pa_next_auto_port :: u16

definition port_allocator_new :: port_allocator where
  "port_allocator_new = \<lparr>pa_proxy_enabled = False, pa_next_auto_port = AUTO_PORT_MIN\<rparr>"

definition pa_enable_proxy :: "port_allocator \<Rightarrow> port_allocator" where
  "pa_enable_proxy pa = pa\<lparr>pa_proxy_enabled := True\<rparr>"

definition range_size :: nat where
  "range_size = unat (AUTO_PORT_MAX - AUTO_PORT_MIN + 1)"

text \<open>The candidate of round \<open>i\<close>, and the candidates in the order the loop tries them.\<close>

definition auto_candidate :: "u16 \<Rightarrow> nat \<Rightarrow> u16" where
  "auto_candidate next i =
     AUTO_PORT_MIN + of_nat ((unat (next - AUTO_PORT_MIN) + i) mod range_size)"

definition auto_candidates :: "u16 \<Rightarrow> u16 list" where
  "auto_candidates next = map (auto_candidate next) [0..<range_size]"

definition auto_assign_port ::
  "(u16 \<Rightarrow> bool) \<Rightarrow> u16 list \<Rightarrow> port_allocator \<Rightarrow> (proxy_error + u16) \<times> port_allocator" where
  "auto_assign_port bind assigned pa =
     (case scan_ports (\<lambda>p. p \<notin> set assigned \<and> bind p) (auto_candidates (pa_next_auto_port pa)) of
        Some candidate \<Rightarrow>
          (Inr candidate,
           pa\<lparr>pa_next_auto_port :=
               (if candidate \<ge> AUTO_PORT_MAX then AUTO_PORT_MIN else candidate + 1)\<rparr>)
      | None \<Rightarrow> (Inl (NoFreeAutoPort AUTO_PORT_MIN AUTO_PORT_MAX (pa_next_auto_port pa)), pa))"

definition auto_port_ok :: "u16 \<Rightarrow> bool" where
  "auto_port_ok p \<longleftrightarrow> AUTO_PORT_MIN \<le> p \<and> p \<le> AUTO_PORT_MAX"

lemma range_size_val: "range_size = 1000"
  by (simp add: range_size_def AUTO_PORT_MIN_def AUTO_PORT_MAX_def)

lemma range_size_pos [simp]: "0 < range_size"
  by (simp add: range_size_val)

lemma auto_port_ok_unat:
  "auto_port_ok p \<longleftrightarrow> unat AUTO_PORT_MIN \<le> unat p \<and> unat p < unat AUTO_PORT_MIN + range_size"
  by (simp add: auto_port_ok_def range_size_val AUTO_PORT_MIN_def AUTO_PORT_MAX_def word_le_nat_alt)
    linarith

lemma unat_auto_candidate:
  "unat (auto_candidate next i) =
     unat AUTO_PORT_MIN + (unat (next - AUTO_PORT_MIN) + i) mod range_size"
proof -
  have "(unat (next - AUTO_PORT_MIN) + i) mod range_size < 1000"
    by (simp add: range_size_val)
  then show ?thesis
    by (simp add: auto_candidate_def AUTO_PORT_MIN_def unat_word_ariths unat_of_nat)
qed

lemma auto_candidate_ok: "auto_port_ok (auto_candidate next i)"
  by (simp add: auto_port_ok_unat unat_auto_candidate)

lemma length_auto_candidates [simp]: "length (auto_candidates next) = range_size"
  by (simp add: auto_candidates_def)

lemma auto_candidates_distinct: "distinct (auto_candidates next)"
proof -
  have "inj_on (auto_candidate next) {0..<range_size}"
  proof (rule inj_onI)
    fix i j
    assume ij: "i \<in> {0..<range_size}" "j \<in> {0..<range_size}"
      and eq: "auto_candidate next i = auto_candidate next j"
    from eq have "unat (auto_candidate next i) = unat (auto_candidate next j)" by simp
    then have "(unat (next - AUTO_PORT_MIN) + i) mod range_size
        = (unat (next - AUTO_PORT_MIN) + j) mod range_size"
      by (simp add: unat_auto_candidate)
    with ij show "i = j" by (auto intro: rotation_inject)
  qed
  then show ?thesis by (simp add: auto_candidates_def distinct_map)
qed

lemma card_auto_ports: "card {p. auto_port_ok p} \<le> range_size"
proof -
  have "{p. auto_port_ok p} = set (map of_nat [unat AUTO_PORT_MIN..<Suc (unat AUTO_PORT_MAX)])"
    by (simp only: set_word_range auto_port_ok_def)
  also have "card \<dots> \<le> length (map of_nat [unat AUTO_PORT_MIN..<Suc (unat AUTO_PORT_MAX)] :: u16 list)"
    by (rule card_length)
  also have "\<dots> = Suc (unat AUTO_PORT_MAX) - unat AUTO_PORT_MIN"
    by (simp only: length_map length_upt)
  also have "\<dots> = range_size"
    by (simp add: range_size_val AUTO_PORT_MIN_def AUTO_PORT_MAX_def)
  finally show ?thesis .
qed

lemma auto_candidates_set: "set (auto_candidates next) = {p. auto_port_ok p}"
proof (rule card_subset_eq)
  show "finite {p. auto_port_ok p}" by simp
  show "set (auto_candidates next) \<subseteq> {p. auto_port_ok p}"
    by (auto simp: auto_candidates_def auto_candidate_ok)
  have "card (set (auto_candidates next)) = range_size"
    by (simp add: distinct_card auto_candidates_distinct)
  moreover have "card (set (auto_candidates next)) \<le> card {p. auto_port_ok p}"
    by (rule card_mono) (auto simp: auto_candidates_def auto_candidate_ok)
  ultimately show "card (set (auto_candidates next)) = card {p. auto_port_ok p}"
    using card_auto_ports by simp
qed

interpretation auto_ports: port_pool "{p. auto_port_ok p}" auto_candidates auto_port_ok
  by unfold_locales (simp add: auto_candidates_set)

definition pa_inv :: "port_allocator \<Rightarrow> bool" where
  "pa_inv pa \<longleftrightarrow> auto_port_ok (pa_next_auto_port pa)"

lemma pa_inv_new [inv_intros]: "pa_inv port_allocator_new"
  by (simp add: pa_inv_def port_allocator_new_def auto_port_ok_def AUTO_PORT_MIN_def AUTO_PORT_MAX_def)

lemma pa_inv_enable [inv_intros]: "pa_inv pa \<Longrightarrow> pa_inv (pa_enable_proxy pa)"
  by (simp add: pa_inv_def pa_enable_proxy_def)

lemma auto_assign_next_ok:
  "auto_port_ok p \<Longrightarrow> auto_port_ok (if p \<ge> AUTO_PORT_MAX then AUTO_PORT_MIN else p + 1)"
proof (cases "p \<ge> AUTO_PORT_MAX")
  case True
  then show ?thesis
    by (simp add: auto_port_ok_def AUTO_PORT_MIN_def AUTO_PORT_MAX_def)
next
  case False
  assume ok: "auto_port_ok p"
  with False have lt: "unat p < 4999"
    by (simp add: auto_port_ok_def AUTO_PORT_MAX_def word_le_nat_alt)
  then have "unat (p + 1) = unat p + 1"
    by (simp add: unat_word_ariths)
  with ok lt show ?thesis
    using False by (simp add: auto_port_ok_unat range_size_val AUTO_PORT_MIN_def)
qed

lemma auto_assign_inv [inv_intros]:
  assumes "pa_inv pa"
  shows "pa_inv (snd (auto_assign_port bind assigned pa))"
proof (cases "scan_ports (\<lambda>p. p \<notin> set assigned \<and> bind p) (auto_candidates (pa_next_auto_port pa))")
  case None
  with assms show ?thesis by (simp add: auto_assign_port_def)
next
  case (Some p)
  from assms have "auto_port_ok (pa_next_auto_port pa)" by (simp add: pa_inv_def)
  from auto_ports.scan_Some [OF this Some] have "auto_port_ok p" by simp
  then have "auto_port_ok (if p \<ge> AUTO_PORT_MAX then AUTO_PORT_MIN else p + 1)"
    by (rule auto_assign_next_ok)
  with Some show ?thesis by (simp only: auto_assign_port_def pa_inv_def) simp
qed

lemma auto_assign_proxy [simp]:
  "pa_proxy_enabled (snd (auto_assign_port bind assigned pa)) = pa_proxy_enabled pa"
  by (simp add: auto_assign_port_def split: option.split)

lemma auto_assign_Inr:
  assumes "pa_inv pa" and "fst (auto_assign_port bind assigned pa) = Inr p"
  shows "auto_port_ok p \<and> p \<notin> set assigned \<and> bind p"
  using assms auto_ports.scan_Some [of "pa_next_auto_port pa" "\<lambda>p. p \<notin> set assigned \<and> bind p" p]
  by (auto simp: auto_assign_port_def pa_inv_def split: option.splits)

lemma auto_assign_Inl:
  assumes "pa_inv pa"
  shows "(\<exists>e. fst (auto_assign_port bind assigned pa) = Inl e) \<longleftrightarrow>
    (\<forall>p. auto_port_ok p \<longrightarrow> p \<in> set assigned \<or> \<not> bind p)"
  using assms auto_ports.scan_None [of "pa_next_auto_port pa" "\<lambda>p. p \<notin> set assigned \<and> bind p"]
  by (auto simp: auto_assign_port_def pa_inv_def split: option.splits)

section \<open>The proxy's listening port\<close>

definition PROXY_PORT_MIN :: u16 where
  "PROXY_PORT_MIN = 9090"

definition PROXY_PORT_MAX :: u16 where
  "PROXY_PORT_MAX = 9190"

definition proxy_candidates :: "u16 list" where
  "proxy_candidates = map of_nat [unat PROXY_PORT_MIN..<Suc (unat PROXY_PORT_MAX)]"

text \<open>\<open>bind_err\<close> is the error the operating system reports for a port it refuses.\<close>

definition bind_proxy_port ::
  "(u16 \<Rightarrow> bool) \<Rightarrow> (u16 \<Rightarrow> io_error) \<Rightarrow> u16 option \<Rightarrow> proxy_error + u16" where
  "bind_proxy_port bind bind_err explicit =
     (case explicit of
        Some port \<Rightarrow>
          (if bind port then Inr port else Inl (PortUnavailable port (bind_err port)))
      | None \<Rightarrow>
          (case scan_ports bind proxy_candidates of
             Some port \<Rightarrow> Inr port
           | None \<Rightarrow> Inl (NoFreePort PROXY_PORT_MIN PROXY_PORT_MAX)))"

lemma proxy_candidates_set:
  "set proxy_candidates = {p. PROXY_PORT_MIN \<le> p \<and> p \<le> PROXY_PORT_MAX}"
  unfolding proxy_candidates_def by (rule set_word_range)

interpretation proxy_ports:
  port_pool "{p. PROXY_PORT_MIN \<le> p \<and> p \<le> PROXY_PORT_MAX}" "\<lambda>_. proxy_candidates" "\<lambda>_. True"
  by unfold_locales (simp add: proxy_candidates_set)

end
