(* ===== verification/Paths.thy ===== *)
theory Paths
  imports Errors
begin

text \<open>
  \<open>src/paths.rs\<close>: where sockets, PID files and logs live, and the check that the runtime
  directory is a private directory of the current user.

  A path is its byte string. The environment variables the file reads are a record; the answers
  of \<open>open\<close>, \<open>metadata\<close> and \<open>chmod\<close> on the runtime directory are another, a parameter of the
  check.
\<close>

section \<open>Joining paths\<close>

text \<open>\<open>PathBuf::push\<close> on Unix: an absolute path replaces, otherwise one separator is inserted
  unless the path is empty or already ends in one.\<close>

definition path_join :: "string \<Rightarrow> string \<Rightarrow> string" where
  "path_join a b =
     (if str_starts_with ''/'' b then b
      else if a = [] then b
      else if last a = CHR ''/'' then a @ b
      else a @ ''/'' @ b)"

section \<open>Locations\<close>

record env_vars =
  ev_debug :: bool
  ev_test_runtime_dir :: "string option"
  ev_xdg_state_home :: "string option"
  ev_home :: "string option"
  ev_euid :: u32

definition MAX_SOCKET_PATH_LEN :: nat where
  "MAX_SOCKET_PATH_LEN = 103"

definition socket_base_dir :: "env_vars \<Rightarrow> string" where
  "socket_base_dir ev =
     (case (if ev_debug ev then ev_test_runtime_dir ev else None) of
        Some dir \<Rightarrow> dir
      | None \<Rightarrow> ''/tmp/agent-procs-'' @ dec_word (ev_euid ev))"

text \<open>The second component says whether the over-long path is warned about; it is used anyway.\<close>

definition socket_path :: "env_vars \<Rightarrow> string \<Rightarrow> string \<times> bool" where
  "socket_path ev session =
     (let path = path_join (socket_base_dir ev) (session @ ''.sock'')
      in (path, length path > MAX_SOCKET_PATH_LEN))"

definition pid_path :: "env_vars \<Rightarrow> string \<Rightarrow> string" where
  "pid_path ev session = path_join (socket_base_dir ev) (session @ ''.pid'')"

definition state_dir :: "env_vars \<Rightarrow> string \<Rightarrow> string" where
  "state_dir ev session =
     (let base = (case ev_xdg_state_home ev of
                    Some dir \<Rightarrow> dir
                  | None \<Rightarrow> (case ev_home ev of
                      Some home \<Rightarrow> path_join home ''.local/state''
                    | None \<Rightarrow> path_join (socket_base_dir ev) ''state''))
      in path_join (path_join base ''agent-procs/sessions'') session)"

definition log_dir :: "env_vars \<Rightarrow> string \<Rightarrow> string" where
  "log_dir ev session = path_join (state_dir ev session) ''logs''"

definition state_file :: "env_vars \<Rightarrow> string \<Rightarrow> string" where
  "state_file ev session = path_join (state_dir ev session) ''state.json''"

text \<open>The log file of one stream of a process; \<open>spawn_incarnation\<close> and the readers build it.\<close>

definition stream_ext :: "stream \<Rightarrow> string" where
  "stream_ext s = (case s of Stdout \<Rightarrow> ''stdout'' | Stderr \<Rightarrow> ''stderr'')"

definition log_path :: "string \<Rightarrow> string \<Rightarrow> stream \<Rightarrow> string" where
  "log_path dir name s = path_join dir (name @ ''.'' @ stream_ext s)"

section \<open>The private runtime directory\<close>

datatype errno = ELOOP | ENOTDIR | EACCES | OtherErrno io_error

text \<open>
  The object at the path, as the checks see it through one open descriptor: the result of the
  \<open>O_NOFOLLOW | O_DIRECTORY\<close> open, its owner and mode, and what \<open>fchmod\<close> leaves behind
  (\<open>Inr\<close> the mode afterwards).
\<close>

record dir_handle =
  dh_open :: "errno option"
  dh_metadata_err :: "io_error option"
  dh_uid :: u32
  dh_mode :: u32
  dh_chmod :: "u32 \<Rightarrow> io_error + u32"

definition refuse :: "string \<Rightarrow> string \<Rightarrow> io_error" where
  "refuse dir why =
     io_err KPermissionDenied (''refusing to use runtime directory '' @ dir @ '': '' @ why)"

text \<open>\<open>mode & 0o077 != 0\<close>: some permission for group or world. The mode set is \<open>0o700 = 0x1C0\<close>.\<close>

definition loose :: "u32 \<Rightarrow> bool" where
  "loose mode \<longleftrightarrow> and mode 0x3F \<noteq> 0"

text \<open>The result, and the mode the directory has afterwards.\<close>

definition check_private_dir :: "string \<Rightarrow> u32 \<Rightarrow> dir_handle \<Rightarrow> (io_error + unit) \<times> u32" where
  "check_private_dir dir euid h =
     (case dh_open h of
        Some ELOOP \<Rightarrow> (Inl (refuse dir ''not a real directory (symlink or file)''), dh_mode h)
      | Some ENOTDIR \<Rightarrow> (Inl (refuse dir ''not a real directory (symlink or file)''), dh_mode h)
      | Some EACCES \<Rightarrow> (Inl (refuse dir ''cannot open it (permission denied)''), dh_mode h)
      | Some (OtherErrno e) \<Rightarrow> (Inl e, dh_mode h)
      | None \<Rightarrow>
          (case dh_metadata_err h of
             Some e \<Rightarrow> (Inl e, dh_mode h)
           | None \<Rightarrow>
               (if dh_uid h \<noteq> euid then
                  (Inl (refuse dir (''owned by uid '' @ dec_word (dh_uid h)
                     @ '', expected '' @ dec_word euid)), dh_mode h)
                else if loose (dh_mode h) then
                  (case dh_chmod h 0x1C0 of
                     Inl e \<Rightarrow> (Inl e, dh_mode h)
                   | Inr mode' \<Rightarrow>
                       (if loose mode'
                        then (Inl (refuse dir ''could not restrict permissions to 0700''), mode')
                        else (Inr (), mode')))
                else (Inr (), dh_mode h))))"

definition verify_socket_dir :: "env_vars \<Rightarrow> dir_handle \<Rightarrow> (io_error + unit) \<times> u32" where
  "verify_socket_dir ev h = check_private_dir (socket_base_dir ev) (ev_euid ev) h"

text \<open>\<open>create\<close> is the result of the recursive \<open>mkdir\<close> with mode 0700; \<open>h\<close> the object found at the
  path afterwards.\<close>

definition ensure_socket_dir ::
  "env_vars \<Rightarrow> io_error option \<Rightarrow> dir_handle \<Rightarrow> (io_error + unit) \<times> u32" where
  "ensure_socket_dir ev create h =
     (case create of
        Some e \<Rightarrow>
          (if io_kind e = KAlreadyExists then check_private_dir (socket_base_dir ev) (ev_euid ev) h
           else (Inl e, dh_mode h))
      | None \<Rightarrow> check_private_dir (socket_base_dir ev) (ev_euid ev) h)"

lemma check_private_dir_ok:
  assumes "fst (check_private_dir dir euid h) = Inr ()"
  shows "dh_open h = None \<and> dh_uid h = euid \<and> \<not> loose (snd (check_private_dir dir euid h))"
  using assms
  by (auto simp: check_private_dir_def split: option.splits errno.splits if_splits sum.splits)

lemma check_private_dir_foreign:
  assumes "dh_uid h \<noteq> euid"
  shows "\<exists>e. fst (check_private_dir dir euid h) = Inl e"
    and "snd (check_private_dir dir euid h) = dh_mode h"
  using assms
  by (auto simp: check_private_dir_def split: option.splits errno.splits if_splits sum.splits)

lemma path_join_inject:
  assumes "path_join d a = path_join d b" and "a \<noteq> []" and "b \<noteq> []"
    and "CHR ''/'' \<notin> set a" and "CHR ''/'' \<notin> set b"
  shows "a = b"
  using assms by (cases a; cases b) (auto simp: path_join_def str_starts_with_def split: if_splits)

lemma stream_ext_no_sep: "CHR ''/'' \<notin> set (stream_ext s)" "length (stream_ext s) = 6"
  by (simp_all add: stream_ext_def split: stream.split)

lemma stream_ext_inject: "stream_ext s = stream_ext t \<Longrightarrow> s = t"
  by (cases s; cases t) (simp_all add: stream_ext_def)

lemma log_path_inject:
  assumes "log_path d n s = log_path d m t" and "CHR ''/'' \<notin> set n" and "CHR ''/'' \<notin> set m"
  shows "n = m \<and> s = t"
proof -
  have eq: "n @ ''.'' @ stream_ext s = m @ ''.'' @ stream_ext t"
  proof (rule path_join_inject)
    show "path_join d (n @ ''.'' @ stream_ext s) = path_join d (m @ ''.'' @ stream_ext t)"
      using assms(1) by (simp only: log_path_def)
  qed (use assms(2,3) in \<open>simp_all add: stream_ext_no_sep\<close>)
  have len: "length (''.'' @ stream_ext s) = length (''.'' @ stream_ext t)"
    by (simp add: stream_ext_no_sep)
  from append_eq_append_conv [of n m "''.'' @ stream_ext s" "''.'' @ stream_ext t"] eq len
  have "n = m" "''.'' @ stream_ext s = ''.'' @ stream_ext t" by blast+
  then show ?thesis by (auto dest: stream_ext_inject)
qed

end
