(* ===== verification/Log_Index.thy ===== *)
theory Log_Index
  imports Errors
begin

text \<open>
  \<open>src/daemon/log_index.rs\<close>: the binary index beside each log file. A file is the list of its
  bytes. \<open>BufWriter\<close> is modelled as the standard library has it (capacity 8192, when it flushes by
  itself), because a reader opens the file while the writer still buffers.

  The locale \<open>fixed_codec\<close> extends \<open>codec\<close> to a fixed-width encoding: it is interpreted on the
  little-endian words and on the 16-byte record, and gives the random access both readers need.
\<close>

section \<open>Fixed-width encodings\<close>

locale fixed_codec = codec enc dec
  for enc :: "'a \<Rightarrow> byte list" and dec :: "byte list \<Rightarrow> 'a" +
  fixes width :: nat
  assumes width_pos: "0 < width"
    and enc_length: "length (enc x) = width"
begin

text \<open>Record \<open>i\<close> of a sequence lies at \<open>i * width\<close>.\<close>

lemma length_all: "length (concat (map enc xs)) = length xs * width"
  by (induction xs) (simp_all add: enc_length)

lemma drop_all: "drop (i * width) (concat (map enc xs)) = concat (map enc (drop i xs))"
proof (induction xs arbitrary: i)
  case (Cons x xs)
  then show ?case by (cases i) (simp_all add: enc_length)
qed simp

lemma take_all: "take (n * width) (concat (map enc xs)) = concat (map enc (take n xs))"
proof (induction xs arbitrary: n)
  case (Cons x xs)
  then show ?case by (cases n) (simp_all add: enc_length)
qed simp

lemma dec_at:
  assumes "i < length xs"
  shows "dec (take width (drop (i * width) (concat (map enc xs)))) = xs ! i"
proof -
  from assms have "drop i xs = xs ! i # drop (Suc i) xs" by (simp add: Cons_nth_drop_Suc)
  then show ?thesis by (simp add: drop_all enc_length dec_enc)
qed

lemma concat_enc_inject: "concat (map enc xs) = concat (map enc ys) \<Longrightarrow> xs = ys"
proof (rule nth_equalityI)
  assume eq: "concat (map enc xs) = concat (map enc ys)"
  from arg_cong [where f = length, OF eq] show len: "length xs = length ys"
    using width_pos by (simp add: length_all)
  fix i
  assume "i < length xs"
  with len dec_at [of i xs] dec_at [of i ys] eq show "xs ! i = ys ! i" by simp
qed

end

section \<open>Little-endian words\<close>

fun le_nat :: "nat \<Rightarrow> nat \<Rightarrow> byte list" where
  "le_nat 0 x = []"
| "le_nat (Suc n) x = of_nat (x mod 256) # le_nat n (x div 256)"

fun nat_le :: "byte list \<Rightarrow> nat" where
  "nat_le [] = 0"
| "nat_le (b # bs) = unat b + 256 * nat_le bs"

definition u64_to_le_bytes :: "u64 \<Rightarrow> byte list" where
  "u64_to_le_bytes w = le_nat 8 (unat w)"

definition u64_from_le_bytes :: "byte list \<Rightarrow> u64" where
  "u64_from_le_bytes bs = of_nat (nat_le bs)"

definition u32_to_le_bytes :: "u32 \<Rightarrow> byte list" where
  "u32_to_le_bytes w = le_nat 4 (unat w)"

definition u32_from_le_bytes :: "byte list \<Rightarrow> u32" where
  "u32_from_le_bytes bs = of_nat (nat_le bs)"

lemma length_le_nat [simp]: "length (le_nat n x) = n"
  by (induction n arbitrary: x) simp_all

lemma nat_le_le_nat: "nat_le (le_nat n x) = x mod 256 ^ n"
proof (induction n arbitrary: x)
  case (Suc n)
  have "unat (of_nat (x mod 256) :: byte) = x mod 256" by (simp add: unat_of_nat)
  with Suc show ?case by (simp add: mod_mult2_eq)
qed simp

lemma le_nat_nat_le: "le_nat (length bs) (nat_le bs) = bs"
proof (induction bs)
  case (Cons b bs)
  have b: "unat b < 256" using unsigned_less [of b] by simp
  then have "(unat b + 256 * nat_le bs) div 256 = nat_le bs" by simp
  with b Cons show ?case by simp
qed simp

interpretation u64_le: fixed_codec u64_to_le_bytes u64_from_le_bytes 8
proof
  fix w :: u64
  have "unat w < 256 ^ 8" using unsigned_less [of w] by simp
  then show "u64_from_le_bytes (u64_to_le_bytes w) = w"
    by (simp add: u64_from_le_bytes_def u64_to_le_bytes_def nat_le_le_nat)
qed (simp_all add: u64_to_le_bytes_def)

interpretation u32_le: fixed_codec u32_to_le_bytes u32_from_le_bytes 4
proof
  fix w :: u32
  have "unat w < 256 ^ 4" using unsigned_less [of w] by simp
  then show "u32_from_le_bytes (u32_to_le_bytes w) = w"
    by (simp add: u32_from_le_bytes_def u32_to_le_bytes_def nat_le_le_nat)
qed (simp_all add: u32_to_le_bytes_def)

section \<open>Buffered writing\<close>

definition BUF_CAPACITY :: nat where
  "BUF_CAPACITY = 8192"

record buf_writer =
  bw_disk :: "byte list"
  bw_buffer :: "byte list"

definition bw_flush :: "buf_writer \<Rightarrow> buf_writer" where
  "bw_flush w = w\<lparr>bw_disk := bw_disk w @ bw_buffer w, bw_buffer := []\<rparr>"

definition bw_write_all :: "byte list \<Rightarrow> buf_writer \<Rightarrow> buf_writer" where
  "bw_write_all data w =
     (let spare = BUF_CAPACITY - length (bw_buffer w)
      in if length data < spare then w\<lparr>bw_buffer := bw_buffer w @ data\<rparr>
         else (let w = (if length data > spare then bw_flush w else w)
               in if length data \<ge> BUF_CAPACITY then w\<lparr>bw_disk := bw_disk w @ data\<rparr>
                  else w\<lparr>bw_buffer := bw_buffer w @ data\<rparr>))"

definition bw_content :: "buf_writer \<Rightarrow> byte list" where
  "bw_content w = bw_disk w @ bw_buffer w"

lemma bw_content_flush [simp]: "bw_content (bw_flush w) = bw_content w" "bw_buffer (bw_flush w) = []"
  "bw_disk (bw_flush w) = bw_content w"
  by (simp_all add: bw_content_def bw_flush_def)

lemma bw_content_write [simp]:
  assumes "length (bw_buffer w) \<le> BUF_CAPACITY" and "length data < BUF_CAPACITY"
  shows "bw_content (bw_write_all data w) = bw_content w @ data"
  using assms by (auto simp: bw_content_def bw_write_all_def Let_def bw_flush_def)

section \<open>Index files\<close>

definition MAGIC :: "byte list" where
  "MAGIC = [0x4C, 0x49, 0x44, 0x58]"

definition VERSION :: u32 where
  "VERSION = 1"

definition HEADER_SIZE :: nat where
  "HEADER_SIZE = 16"

definition RECORD_SIZE :: nat where
  "RECORD_SIZE = 16"

text \<open>\<open>idx_path_for\<close>: the index of a log file, as paths.\<close>

definition idx_path_for :: "string \<Rightarrow> string" where
  "idx_path_for log = log @ ''.idx''"

record index_record =
  ix_byte_offset :: u64
  ix_seq :: u64

definition index_create :: "u64 \<Rightarrow> buf_writer" where
  "index_create seq_base =
     bw_flush (bw_write_all (u64_to_le_bytes seq_base)
       (bw_write_all (u32_to_le_bytes VERSION) (bw_write_all MAGIC \<lparr>bw_disk = [], bw_buffer = []\<rparr>)))"

definition index_append :: "index_record \<Rightarrow> buf_writer \<Rightarrow> buf_writer" where
  "index_append r w =
     bw_write_all (u64_to_le_bytes (ix_seq r)) (bw_write_all (u64_to_le_bytes (ix_byte_offset r)) w)"

definition index_flush :: "buf_writer \<Rightarrow> buf_writer" where
  "index_flush w = bw_flush w"

text \<open>A record in bytes, and read back as the readers do.\<close>

definition record_bytes :: "index_record \<Rightarrow> byte list" where
  "record_bytes r = u64_to_le_bytes (ix_byte_offset r) @ u64_to_le_bytes (ix_seq r)"

definition record_of_bytes :: "byte list \<Rightarrow> index_record" where
  "record_of_bytes buf =
     \<lparr>ix_byte_offset = u64_from_le_bytes (take 8 buf), ix_seq = u64_from_le_bytes (take 8 (drop 8 buf))\<rparr>"

interpretation records: fixed_codec record_bytes record_of_bytes RECORD_SIZE
  by unfold_locales
    (simp_all add: RECORD_SIZE_def record_bytes_def record_of_bytes_def u64_le.enc_length u64_le.dec_enc)

record index_reader =
  ir_file :: "byte list"
  ir_line_count :: nat
  ir_seq_base :: u64

text \<open>\<open>read_exact\<close> after a \<open>seek\<close>.\<close>

definition read_exact_at :: "byte list \<Rightarrow> nat \<Rightarrow> nat \<Rightarrow> io_error + byte list" where
  "read_exact_at file offset n =
     (if offset + n \<le> length file then Inr (take n (drop offset file))
      else Inl (io_err KUnexpectedEof ''failed to fill whole buffer''))"

definition index_open :: "io_error + byte list \<Rightarrow> io_error + index_reader option" where
  "index_open opened =
     (case opened of
        Inl e \<Rightarrow> Inl e
      | Inr file \<Rightarrow>
          if length file < HEADER_SIZE then Inr None
          else
            (case read_exact_at file 0 16 of
               Inl e \<Rightarrow> Inl e
             | Inr header \<Rightarrow>
                 if take 4 header \<noteq> MAGIC then Inr None
                 else if u32_from_le_bytes (take 4 (drop 4 header)) \<noteq> VERSION then Inr None
                 else Inr (Some \<lparr>ir_file = file,
                        ir_line_count = (length file - HEADER_SIZE) div RECORD_SIZE,
                        ir_seq_base = u64_from_le_bytes (take 8 (drop 8 header))\<rparr>)))"

definition index_read_record :: "index_reader \<Rightarrow> nat \<Rightarrow> io_error + index_record" where
  "index_read_record r line =
     (if line \<ge> ir_line_count r then
        Inl (io_err KInvalidInput (''line '' @ dec_nat line @ '' out of range (count: ''
          @ dec_nat (ir_line_count r) @ '')''))
      else
        (case read_exact_at (ir_file r) (HEADER_SIZE + line * RECORD_SIZE) 16 of
           Inl e \<Rightarrow> Inl e
         | Inr buf \<Rightarrow> Inr (record_of_bytes buf)))"

text \<open>\<open>as_chunks\<close>.\<close>

fun chunks :: "nat \<Rightarrow> nat \<Rightarrow> byte list \<Rightarrow> byte list list" where
  "chunks n 0 bs = []"
| "chunks n (Suc k) bs = take n bs # chunks n k (drop n bs)"

text \<open>Positions and counts are natural numbers: that \<open>start + count\<close> fits a \<open>usize\<close> is left to the callers,
  which pass windows of logs they have counted.\<close>

definition index_read_range :: "index_reader \<Rightarrow> nat \<Rightarrow> nat \<Rightarrow> io_error + index_record list" where
  "index_read_range r start n =
     (let end = min (start + n) (ir_line_count r);
          actual = end - start
      in if actual = 0 then Inr []
         else
           (case read_exact_at (ir_file r) (HEADER_SIZE + start * RECORD_SIZE) (actual * RECORD_SIZE) of
              Inl e \<Rightarrow> Inl e
            | Inr buf \<Rightarrow> Inr (map record_of_bytes (chunks RECORD_SIZE (length buf div RECORD_SIZE) buf))))"

definition line_count_from_metadata :: "io_error + byte list \<Rightarrow> io_error + nat" where
  "line_count_from_metadata opened =
     (case opened of
        Inl e \<Rightarrow> Inl e
      | Inr file \<Rightarrow>
          if length file < HEADER_SIZE then Inr 0
          else Inr ((length file - HEADER_SIZE) div RECORD_SIZE))"

section \<open>What is on disk\<close>

definition header_bytes :: "u64 \<Rightarrow> byte list" where
  "header_bytes seq_base = MAGIC @ u32_to_le_bytes VERSION @ u64_to_le_bytes seq_base"

definition index_bytes :: "u64 \<Rightarrow> index_record list \<Rightarrow> byte list" where
  "index_bytes seq_base rs = header_bytes seq_base @ concat (map record_bytes rs)"

lemma length_header [simp]: "length (header_bytes b) = HEADER_SIZE"
  by (simp add: header_bytes_def MAGIC_def HEADER_SIZE_def u32_le.enc_length u64_le.enc_length)

lemma index_create_content: "bw_disk (index_create b) = header_bytes b" "bw_buffer (index_create b) = []"
  by (simp_all add: index_create_def bw_write_all_def bw_flush_def header_bytes_def MAGIC_def
      BUF_CAPACITY_def u32_le.enc_length u64_le.enc_length Let_def)

text \<open>The state between appends: whole records on disk, whole records in the buffer.\<close>

definition index_state :: "u64 \<Rightarrow> index_record list \<Rightarrow> buf_writer \<Rightarrow> bool" where
  "index_state b rs w \<longleftrightarrow>
     (\<exists>k \<le> length rs. bw_disk w = index_bytes b (take k rs) \<and>
        bw_buffer w = concat (map record_bytes (drop k rs)) \<and> length (bw_buffer w) \<le> BUF_CAPACITY)"

lemma index_state_create: "index_state b [] (index_create b)"
  by (simp add: index_state_def index_create_content index_bytes_def)

lemma index_state_flush: "index_state b rs w \<Longrightarrow> index_state b rs (index_flush w)"
  by (auto simp: index_state_def index_flush_def bw_flush_def index_bytes_def
      simp flip: concat_append map_append intro!: exI [of _ "length rs"])

lemma index_state_append:
  assumes "index_state b rs w"
  shows "index_state b (rs @ [r]) (index_append r w)"
proof -
  obtain k where k: "k \<le> length rs" "bw_disk w = index_bytes b (take k rs)"
    and buf: "bw_buffer w = concat (map record_bytes (drop k rs))" "length (bw_buffer w) \<le> BUF_CAPACITY"
    using assms by (auto simp: index_state_def)
  have len: "length (bw_buffer w) = (length rs - k) * 16"
    by (simp add: buf records.length_all) (simp add: RECORD_SIZE_def)
  show ?thesis
  proof (cases "length (bw_buffer w) = BUF_CAPACITY")
    case True
    then have "bw_disk (index_append r w) = index_bytes b rs"
      "bw_buffer (index_append r w) = record_bytes r"
      using k buf
      by (simp_all add: index_append_def bw_write_all_def bw_flush_def Let_def u64_le.enc_length
          BUF_CAPACITY_def record_bytes_def index_bytes_def flip: concat_append map_append)
    then show ?thesis
      by (auto simp: index_state_def records.enc_length RECORD_SIZE_def BUF_CAPACITY_def
          intro!: exI [of _ "length rs"])
  next
    case False
    with buf len have room: "length (bw_buffer w) + 16 \<le> BUF_CAPACITY"
      by (simp add: BUF_CAPACITY_def)
    then have "bw_disk (index_append r w) = bw_disk w"
      "bw_buffer (index_append r w) = bw_buffer w @ record_bytes r"
      by (auto simp: index_append_def bw_write_all_def Let_def u64_le.enc_length BUF_CAPACITY_def
          record_bytes_def)
    with k buf room show ?thesis
      by (auto simp: index_state_def records.enc_length RECORD_SIZE_def intro!: exI [of _ k])
  qed
qed

lemma index_state_fold:
  "index_state b rs w \<Longrightarrow> index_state b (rs @ xs) (fold index_append xs w)"
  by (induction xs arbitrary: rs w) (use index_state_append in fastforce)+

section \<open>Reading it back\<close>

lemma length_index_bytes: "length (index_bytes b rs) = HEADER_SIZE + length rs * RECORD_SIZE"
  by (simp add: index_bytes_def records.length_all)

lemma index_open_bytes:
  "index_open (Inr (index_bytes b rs)) =
     Inr (Some \<lparr>ir_file = index_bytes b rs, ir_line_count = length rs, ir_seq_base = b\<rparr>)"
proof -
  have "take 16 (index_bytes b rs) = header_bytes b"
    using length_header [of b] by (simp add: index_bytes_def HEADER_SIZE_def)
  then have "read_exact_at (index_bytes b rs) 0 16 = Inr (header_bytes b)"
    by (simp add: read_exact_at_def length_index_bytes HEADER_SIZE_def)
  moreover have "take 4 (header_bytes b) = MAGIC"
    "u32_from_le_bytes (take 4 (drop 4 (header_bytes b))) = VERSION"
    "u64_from_le_bytes (take 8 (drop 8 (header_bytes b))) = b"
    by (simp_all add: header_bytes_def MAGIC_def u32_le.enc_length u64_le.enc_length
        u32_le.dec_enc u64_le.dec_enc)
  ultimately show ?thesis
    by (simp add: index_open_def length_index_bytes RECORD_SIZE_def)
qed

lemma map_chunks:
  "map record_of_bytes (chunks RECORD_SIZE (length rs) (concat (map record_bytes rs))) = rs"
  by (induction rs) (simp_all add: records.enc_length records.dec_enc)

lemma index_read_range_bytes:
  assumes "ir_file r = index_bytes b rs" and "ir_line_count r = length rs"
  shows "index_read_range r start cnt = Inr (take cnt (drop start rs))"
proof (cases "min (start + cnt) (length rs) - start = 0")
  case True
  then show ?thesis using assms by (auto simp: index_read_range_def Let_def)
next
  case False
  define n where "n = min (start + cnt) (length rs) - start"
  have n: "take cnt (drop start rs) = take n (drop start rs)" "length (take n (drop start rs)) = n"
    using False by (auto simp: n_def min_def)
  have "drop (HEADER_SIZE + start * RECORD_SIZE) (index_bytes b rs)
      = concat (map record_bytes (drop start rs))"
    by (simp add: index_bytes_def records.drop_all)
  then have "read_exact_at (index_bytes b rs) (HEADER_SIZE + start * RECORD_SIZE) (n * RECORD_SIZE)
      = Inr (concat (map record_bytes (take n (drop start rs))))"
    using False by (simp add: read_exact_at_def length_index_bytes records.take_all n_def
        flip: add_mult_distrib)
  moreover have "length (concat (map record_bytes (take n (drop start rs)))) div RECORD_SIZE = n"
    using n(2) by (simp only: records.length_all) (simp add: RECORD_SIZE_def)
  ultimately show ?thesis
    using False [folded n_def] map_chunks [of "take n (drop start rs)"] n
    unfolding index_read_range_def Let_def assms n_def [symmetric] by simp
qed

lemma index_read_record_bytes:
  assumes "ir_file r = index_bytes b rs" and "ir_line_count r = length rs" and "i < length rs"
  shows "index_read_record r i = Inr (rs ! i)"
proof -
  have "drop (HEADER_SIZE + i * RECORD_SIZE) (index_bytes b rs) = concat (map record_bytes (drop i rs))"
    by (simp add: index_bytes_def records.drop_all)
  moreover have "take RECORD_SIZE (concat (map record_bytes (drop i rs))) = record_bytes (rs ! i)"
    using assms(3) by (simp add: Cons_nth_drop_Suc [symmetric] records.enc_length)
  moreover have "i * RECORD_SIZE + 16 \<le> length rs * RECORD_SIZE"
    using assms(3) by (simp add: RECORD_SIZE_def)
  ultimately show ?thesis
    using assms
    by (simp add: index_read_record_def read_exact_at_def length_index_bytes records.dec_enc
        RECORD_SIZE_def)
qed

lemma index_written:
  "bw_disk (index_flush (fold index_append rs (index_create b))) = index_bytes b rs"
proof -
  have "index_state b rs (fold index_append rs (index_create b))"
    using index_state_fold [OF index_state_create, of b rs] by simp
  then show ?thesis
    by (auto simp: index_state_def index_flush_def bw_flush_def index_bytes_def
        simp flip: concat_append map_append)
qed

lemma line_count_bytes: "line_count_from_metadata (Inr (index_bytes b rs)) = Inr (length rs)"
  by (simp add: line_count_from_metadata_def length_index_bytes RECORD_SIZE_def)

section \<open>Properties\<close>

text \<open>C15: the index gives back what was appended. After any records have been appended and flushed,
  opening the file finds the header's sequence base and as many lines as records, every record reads
  back by its line number and any other line number is an error, and a range reads back exactly the
  records it covers, clamped at the end.\<close>

theorem index_roundtrip:
  "\<exists>r. index_open (Inr (bw_disk (index_flush (fold index_append rs (index_create seq_base))))) = Inr (Some r) \<and>
     ir_seq_base r = seq_base \<and> ir_line_count r = length rs \<and>
     line_count_from_metadata (Inr (bw_disk (index_flush (fold index_append rs (index_create seq_base)))))
       = Inr (length rs) \<and>
     (\<forall>i. case index_read_record r i of
            Inr x \<Rightarrow> i < length rs \<and> x = rs ! i
          | Inl e \<Rightarrow> length rs \<le> i \<and> io_kind e = KInvalidInput) \<and>
     (\<forall>start n. index_read_range r start n = Inr (take n (drop start rs)))"
proof -
  let ?r = "\<lparr>ir_file = index_bytes seq_base rs, ir_line_count = length rs, ir_seq_base = seq_base\<rparr>"
  have "case index_read_record ?r i of
          Inr x \<Rightarrow> i < length rs \<and> x = rs ! i
        | Inl e \<Rightarrow> length rs \<le> i \<and> io_kind e = KInvalidInput" for i
  proof (cases "i < length rs")
    case True
    with index_read_record_bytes [of ?r seq_base rs i] show ?thesis by simp
  next
    case False
    then show ?thesis by (simp add: index_read_record_def io_err_def)
  qed
  then show ?thesis
    using index_read_range_bytes [of ?r seq_base rs]
    by (simp add: index_written index_open_bytes line_count_bytes)
qed

text \<open>C16: a reader never sees a torn record. Whatever has been appended so far, with no flush at all,
  the file on disk is a complete header and the records of some prefix, so a reader that opens it at
  that moment finds that prefix; the appended records that are missing are all in the buffer.\<close>

theorem index_never_torn:
  "\<exists>k \<le> length rs.
     index_open (Inr (bw_disk (fold index_append rs (index_create seq_base))))
       = Inr (Some \<lparr>ir_file = index_bytes seq_base (take k rs), ir_line_count = k, ir_seq_base = seq_base\<rparr>) \<and>
     bw_buffer (fold index_append rs (index_create seq_base)) = concat (map record_bytes (drop k rs))"
proof -
  have "index_state seq_base rs (fold index_append rs (index_create seq_base))"
    using index_state_fold [OF index_state_create, of seq_base rs] by simp
  then obtain k where "k \<le> length rs"
    "bw_disk (fold index_append rs (index_create seq_base)) = index_bytes seq_base (take k rs)"
    "bw_buffer (fold index_append rs (index_create seq_base)) = concat (map record_bytes (drop k rs))"
    by (auto simp: index_state_def)
  then show ?thesis
    by (intro exI [of _ k]) (simp add: index_open_bytes)
qed

end
