(* ===== verification/Process_Manager.thy ===== *)
theory Process_Manager
  imports Ports Paths Log_Index
begin

text \<open>
  \<open>src/daemon/process_manager.rs\<close>: the table of managed processes and the life of each record.

  What the operating system answers is one record \<open>os_env\<close>, an argument of the operations that
  ask: whether a log or index file can be created, what \<open>sh -c\<close> returns, whether a port binds,
  what \<open>waitid\<close> reports for a process group leader, the clock, and the file watcher's creation.
  A process group id is the \<open>int\<close> in a \<open>Pgid\<close>. An \<open>Instant\<close> is a number of milliseconds.
  The spawn generation is a \<open>u64\<close> that counts spawns; it is a \<open>nat\<close> here, since \<open>2^64\<close> spawns are
  out of reach. \<open>restart_count\<close> and the id counter keep their 32 bits.
\<close>

section \<open>Names, groups and exits\<close>

definition is_dns_char :: "char \<Rightarrow> bool" where
  "is_dns_char c \<longleftrightarrow>
     (CHR ''a'' \<le> c \<and> c \<le> CHR ''z'') \<or> (CHR ''0'' \<le> c \<and> c \<le> CHR ''9'') \<or> c = CHR ''-''"

definition is_valid_dns_label :: "string \<Rightarrow> bool" where
  "is_valid_dns_label name =
     (if name = [] \<or> length name > 63 then False
      else if str_starts_with ''-'' name \<or> str_ends_with ''-'' name then False
      else list_all is_dns_char name)"

definition pgid_from_child :: "u32 option \<Rightarrow> i32 option" where
  "pgid_from_child child_id =
     (case child_id of
        None \<Rightarrow> None
      | Some n \<Rightarrow> (if uint n \<ge> 2 ^ 31 then None else if n = 0 then None else Some (uint n)))"

text \<open>What \<open>waitid\<close> returns: an error (whether it is \<open>ECHILD\<close>), or \<open>si_pid\<close>, \<open>si_status\<close> and
  whether \<open>si_code\<close> is \<open>CLD_EXITED\<close>.\<close>

datatype waitid_result = WaitFailed bool | WaitInfo i32 i32 bool

definition peek_exit :: "(i32 \<Rightarrow> waitid_result) \<Rightarrow> i32 \<Rightarrow> i32 option option" where
  "peek_exit waitid pgid =
     (if pgid < 0 then Some None
      else (case waitid pgid of
              WaitFailed echild \<Rightarrow> (if echild then Some None else None)
            | WaitInfo pid status exited \<Rightarrow>
                (if pid = 0 then None else Some (if exited then Some status else None))))"

section \<open>Records\<close>

text \<open>One spawn of a command. \<open>inc_capture\<close> names the streams a capture task was started for,
  \<open>inc_supervisor\<close> says whether the supervisor channel's sender is still held.\<close>

record incarnation =
  inc_pgid :: i32
  inc_capture :: "stream list"
  inc_supervisor :: bool

datatype exit_why = Natural | ManualStop | Exhausted | SpawnFailed

datatype respawn_reason = ManualRestart | Auto | Watch

datatype after_stop = Park | Respawn respawn_reason

text \<open>A client waiting for a reply is the number of its reply channel.\<close>

type_synonym reply_id = nat

datatype waiter = WaitStop reply_id | WaitRestart reply_id

text \<open>\<open>Exited\<close>: code, why, inc, restart timer. \<open>Stopping\<close>: leader exit, then, waiters.\<close>

datatype life =
    Running incarnation
  | Exited "i32 option" exit_why "incarnation option" bool
  | Stopping "i32 option option" after_stop "waiter list"

definition vacant :: life where
  "vacant = Exited None SpawnFailed None False"

fun holds_port :: "life \<Rightarrow> bool" where
  "holds_port (Running _) = True"
| "holds_port (Stopping _ _ _) = True"
| "holds_port (Exited _ _ _ _) = False"

fun leader_alive :: "life \<Rightarrow> bool" where
  "leader_alive (Running _) = True"
| "leader_alive (Stopping None _ _) = True"
| "leader_alive (Stopping (Some _) _ _) = False"
| "leader_alive (Exited _ _ _ _) = False"

text \<open>A watcher reports the name and generation it was created for.\<close>

record watch_handle =
  wh_name :: string
  wh_generation :: nat

record managed_process =
  mp_name :: string
  mp_id :: string
  mp_command :: string
  mp_cwd :: "string option"
  mp_env :: "(string, string) hashmap"
  mp_pid :: u32
  mp_started_at :: nat
  mp_port :: "u16 option"
  mp_restart_policy :: "restart_policy option"
  mp_watch_config :: "watch_config option"
  mp_restart_count :: u32
  mp_generation :: nat
  mp_life :: life
  mp_watch_handle :: "watch_handle option"

text \<open>The group whose supervisor channel accepts lines for this record.\<close>

definition supervisor_tx :: "managed_process \<Rightarrow> i32 option" where
  "supervisor_tx p =
     (case mp_life p of
        Running inc \<Rightarrow> (if inc_supervisor inc then Some (inc_pgid inc) else None)
      | Exited _ _ (Some inc) _ \<Rightarrow> (if inc_supervisor inc then Some (inc_pgid inc) else None)
      | _ \<Rightarrow> None)"

record spawn_request =
  sr_command :: string
  sr_cwd :: "string option"
  sr_env :: "(string, string) hashmap"

record os_env =
  os_vars :: env_vars
  os_create :: "string \<Rightarrow> io_error option"
  os_spawn :: "spawn_request \<Rightarrow> io_error + u32 option"
  os_bind :: "u16 \<Rightarrow> bool"
  os_waitid :: "i32 \<Rightarrow> waitid_result"
  os_now :: nat
  os_watcher :: "watch_config \<Rightarrow> string \<Rightarrow> string option"

record process_manager =
  pm_processes :: "(string, managed_process) hashmap"
  pm_id_counter :: id_counter
  pm_next_generation :: nat
  pm_session :: string
  pm_port_allocator :: port_allocator

definition pm_new :: "string \<Rightarrow> process_manager" where
  "pm_new session =
     \<lparr>pm_processes = [], pm_id_counter = id_counter_new, pm_next_generation = 0,
      pm_session = session, pm_port_allocator = port_allocator_new\<rparr>"

definition bump_generation :: "process_manager \<Rightarrow> nat \<times> process_manager" where
  "bump_generation pm =
     (let g = pm_next_generation pm + 1 in (g, pm\<lparr>pm_next_generation := g\<rparr>))"

definition pm_next_id :: "process_manager \<Rightarrow> string \<times> process_manager" where
  "pm_next_id pm =
     (let (i, c) = next_id (pm_id_counter pm) in (i, pm\<lparr>pm_id_counter := c\<rparr>))"

section \<open>Spawning\<close>

text \<open>\<open>spawn_process\<close> returns the reply, the incarnation it started (if it did) and the manager.\<close>

text \<open>\<open>LogSink::open\<close> creates the log and then its index; the first failure is the error.\<close>

definition log_sink_open :: "(string \<Rightarrow> io_error option) \<Rightarrow> string \<Rightarrow> string option" where
  "log_sink_open create path =
     (case create path of
        Some e \<Rightarrow> Some (''cannot open log '' @ path @ '': '' @ io_text e)
      | None \<Rightarrow>
          (case create (idx_path_for path) of
             Some e \<Rightarrow> Some (''cannot open log '' @ idx_path_for path @ '': '' @ io_text e)
           | None \<Rightarrow> None))"

definition merged_env ::
  "(string, string) hashmap option \<Rightarrow> u16 option \<Rightarrow> (string, string) hashmap" where
  "merged_env env port =
     (let user = (case env of None \<Rightarrow> [] | Some vars \<Rightarrow> vars)
      in (case port of
            None \<Rightarrow> user
          | Some p \<Rightarrow>
              fold (\<lambda>(k, v) m. hm_insert k v m) user
                (hm_insert ''HOST'' ''127.0.0.1'' (hm_insert ''PORT'' (dec_word p) []))))"

text \<open>A child whose process id cannot be a group id (none, 0 or above the positive 32 bit integers) would
  be left running by the code; the kernel gives out no such id, and it is not counted as started.\<close>

definition spawn_incarnation ::
  "os_env \<Rightarrow> string \<Rightarrow> string \<Rightarrow> string \<Rightarrow> string option \<Rightarrow> (string, string) hashmap option
     \<Rightarrow> u16 option \<Rightarrow> string + (incarnation \<times> u32)" where
  "spawn_incarnation os session name command cwd env port =
     (let dir = log_dir (os_vars os) session in
      case log_sink_open (os_create os) (log_path dir name Stdout) of
        Some e \<Rightarrow> Inl e
      | None \<Rightarrow>
      case log_sink_open (os_create os) (log_path dir name Stderr) of
        Some e \<Rightarrow> Inl e
      | None \<Rightarrow>
      case os_spawn os \<lparr>sr_command = command, sr_cwd = cwd, sr_env = merged_env env port\<rparr> of
        Inl e \<Rightarrow> Inl (''failed to spawn: '' @ io_text e)
      | Inr child_id \<Rightarrow>
          (case pgid_from_child child_id of
             None \<Rightarrow> Inl ''spawned process has no pid''
           | Some pgid \<Rightarrow>
               Inr (\<lparr>inc_pgid = pgid, inc_capture = [Stdout, Stderr], inc_supervisor = True\<rparr>,
                    (case child_id of None \<Rightarrow> 0 | Some n \<Rightarrow> n))))"

definition invalid_name :: "string \<Rightarrow> bool" where
  "invalid_name name \<longleftrightarrow>
     CHR ''/'' \<in> set name \<or> CHR 0x5C \<in> set name \<or> str_contains ''..'' name \<or> CHR 0x00 \<in> set name"

definition assigned_ports :: "process_manager \<Rightarrow> u16 list" where
  "assigned_ports pm =
     List.map_filter mp_port (filter (\<lambda>p. holds_port (mp_life p)) (map snd (pm_processes pm)))"

text \<open>\<open>Inl\<close> is an early return; \<open>Inr\<close> the port and the allocator after it.\<close>

definition resolve_port ::
  "os_env \<Rightarrow> u16 option \<Rightarrow> process_manager \<Rightarrow> (string + u16 option) \<times> process_manager" where
  "resolve_port os port pm =
     (case port of
        Some p \<Rightarrow> (Inr (Some p), pm)
      | None \<Rightarrow>
          (if pa_proxy_enabled (pm_port_allocator pm) then
             (let (r, pa) = auto_assign_port (os_bind os) (assigned_ports pm) (pm_port_allocator pm);
                  pm = pm\<lparr>pm_port_allocator := pa\<rparr>
              in (case r of Inr p \<Rightarrow> (Inr (Some p), pm) | Inl e \<Rightarrow> (Inl (proxy_error_display e), pm)))
           else (Inr None, pm)))"

definition spawn_process ::
  "os_env \<Rightarrow> string \<Rightarrow> string option \<Rightarrow> string option \<Rightarrow> (string, string) hashmap option
     \<Rightarrow> u16 option \<Rightarrow> process_manager \<Rightarrow> response \<times> incarnation option \<times> process_manager" where
  "spawn_process os command name_opt cwd env port pm =
     (let (i, pm) = pm_next_id pm;
          name = (case name_opt of None \<Rightarrow> i | Some n \<Rightarrow> n)
      in if invalid_name name then
           (RespError General (''invalid process name: '' @ name), None, pm)
         else if pa_proxy_enabled (pm_port_allocator pm) \<and> \<not> is_valid_dns_label name then
           (RespError General (''invalid process name for proxy: '' @ [CHR 0x27] @ name @ [CHR 0x27]
              @ '' (must be lowercase alphanumeric/hyphens, max 63 chars)''), None, pm)
         else
           (case resolve_port os port pm of
              (Inl e, pm) \<Rightarrow> (RespError General e, None, pm)
            | (Inr resolved, pm) \<Rightarrow>
                if hm_contains (pm_processes pm) name then
                  (RespError General (''process already exists: '' @ name), None, pm)
                else
                  (case spawn_incarnation os (pm_session pm) name command cwd env resolved of
                     Inl message \<Rightarrow> (RespError General message, None, pm)
                   | Inr (inc, pid) \<Rightarrow>
                       (let (generation, pm) = bump_generation pm;
                            p = \<lparr>mp_name = name, mp_id = i, mp_command = command, mp_cwd = cwd,
                                 mp_env = (case env of None \<Rightarrow> [] | Some vars \<Rightarrow> vars),
                                 mp_pid = pid, mp_started_at = os_now os, mp_port = resolved,
                                 mp_restart_policy = None, mp_watch_config = None,
                                 mp_restart_count = 0, mp_generation = generation,
                                 mp_life = Running inc, mp_watch_handle = None\<rparr>
                        in (RespRunOk name i pid resolved
                              (map_option (\<lambda>q. process_url name q None) resolved),
                            Some inc,
                            pm\<lparr>pm_processes := hm_insert name p (pm_processes pm)\<rparr>)))))"

section \<open>Finding and changing records\<close>

text \<open>\<open>find\<close> and \<open>find_mut\<close> share the lookup: by name, otherwise the record with that id. The key
  comes along, so that \<open>find_mut\<close> can store the changed record.\<close>

definition find_entry :: "process_manager \<Rightarrow> string \<Rightarrow> (string \<times> managed_process) option" where
  "find_entry pm target =
     (case hm_get (pm_processes pm) target of
        Some p \<Rightarrow> Some (target, p)
      | None \<Rightarrow> List.find (\<lambda>(k, p). mp_id p = target) (pm_processes pm))"

definition pm_find :: "process_manager \<Rightarrow> string \<Rightarrow> managed_process option" where
  "pm_find pm target = map_option snd (find_entry pm target)"

definition set_proc :: "string \<Rightarrow> managed_process \<Rightarrow> process_manager \<Rightarrow> process_manager" where
  "set_proc k p pm = pm\<lparr>pm_processes := hm_insert k p (pm_processes pm)\<rparr>"

definition find_mut ::
  "string \<Rightarrow> (managed_process \<Rightarrow> managed_process) \<Rightarrow> process_manager \<Rightarrow> process_manager" where
  "find_mut target f pm =
     (case find_entry pm target of None \<Rightarrow> pm | Some (k, p) \<Rightarrow> set_proc k (f p) pm)"

definition has_process :: "process_manager \<Rightarrow> string \<Rightarrow> bool" where
  "has_process pm target \<longleftrightarrow> pm_find pm target \<noteq> None"

definition pm_names :: "process_manager \<Rightarrow> string list" where
  "pm_names pm = hm_keys (pm_processes pm)"

definition pm_clear :: "process_manager \<Rightarrow> process_manager" where
  "pm_clear pm = pm\<lparr>pm_processes := []\<rparr>"

definition pm_enable_proxy :: "process_manager \<Rightarrow> process_manager" where
  "pm_enable_proxy pm = pm\<lparr>pm_port_allocator := pa_enable_proxy (pm_port_allocator pm)\<rparr>"

text \<open>\<open>respawn\<close>: the reply, the logs rotated first (in order), the incarnation it started, and the
  manager afterwards.\<close>

definition pm_respawn ::
  "os_env \<Rightarrow> string \<Rightarrow> bool \<Rightarrow> process_manager
     \<Rightarrow> response \<times> string list \<times> incarnation option \<times> process_manager" where
  "pm_respawn os name keep_logs pm =
     (case hm_get (pm_processes pm) name of
        None \<Rightarrow> (RespError NotFound (''process not found: '' @ name), [], None, pm)
      | Some p \<Rightarrow>
          (let dir = log_dir (os_vars os) (pm_session pm);
               rotated = (if keep_logs then [log_path dir name Stdout, log_path dir name Stderr] else []);
               env_opt = (if mp_env p = [] then None else Some (mp_env p));
               spawned = spawn_incarnation os (pm_session pm) name (mp_command p) (mp_cwd p)
                           env_opt (mp_port p);
               (generation, pm) = bump_generation pm;
               (i, pm) = pm_next_id pm
           in (case spawned of
                 Inr (inc, pid) \<Rightarrow>
                   (RespRunOk name i pid (mp_port p)
                      (map_option (\<lambda>q. process_url name q None) (mp_port p)),
                    rotated, Some inc,
                    set_proc name
                      (p\<lparr>mp_id := i, mp_pid := pid, mp_started_at := os_now os,
                         mp_generation := generation, mp_life := Running inc\<rparr>) pm)
               | Inl message \<Rightarrow>
                   (RespError General message, rotated, None,
                    set_proc name
                      (p\<lparr>mp_pid := 0,
                         mp_life := Exited (case mp_life p of Exited code _ _ _ \<Rightarrow> code | _ \<Rightarrow> None)
                           SpawnFailed None False\<rparr>) pm))))"

section \<open>Observing exits\<close>

definition refresh_life :: "(i32 \<Rightarrow> waitid_result) \<Rightarrow> life \<Rightarrow> life" where
  "refresh_life waitid l =
     (case l of
        Running inc \<Rightarrow>
          (case peek_exit waitid (inc_pgid inc) of
             None \<Rightarrow> l
           | Some code \<Rightarrow> Exited code Natural (Some inc) False)
      | _ \<Rightarrow> l)"

definition exit_observed :: "(i32 \<Rightarrow> waitid_result) \<Rightarrow> life \<Rightarrow> bool" where
  "exit_observed waitid l \<longleftrightarrow>
     (case l of Running inc \<Rightarrow> peek_exit waitid (inc_pgid inc) \<noteq> None | _ \<Rightarrow> False)"

definition refresh_exit_states :: "os_env \<Rightarrow> process_manager \<Rightarrow> bool \<times> process_manager" where
  "refresh_exit_states os pm =
     (list_ex (\<lambda>(k, p). exit_observed (os_waitid os) (mp_life p)) (pm_processes pm),
      pm\<lparr>pm_processes :=
          map (\<lambda>(k, p). (k, p\<lparr>mp_life := refresh_life (os_waitid os) (mp_life p)\<rparr>))
            (pm_processes pm)\<rparr>)"

fun life_exit :: "life \<Rightarrow> i32 option option" where
  "life_exit (Running _) = None"
| "life_exit (Stopping None _ _) = None"
| "life_exit (Stopping (Some code) _ _) = Some code"
| "life_exit (Exited code _ _ _) = Some code"

definition is_process_exited ::
  "os_env \<Rightarrow> string \<Rightarrow> process_manager \<Rightarrow> i32 option option \<times> process_manager" where
  "is_process_exited os target pm =
     (let pm = snd (refresh_exit_states os pm)
      in (case pm_find pm target of None \<Rightarrow> None | Some p \<Rightarrow> life_exit (mp_life p), pm))"

section \<open>Reporting\<close>

definition running_ports :: "process_manager \<Rightarrow> (string, u16) hashmap" where
  "running_ports pm =
     List.map_filter (\<lambda>(name, p). map_option (Pair name) (mp_port p))
       (filter (\<lambda>(name, p). leader_alive (mp_life p)) (pm_processes pm))"

fun life_state :: "life \<Rightarrow> process_state \<times> i32 option" where
  "life_state (Running _) = (PRunning, None)"
| "life_state (Stopping None _ _) = (PRunning, None)"
| "life_state (Stopping (Some code) _ _) = (PExited, code)"
| "life_state (Exited code why _ _) =
     ((if why = Exhausted \<or> why = SpawnFailed then PFailed else PExited), code)"

definition process_info_of :: "nat \<Rightarrow> managed_process \<Rightarrow> process_info" where
  "process_info_of now p =
     (let running = leader_alive (mp_life p); (state, code) = life_state (mp_life p) in
      \<lparr>pi_name = mp_name p, pi_id = mp_id p, pi_pid = mp_pid p, pi_state = state,
       pi_exit_code = code,
       pi_uptime_secs = (if running then Some ((now - mp_started_at p) div 1000) else None),
       pi_command = mp_command p, pi_port = mp_port p,
       pi_url = map_option (\<lambda>q. process_url (mp_name p) q None) (mp_port p),
       pi_restart_count = (if mp_restart_count p > 0 then Some (mp_restart_count p) else None),
       pi_max_restarts = Option.bind (mp_restart_policy p) rp_max_restarts,
       pi_restart_policy =
         map_option (\<lambda>rp. restart_mode_name (rp_mode rp)) (mp_restart_policy p),
       pi_watched = (if mp_watch_config p \<noteq> None then Some True else None)\<rparr>)"

definition build_process_infos :: "nat \<Rightarrow> process_manager \<Rightarrow> process_info list" where
  "build_process_infos now pm =
     sort_key pi_name (map (process_info_of now) (map snd (pm_processes pm)))"

definition status_snapshot :: "os_env \<Rightarrow> process_manager \<Rightarrow> response" where
  "status_snapshot os pm = RespStatus (build_process_infos (os_now os) pm)"

section \<open>Restart candidates\<close>

datatype candidate = Skip | Restartable | OutOfRestarts

definition candidate_of :: "managed_process \<Rightarrow> candidate" where
  "candidate_of p =
     (case mp_life p of
        Exited code Natural inc False \<Rightarrow>
          (case mp_restart_policy p of
             None \<Rightarrow> Skip
           | Some policy \<Rightarrow>
               (if \<not> should_restart (rp_mode policy) code then Skip
                else (case rp_max_restarts policy of
                        Some limit \<Rightarrow> (if mp_restart_count p \<ge> limit then OutOfRestarts else Restartable)
                      | None \<Rightarrow> Restartable)))
      | _ \<Rightarrow> Skip)"

definition classify_restart_candidates :: "process_manager \<Rightarrow> string list \<times> string list" where
  "classify_restart_candidates pm =
     (let ps = map snd (pm_processes pm)
      in (map mp_name (filter (\<lambda>p. candidate_of p = Restartable) ps),
          map mp_name (filter (\<lambda>p. candidate_of p = OutOfRestarts) ps)))"

definition fail_life :: "life \<Rightarrow> life" where
  "fail_life l = (case l of Exited code why inc timer \<Rightarrow> Exited code Exhausted inc timer | _ \<Rightarrow> l)"

definition mark_failed :: "string \<Rightarrow> process_manager \<Rightarrow> process_manager" where
  "mark_failed target pm = find_mut target (\<lambda>p. p\<lparr>mp_life := fail_life (mp_life p)\<rparr>) pm"

end
