(* ===== verification/Actor.thy ===== *)
theory Actor
  imports Process_Manager
begin

text \<open>
  \<open>src/daemon/actor.rs\<close>: the actor that owns the process manager and handles commands one at a
  time. A handler takes the answers of the operating system (\<open>os_env\<close>) and the actor, and returns
  the actor; what it sends elsewhere is appended to \<open>ac_outbox\<close>: replies on the clients' one-shot
  channels, the tasks it spawns (teardown, delayed restart), lines for the supervisor channels and
  the broadcast channel, and log rotations. \<open>ac_panicked\<close> records that an \<open>unreachable!()\<close> was
  reached; a panicked actor task handles nothing more.
\<close>

section \<open>Commands, effects and state\<close>

datatype reply_value =
    RResponse response
  | RBool bool
  | RString string
  | RExited "i32 option option"
  | RPort "u16 option"
  | RReceiver

text \<open>\<open>Teardown\<close>: name, generation, incarnation, leader exit. \<open>RestartTimer\<close>: name, generation,
  delay in milliseconds. \<open>SupervisorLine\<close>: the group it is sent to. \<open>StartChild\<close>: the child and the
  capture tasks of a new incarnation.\<close>

datatype effect =
    Reply reply_id reply_value
  | Teardown string nat "incarnation option" "i32 option option"
  | RestartTimer string nat u64
  | SupervisorLine i32 string
  | Broadcast string stream string
  | RotateLogs string
  | StartChild incarnation

datatype pm_command =
    CmdSpawn string "string option" "string option" "(string, string) hashmap option"
      "u16 option" "restart_policy option" "watch_config option" reply_id
  | CmdStop string reply_id
  | CmdStopAll reply_id
  | CmdRestart string reply_id
  | CmdStatus reply_id
  | CmdStatusSnapshot reply_id
  | CmdHasProcess string reply_id
  | CmdSessionName reply_id
  | CmdIsProcessExited string reply_id
  | CmdEnableProxy u16 reply_id
  | CmdSubscribe reply_id
  | CmdAutoRestart string nat
  | CmdWatchRestart string nat
  | CmdStopFinished string nat "i32 option"

record stop_all_batch =
  sab_remaining :: "string list"
  sab_replies :: "reply_id list"

record actor =
  ac_pm :: process_manager
  ac_proxy_state :: "(string, u16) hashmap"
  ac_proxy_port :: "u16 option"
  ac_stop_all :: "stop_all_batch option"
  ac_outbox :: "effect list"
  ac_panicked :: bool

definition actor_new :: "string \<Rightarrow> actor" where
  "actor_new session =
     \<lparr>ac_pm = pm_new session, ac_proxy_state = [], ac_proxy_port = None, ac_stop_all = None,
      ac_outbox = [], ac_panicked = False\<rparr>"

definition actor_error :: "string \<Rightarrow> response" where
  "actor_error msg = RespError General msg"

definition stop_all_in_progress :: response where
  "stop_all_in_progress = actor_error ''stop-all in progress''"

definition not_found :: "string \<Rightarrow> response" where
  "not_found target = RespError NotFound (''process not found: '' @ target)"

definition stopped :: "string \<Rightarrow> response" where
  "stopped name = RespOk (''stopped '' @ name)"

text \<open>The record update, a reply and other sends, as the steps the handlers are made of.\<close>

definition on_pm :: "(process_manager \<Rightarrow> process_manager) \<Rightarrow> actor \<Rightarrow> actor" where
  "on_pm f a = a\<lparr>ac_pm := f (ac_pm a)\<rparr>"

definition emit :: "effect list \<Rightarrow> actor \<Rightarrow> actor" where
  "emit es a = a\<lparr>ac_outbox := ac_outbox a @ es\<rparr>"

definition reply :: "reply_id \<Rightarrow> response \<Rightarrow> actor \<Rightarrow> actor" where
  "reply r resp = emit [Reply r (RResponse resp)]"

definition start_child :: "incarnation option \<Rightarrow> actor \<Rightarrow> actor" where
  "start_child child = emit (case child of None \<Rightarrow> [] | Some inc \<Rightarrow> [StartChild inc])"

definition refresh :: "os_env \<Rightarrow> actor \<Rightarrow> actor" where
  "refresh os = on_pm (\<lambda>pm. snd (refresh_exit_states os pm))"

definition publish_proxy_state :: "actor \<Rightarrow> actor" where
  "publish_proxy_state a =
     (let new_map = running_ports (ac_pm a)
      in if hm_eq (ac_proxy_state a) new_map then a else a\<lparr>ac_proxy_state := new_map\<rparr>)"

text \<open>A line for the supervisor channel of the record, when it holds the sender.\<close>

definition supervisor_line :: "string \<Rightarrow> string \<Rightarrow> actor \<Rightarrow> actor" where
  "supervisor_line name msg a =
     (case Option.bind (pm_find (ac_pm a) name) supervisor_tx of
        None \<Rightarrow> a
      | Some pgid \<Rightarrow> emit [SupervisorLine pgid msg] a)"

section \<open>Watchers\<close>

text \<open>\<open>setup_watcher\<close> with the error it returns; \<open>os_watcher\<close> is the outcome of creating it.\<close>

definition setup_watcher :: "os_env \<Rightarrow> string \<Rightarrow> actor \<Rightarrow> string option \<times> actor" where
  "setup_watcher os name a =
     (case pm_find (ac_pm a) name of
        None \<Rightarrow> (None, a)
      | Some p \<Rightarrow>
          (case mp_watch_config p of
             None \<Rightarrow> (None, a)
           | Some wc \<Rightarrow>
               (case os_watcher os wc (case mp_cwd p of None \<Rightarrow> ''.'' | Some d \<Rightarrow> d) of
                  None \<Rightarrow>
                    (None,
                     on_pm (find_mut name (\<lambda>q. q\<lparr>mp_watch_handle :=
                       Some \<lparr>wh_name = name, wh_generation = mp_generation p\<rparr>\<rparr>)) a)
                | Some e \<Rightarrow>
                    (Some e, on_pm (find_mut name (\<lambda>q. q\<lparr>mp_watch_config := None\<rparr>)) a))))"

section \<open>Teardown\<close>

text \<open>\<open>start_teardown\<close>. \<open>None\<close> in \<open>teardown_of\<close> is the branch the code calls unreachable.\<close>

fun teardown_of :: "life \<Rightarrow> (incarnation option \<times> i32 option option) option" where
  "teardown_of (Running inc) = Some (Some inc, None)"
| "teardown_of (Exited code _ inc _) = Some (inc, Some code)"
| "teardown_of (Stopping _ _ _) = None"

definition start_teardown ::
  "string \<Rightarrow> after_stop \<Rightarrow> waiter option \<Rightarrow> actor \<Rightarrow> actor" where
  "start_teardown name thn waiter a =
     (case find_entry (ac_pm a) name of
        None \<Rightarrow> a
      | Some (k, p) \<Rightarrow>
          (case teardown_of (mp_life p) of
             None \<Rightarrow> a\<lparr>ac_panicked := True\<rparr>
           | Some (inc, leader_exit) \<Rightarrow>
               emit [Teardown name (mp_generation p) inc leader_exit]
                 (on_pm (set_proc k
                   (p\<lparr>mp_watch_handle := None,
                      mp_life := Stopping leader_exit thn (case waiter of None \<Rightarrow> [] | Some w \<Rightarrow> [w])\<rparr>))
                  a)))"

definition restart_marker :: "respawn_reason \<Rightarrow> managed_process option \<Rightarrow> i32 option \<Rightarrow> string option" where
  "restart_marker reason found prev_code =
     (case reason of
        ManualRestart \<Rightarrow> None
      | Watch \<Rightarrow> Some ''[agent-procs] File changed, restarted''
      | Auto \<Rightarrow>
          map_option (\<lambda>p.
            (let exit = (case prev_code of None \<Rightarrow> ''signal'' | Some c \<Rightarrow> dec_int c)
             in (case Option.bind (mp_restart_policy p) rp_max_restarts of
                   Some m \<Rightarrow> ''[agent-procs] Restarted (exit '' @ exit @ '', attempt ''
                     @ dec_word (mp_restart_count p) @ ''/'' @ dec_word m @ '')''
                 | None \<Rightarrow> ''[agent-procs] Restarted (exit '' @ exit @ '', attempt ''
                     @ dec_word (mp_restart_count p) @ '')''))) found)"

definition respawn ::
  "os_env \<Rightarrow> string \<Rightarrow> respawn_reason \<Rightarrow> i32 option \<Rightarrow> actor \<Rightarrow> response \<times> actor" where
  "respawn os name reason prev_code a =
     (let a = (if reason = ManualRestart
               then on_pm (find_mut name (\<lambda>p. p\<lparr>mp_restart_count := 0\<rparr>)) a else a);
          (resp, rotated, child, pm) = pm_respawn os name (reason \<noteq> ManualRestart) (ac_pm a);
          a = start_child child (emit (map RotateLogs rotated) (a\<lparr>ac_pm := pm\<rparr>))
      in (case resp of
            RespRunOk _ _ _ _ _ \<Rightarrow>
              (let a = (case restart_marker reason (pm_find (ac_pm a) name) prev_code of
                          None \<Rightarrow> a
                        | Some msg \<Rightarrow> supervisor_line name msg a)
               in (resp, snd (setup_watcher os name a)))
          | RespError _ message \<Rightarrow>
              (resp,
               if reason = ManualRestart then a
               else emit [Broadcast name Stdout
                 (''[agent-procs] '' @ (if reason = Auto then ''Restart'' else ''Watch restart'')
                    @ '' failed: '' @ message)] a)
          | _ \<Rightarrow> (resp, a)))"

definition finish_stop_all :: "actor \<Rightarrow> actor" where
  "finish_stop_all a =
     (case ac_stop_all a of
        None \<Rightarrow> a
      | Some batch \<Rightarrow>
          emit (map (\<lambda>r. Reply r (RResponse (RespOk ''all processes stopped''))) (sab_replies batch))
            (on_pm pm_clear (a\<lparr>ac_stop_all := None\<rparr>)))"

fun waiter_reply :: "string \<Rightarrow> response \<Rightarrow> waiter \<Rightarrow> effect" where
  "waiter_reply name restart_reply (WaitStop r) = Reply r (RResponse (stopped name))"
| "waiter_reply name restart_reply (WaitRestart r) = Reply r (RResponse restart_reply)"

definition finish_teardown :: "os_env \<Rightarrow> string \<Rightarrow> nat \<Rightarrow> i32 option \<Rightarrow> actor \<Rightarrow> actor" where
  "finish_teardown os name generation code a =
     (case find_entry (ac_pm a) name of
        None \<Rightarrow> a
      | Some (k, p) \<Rightarrow>
          if mp_generation p \<noteq> generation then a
          else
            (case mp_life p of
               Stopping _ thn waiters \<Rightarrow>
                 (let a = on_pm (set_proc k (p\<lparr>mp_life := Exited code ManualStop None False\<rparr>)) a;
                      (restart_reply, a) =
                        (case thn of
                           Park \<Rightarrow> (actor_error ''restart superseded by stop'', a)
                         | Respawn reason \<Rightarrow> respawn os name reason code a);
                      a = emit (map (waiter_reply name restart_reply) waiters) a;
                      a = (case ac_stop_all a of
                             None \<Rightarrow> a
                           | Some batch \<Rightarrow>
                               (let rest = removeAll name (sab_remaining batch);
                                    a = a\<lparr>ac_stop_all := Some (batch\<lparr>sab_remaining := rest\<rparr>)\<rparr>
                                in if rest = [] then finish_stop_all a else a))
                  in publish_proxy_state a)
             | _ \<Rightarrow> a\<lparr>ac_panicked := True\<rparr>))"

section \<open>Stopping everything\<close>

text \<open>The body of the loop over the names: the actor and the names still to wait for.\<close>

definition stop_all_one :: "string \<Rightarrow> actor \<times> string list \<Rightarrow> actor \<times> string list" where
  "stop_all_one name s =
     (let (a, remaining) = s in
      case find_entry (ac_pm a) name of
        None \<Rightarrow> (a, remaining)
      | Some (k, p) \<Rightarrow>
          (case mp_life p of
             Stopping leader_exit _ waiters \<Rightarrow>
               (on_pm (set_proc k (p\<lparr>mp_life := Stopping leader_exit Park waiters\<rparr>)) a,
                List.insert name remaining)
           | Exited _ _ None _ \<Rightarrow> (a, remaining)
           | _ \<Rightarrow> (start_teardown name Park None a, List.insert name remaining)))"

definition handle_stop_all :: "os_env \<Rightarrow> reply_id \<Rightarrow> actor \<Rightarrow> actor" where
  "handle_stop_all os r a =
     (case ac_stop_all a of
        Some batch \<Rightarrow> a\<lparr>ac_stop_all := Some (batch\<lparr>sab_replies := sab_replies batch @ [r]\<rparr>)\<rparr>
      | None \<Rightarrow>
          (let a = refresh os a;
               (a, remaining) = fold stop_all_one (pm_names (ac_pm a)) (a, []);
               a = a\<lparr>ac_stop_all := Some \<lparr>sab_remaining = remaining, sab_replies = [r]\<rparr>\<rparr>;
               a = (if remaining = [] then finish_stop_all a else a)
           in publish_proxy_state a))"

section \<open>The other handlers\<close>

definition attach_configs ::
  "restart_policy option \<Rightarrow> watch_config option \<Rightarrow> managed_process \<Rightarrow> managed_process" where
  "attach_configs restart watch p = p\<lparr>mp_restart_policy := restart, mp_watch_config := watch\<rparr>"

definition handle_spawn ::
  "os_env \<Rightarrow> string \<Rightarrow> string option \<Rightarrow> string option \<Rightarrow> (string, string) hashmap option
     \<Rightarrow> u16 option \<Rightarrow> restart_policy option \<Rightarrow> watch_config option \<Rightarrow> reply_id \<Rightarrow> actor \<Rightarrow> actor" where
  "handle_spawn os command name cwd env port restart watch r a =
     (if ac_stop_all a \<noteq> None then reply r stop_all_in_progress a
      else
        (let (resp, child, pm) = spawn_process os command name cwd env port (ac_pm a);
             a = start_child child (a\<lparr>ac_pm := pm\<rparr>)
         in (case resp of
               RespRunOk nm i pid prt url \<Rightarrow>
                 (let a = on_pm (find_mut nm (attach_configs restart watch)) a;
                      a = (if watch = None then a
                           else (case setup_watcher os nm a of
                                   (None, a) \<Rightarrow> a
                                 | (Some e, a) \<Rightarrow>
                                     supervisor_line nm (''[agent-procs] Watch setup failed: '' @ e) a));
                      url = (case (prt, ac_proxy_port a) of
                               (Some p, Some pp) \<Rightarrow> Some (process_url nm p (Some pp))
                             | _ \<Rightarrow> url)
                  in reply r (RespRunOk nm i pid prt url) (publish_proxy_state a))
             | _ \<Rightarrow> reply r resp (publish_proxy_state a))))"

definition handle_stop :: "os_env \<Rightarrow> string \<Rightarrow> reply_id \<Rightarrow> actor \<Rightarrow> actor" where
  "handle_stop os target r a =
     (let a = refresh os a in
      case find_entry (ac_pm a) target of
        None \<Rightarrow> reply r (not_found target) a
      | Some (k, p) \<Rightarrow>
          (case mp_life p of
             Stopping leader_exit _ waiters \<Rightarrow>
               on_pm (set_proc k (p\<lparr>mp_life := Stopping leader_exit Park (waiters @ [WaitStop r])\<rparr>)) a
           | Exited _ _ None _ \<Rightarrow>
               reply r (stopped (mp_name p)) (on_pm (set_proc k (p\<lparr>mp_watch_handle := None\<rparr>)) a)
           | _ \<Rightarrow> start_teardown (mp_name p) Park (Some (WaitStop r)) a))"

definition handle_restart :: "os_env \<Rightarrow> string \<Rightarrow> reply_id \<Rightarrow> actor \<Rightarrow> actor" where
  "handle_restart os target r a =
     (if ac_stop_all a \<noteq> None then reply r stop_all_in_progress a
      else
        (let a = refresh os a in
         case find_entry (ac_pm a) target of
           None \<Rightarrow> reply r (not_found target) a
         | Some (k, p) \<Rightarrow>
             (case mp_life p of
                Stopping leader_exit _ waiters \<Rightarrow>
                  on_pm (set_proc k (p\<lparr>mp_life :=
                    Stopping leader_exit (Respawn ManualRestart) (waiters @ [WaitRestart r])\<rparr>)) a
              | _ \<Rightarrow> start_teardown (mp_name p) (Respawn ManualRestart) (Some (WaitRestart r)) a)))"

definition rewrite_urls :: "u16 option \<Rightarrow> process_info list \<Rightarrow> process_info list" where
  "rewrite_urls proxy_port infos =
     (case proxy_port of
        None \<Rightarrow> infos
      | Some pp \<Rightarrow>
          map (\<lambda>p. case pi_port p of
                 None \<Rightarrow> p
               | Some port \<Rightarrow> p\<lparr>pi_url := Some (process_url (pi_name p) port (Some pp))\<rparr>) infos)"

definition build_status :: "os_env \<Rightarrow> actor \<Rightarrow> response \<times> actor" where
  "build_status os a =
     (let changed = fst (refresh_exit_states os (ac_pm a));
          a = refresh os a;
          a = (if changed then publish_proxy_state a else a)
      in (RespStatus (rewrite_urls (ac_proxy_port a) (build_process_infos (os_now os) (ac_pm a))), a))"

definition handle_status :: "os_env \<Rightarrow> reply_id \<Rightarrow> actor \<Rightarrow> actor" where
  "handle_status os r a = (let (resp, a) = build_status os a in reply r resp a)"

definition handle_is_process_exited :: "os_env \<Rightarrow> string \<Rightarrow> reply_id \<Rightarrow> actor \<Rightarrow> actor" where
  "handle_is_process_exited os target r a =
     (let (exited, pm) = is_process_exited os target (ac_pm a)
      in emit [Reply r (RExited exited)] (publish_proxy_state (a\<lparr>ac_pm := pm\<rparr>)))"

definition handle_enable_proxy :: "u16 \<Rightarrow> reply_id \<Rightarrow> actor \<Rightarrow> actor" where
  "handle_enable_proxy port r a =
     (case ac_proxy_port a of
        Some existing \<Rightarrow> emit [Reply r (RPort (Some existing))] a
      | None \<Rightarrow>
          emit [Reply r (RPort None)]
            (publish_proxy_state (on_pm pm_enable_proxy (a\<lparr>ac_proxy_port := Some port\<rparr>))))"

definition handle_auto_restart :: "string \<Rightarrow> nat \<Rightarrow> actor \<Rightarrow> actor" where
  "handle_auto_restart name generation a =
     (if ac_stop_all a \<noteq> None then a
      else
        (case find_entry (ac_pm a) name of
           None \<Rightarrow> a
         | Some (k, p) \<Rightarrow>
             (case mp_life p of
                Exited _ Natural _ True \<Rightarrow>
                  (if mp_generation p = generation then
                     start_teardown name (Respawn Auto) None
                       (on_pm (set_proc k (p\<lparr>mp_restart_count := mp_restart_count p + 1\<rparr>)) a)
                   else a)
              | _ \<Rightarrow> a)))"

definition watch_restartable :: "life \<Rightarrow> bool" where
  "watch_restartable l \<longleftrightarrow>
     (case l of Stopping _ _ _ \<Rightarrow> False | Exited _ why _ _ \<Rightarrow> why \<noteq> ManualStop | Running _ \<Rightarrow> True)"

definition handle_watch_restart :: "string \<Rightarrow> nat \<Rightarrow> actor \<Rightarrow> actor" where
  "handle_watch_restart name generation a =
     (if ac_stop_all a \<noteq> None then a
      else
        (case find_entry (ac_pm a) name of
           None \<Rightarrow> a
         | Some (k, p) \<Rightarrow>
             (if mp_generation p = generation \<and> watch_restartable (mp_life p) then
                start_teardown name (Respawn Watch) None
                  (on_pm (set_proc k (p\<lparr>mp_restart_count := 0\<rparr>)) a)
              else a)))"

section \<open>The dispatcher and the periodic check\<close>

definition handle_command :: "os_env \<Rightarrow> pm_command \<Rightarrow> actor \<Rightarrow> actor" where
  "handle_command os cmd a =
     (if ac_panicked a then a else
      case cmd of
        CmdSpawn command name cwd env port restart watch r \<Rightarrow>
          handle_spawn os command name cwd env port restart watch r a
      | CmdStop target r \<Rightarrow> handle_stop os target r a
      | CmdStopAll r \<Rightarrow> handle_stop_all os r a
      | CmdRestart target r \<Rightarrow> handle_restart os target r a
      | CmdStatus r \<Rightarrow> handle_status os r a
      | CmdStatusSnapshot r \<Rightarrow> handle_status os r a
      | CmdHasProcess target r \<Rightarrow> emit [Reply r (RBool (has_process (ac_pm a) target))] a
      | CmdSessionName r \<Rightarrow> emit [Reply r (RString (pm_session (ac_pm a)))] a
      | CmdIsProcessExited target r \<Rightarrow> handle_is_process_exited os target r a
      | CmdEnableProxy port r \<Rightarrow> handle_enable_proxy port r a
      | CmdSubscribe r \<Rightarrow> emit [Reply r RReceiver] a
      | CmdAutoRestart name generation \<Rightarrow> handle_auto_restart name generation a
      | CmdWatchRestart name generation \<Rightarrow> handle_watch_restart name generation a
      | CmdStopFinished name generation code \<Rightarrow> finish_teardown os name generation code a)"

definition schedule_exhausted :: "string \<Rightarrow> actor \<Rightarrow> actor" where
  "schedule_exhausted name a =
     (let a = (case Option.bind (pm_find (ac_pm a) name)
                 (\<lambda>p. Option.bind (mp_restart_policy p) rp_max_restarts) of
                 None \<Rightarrow> a
               | Some m \<Rightarrow> supervisor_line name
                   (''[agent-procs] Max restarts ('' @ dec_word m @ '') exhausted'') a)
      in on_pm (mark_failed name) a)"

fun arm_timer :: "life \<Rightarrow> life" where
  "arm_timer (Exited code why inc _) = Exited code why inc True"
| "arm_timer l = l"

fun is_exited :: "life \<Rightarrow> bool" where
  "is_exited (Exited _ _ _ _) = True"
| "is_exited l = False"

definition schedule_restart :: "string \<Rightarrow> actor \<Rightarrow> actor" where
  "schedule_restart name a =
     (case find_entry (ac_pm a) name of
        None \<Rightarrow> a
      | Some (k, p) \<Rightarrow>
          (if is_exited (mp_life p) then
             emit [RestartTimer name (mp_generation p)
                 (case mp_restart_policy p of None \<Rightarrow> 1000 | Some rp \<Rightarrow> rp_restart_delay_ms rp)]
               (on_pm (set_proc k (p\<lparr>mp_life := arm_timer (mp_life p)\<rparr>)) a)
           else a))"

definition schedule_restarts :: "actor \<Rightarrow> actor" where
  "schedule_restarts a =
     (if ac_stop_all a \<noteq> None then a
      else
        (let (restartable, exhausted) = classify_restart_candidates (ac_pm a);
             a = fold schedule_exhausted exhausted a;
             a = (if exhausted = [] then a else publish_proxy_state a)
         in fold schedule_restart restartable a))"

text \<open>One tick of \<open>exit_refresh\<close> in \<open>run\<close>.\<close>

definition tick :: "os_env \<Rightarrow> actor \<Rightarrow> actor" where
  "tick os a =
     (if ac_panicked a then a
      else
        (let changed = fst (refresh_exit_states os (ac_pm a));
             a = refresh os a;
             a = (if changed then publish_proxy_state a else a)
         in schedule_restarts a))"

end
