(* ===== verification/Process_Table.thy ===== *)
theory Process_Table
  imports Process_Manager
begin

text \<open>
  The invariant of the process table and the operations of the process manager against it.

  \<open>tsum f\<close> collects a multiset over the records of a table. The conservation laws of the daemon
  (one teardown per stopping record, no waiter lost, no incarnation leaked) are equations between
  such sums, and changing one record changes them by that record's share only.
\<close>

type_synonym ptable = "(string, managed_process) hashmap"

section \<open>Sums over a table\<close>

fun tsum :: "(string \<Rightarrow> managed_process \<Rightarrow> 'a multiset) \<Rightarrow> ptable \<Rightarrow> 'a multiset" where
  "tsum f [] = {#}"
| "tsum f ((k, p) # ps) = f k p + tsum f ps"

lemma tsum_append [simp]: "tsum f (xs @ ys) = tsum f xs + tsum f ys"
  by (induction xs) (auto simp: add.assoc)

lemma tsum_update:
  assumes "map_of ps k = Some p"
  shows "tsum f (hm_insert k q ps) + f k p = tsum f ps + f k q"
  using assms by (elim update_split) (simp add: ac_simps)

lemma tsum_insert: "k \<notin> fst ` set ps \<Longrightarrow> tsum f (hm_insert k q ps) = tsum f ps + f k q"
  by (induction ps) (auto simp: ac_simps)

lemma tsum_same:
  assumes "map_of ps k = Some p" and "f k q = f k p"
  shows "tsum f (hm_insert k q ps) = tsum f ps"
  using tsum_update [OF assms(1), of f q] assms(2) by simp

lemma tsum_map:
  assumes "\<And>k p. f k (g p) = f k p"
  shows "tsum f (map (\<lambda>(k, p). (k, g p)) ps) = tsum f ps"
  by (induction ps) (auto simp: assms)

lemma in_tsum: "x \<in># tsum f ps \<longleftrightarrow> (\<exists>(k, p) \<in> set ps. x \<in># f k p)"
  by (induction f ps rule: tsum.induct) auto

lemma tsum_eq_empty: "tsum f ps = {#} \<longleftrightarrow> (\<forall>(k, p) \<in> set ps. f k p = {#})"
  by (induction f ps rule: tsum.induct) auto

section \<open>The invariant of a record and of the table\<close>

fun life_ok :: "life \<Rightarrow> bool" where
  "life_ok (Running _) = True"
| "life_ok (Stopping _ _ _) = True"
| "life_ok (Exited code why inc timer) =
     ((why = Natural \<or> why = Exhausted \<longleftrightarrow> inc \<noteq> None) \<and> (timer \<longrightarrow> why = Natural))"

fun timer_armed :: "life \<Rightarrow> bool" where
  "timer_armed (Exited _ _ _ timer) = timer"
| "timer_armed _ = False"

definition restart_limit :: "managed_process \<Rightarrow> u32 option" where
  "restart_limit p = Option.bind (mp_restart_policy p) rp_max_restarts"

definition budget_ok :: "managed_process \<Rightarrow> bool" where
  "budget_ok p \<longleftrightarrow>
     (case restart_limit p of
        None \<Rightarrow> True
      | Some m \<Rightarrow> mp_restart_count p \<le> m \<and> (timer_armed (mp_life p) \<longrightarrow> mp_restart_count p < m))"

fun life_inc :: "life \<Rightarrow> incarnation option" where
  "life_inc (Running inc) = Some inc"
| "life_inc (Exited _ _ inc _) = inc"
| "life_inc (Stopping _ _ _) = None"

text \<open>A record has a watcher only while it holds an incarnation, and the watcher speaks for that
  record and that spawn.\<close>

definition watch_ok :: "string \<Rightarrow> managed_process \<Rightarrow> bool" where
  "watch_ok k p \<longleftrightarrow>
     (case mp_watch_handle p of
        None \<Rightarrow> True
      | Some h \<Rightarrow>
          wh_name h = k \<and> wh_generation h = mp_generation p \<and> life_inc (mp_life p) \<noteq> None)"

definition proc_ok :: "string \<Rightarrow> managed_process \<Rightarrow> bool" where
  "proc_ok k p \<longleftrightarrow>
     mp_name p = k \<and> \<not> invalid_name k \<and> life_ok (mp_life p) \<and> budget_ok p \<and> watch_ok k p"

lemmas proc_ok_defs = proc_ok_def budget_ok_def restart_limit_def watch_ok_def

definition generations :: "ptable \<Rightarrow> nat list" where
  "generations ps = map (\<lambda>(k, p). mp_generation p) ps"

definition pm_inv :: "process_manager \<Rightarrow> bool" where
  "pm_inv pm \<longleftrightarrow>
     distinct (hm_keys (pm_processes pm)) \<and>
     (\<forall>(k, p) \<in> set (pm_processes pm). proc_ok k p) \<and>
     distinct (generations (pm_processes pm)) \<and>
     (\<forall>g \<in> set (generations (pm_processes pm)). g \<le> pm_next_generation pm) \<and>
     pa_inv (pm_port_allocator pm)"

lemma pm_inv_new [inv_intros]: "pm_inv (pm_new session)"
  by (simp add: pm_inv_def pm_new_def generations_def pa_inv_new)

lemma pm_inv_entry:
  assumes "pm_inv pm" and "map_of (pm_processes pm) k = Some p"
  shows "proc_ok k p" "mp_generation p \<le> pm_next_generation pm"
  using assms by (auto simp: pm_inv_def generations_def dest!: map_of_SomeD)

lemma pm_inv_map_of: "pm_inv pm \<Longrightarrow> (k, p) \<in> set (pm_processes pm) \<Longrightarrow> map_of (pm_processes pm) k = Some p"
  by (simp add: pm_inv_def)

text \<open>A generation names one record.\<close>

lemma pm_inv_generation:
  assumes "pm_inv pm" and "(k, p) \<in> set (pm_processes pm)" and "(k', p') \<in> set (pm_processes pm)"
    and "mp_generation p = mp_generation p'"
  shows "k = k' \<and> p = p'"
proof -
  have "inj_on (\<lambda>(k, p). mp_generation p) (set (pm_processes pm))"
    using assms(1) by (simp add: pm_inv_def generations_def distinct_map)
  from inj_onD [OF this, of "(k, p)" "(k', p')"] assms(2-4) show ?thesis by simp
qed

section \<open>Lookup\<close>

lemma find_entry_map_of:
  assumes "distinct (hm_keys (pm_processes pm))" and "find_entry pm t = Some (k, p)"
  shows "map_of (pm_processes pm) k = Some p"
proof (cases "map_of (pm_processes pm) t")
  case None
  with assms(2) have "List.find (\<lambda>(k, p). mp_id p = t) (pm_processes pm) = Some (k, p)"
    by (simp add: find_entry_def)
  then have "(k, p) \<in> set (pm_processes pm)"
    by (metis find_Some_iff nth_mem)
  with assms(1) show ?thesis by simp
next
  case (Some q)
  with assms(2) show ?thesis by (simp add: find_entry_def)
qed

lemma find_entry_inv:
  assumes "pm_inv pm" and "find_entry pm t = Some (k, p)"
  shows "map_of (pm_processes pm) k = Some p" "mp_name p = k" "proc_ok k p"
proof -
  show m: "map_of (pm_processes pm) k = Some p"
    using assms by (intro find_entry_map_of) (simp_all add: pm_inv_def)
  from pm_inv_entry(1) [OF assms(1) m] show "proc_ok k p" .
  then show "mp_name p = k" by (simp add: proc_ok_def)
qed

lemma find_entry_key [simp]:
  "map_of (pm_processes pm) k = Some p \<Longrightarrow> find_entry pm k = Some (k, p)"
  by (simp add: find_entry_def)

lemma pm_find_key: "map_of (pm_processes pm) k = Some p \<Longrightarrow> pm_find pm k = Some p"
  by (simp add: pm_find_def)

lemma pm_processes_set_proc [simp]:
  "pm_processes (set_proc k q pm) = hm_insert k q (pm_processes pm)"
  by (simp add: set_proc_def)

lemma set_proc_frame [simp]:
  "pm_next_generation (set_proc k q pm) = pm_next_generation pm"
  "pm_id_counter (set_proc k q pm) = pm_id_counter pm"
  "pm_session (set_proc k q pm) = pm_session pm"
  "pm_port_allocator (set_proc k q pm) = pm_port_allocator pm"
  by (simp_all add: set_proc_def)

lemma find_mut_key:
  "map_of (pm_processes pm) k = Some p \<Longrightarrow> find_mut k f pm = set_proc k (f p) pm"
  by (simp add: find_mut_def)

section \<open>Changing one record\<close>

lemma update_absent: "k \<notin> fst ` set ps \<Longrightarrow> hm_insert k q ps = ps @ [(k, q)]"
  by (induction ps) auto

lemma generations_update:
  assumes "map_of ps k = Some p" and "mp_generation q = mp_generation p"
  shows "generations (hm_insert k q ps) = generations ps"
  using assms by (elim update_split) (simp add: generations_def)

lemma pm_inv_set_proc [inv_intros]:
  assumes inv: "pm_inv pm" and p: "map_of (pm_processes pm) k = Some p"
    and q: "proc_ok k q" and g: "mp_generation q = mp_generation p"
  shows "pm_inv (set_proc k q pm)"
proof -
  from p have "k \<in> fst ` set (pm_processes pm)" by (force dest: map_of_SomeD)
  with inv q show ?thesis
    by (auto simp: pm_inv_def set_update_distinct generations_update [OF p g])
qed

lemma pm_inv_fresh:
  assumes inv: "pm_inv pm" and g: "mp_generation q = Suc (pm_next_generation pm)"
    and q: "proc_ok k q"
  shows "pm_inv (set_proc k q (pm\<lparr>pm_next_generation := Suc (pm_next_generation pm)\<rparr>))"
proof (cases "map_of (pm_processes pm) k")
  case None
  then have notin: "k \<notin> fst ` set (pm_processes pm)" by (simp add: map_of_eq_None_iff)
  then have app: "hm_insert k q (pm_processes pm) = pm_processes pm @ [(k, q)]"
    by (rule update_absent)
  from inv g have "mp_generation q \<notin> set (generations (pm_processes pm))"
    by (auto simp: pm_inv_def)
  with inv g q notin app show ?thesis
    by (auto simp: pm_inv_def generations_def le_Suc_eq)
next
  case (Some p)
  then obtain xs ys where split: "pm_processes pm = xs @ (k, p) # ys"
    and upd: "hm_insert k q (pm_processes pm) = xs @ (k, q) # ys"
    by (elim update_split) blast
  from inv split have "\<forall>g \<in> set (generations (xs @ ys)). g \<le> pm_next_generation pm"
    by (auto simp: pm_inv_def generations_def)
  with g have "mp_generation q \<notin> set (generations (xs @ ys))"
    by auto
  with inv g q split upd show ?thesis
    by (auto simp: pm_inv_def generations_def le_Suc_eq)
qed

lemma pm_inv_frame:
  assumes "pm_inv pm" and "pm_processes pm' = pm_processes pm"
    and "pm_next_generation pm \<le> pm_next_generation pm'"
    and "pa_inv (pm_port_allocator pm')"
  shows "pm_inv pm'"
  using assms by (fastforce simp: pm_inv_def)

lemma pm_inv_map:
  assumes inv: "pm_inv pm"
    and ok: "\<And>k p. proc_ok k p \<Longrightarrow> proc_ok k (g p)"
    and gen: "\<And>p. mp_generation (g p) = mp_generation p"
  shows "pm_inv (pm\<lparr>pm_processes := map (\<lambda>(k, p). (k, g p)) (pm_processes pm)\<rparr>)"
  using inv by (auto simp: pm_inv_def generations_def comp_def case_prod_unfold gen intro: ok)

section \<open>Accounts\<close>

text \<open>
  What a table owes and owns: the teardowns under way (one per stopping record), the clients
  waiting on stopping records, and the incarnations its records hold. \<open>sound_source\<close> says that
  a delayed message for \<open>(name, generation)\<close> can reach no record but \<open>name\<close>'s.
\<close>

fun waiter_id :: "waiter \<Rightarrow> reply_id" where
  "waiter_id (WaitStop r) = r"
| "waiter_id (WaitRestart r) = r"

fun life_waiters :: "life \<Rightarrow> reply_id multiset" where
  "life_waiters (Stopping _ _ ws) = mset (map waiter_id ws)"
| "life_waiters _ = {#}"

fun is_stopping :: "life \<Rightarrow> bool" where
  "is_stopping (Stopping _ _ _) = True"
| "is_stopping _ = False"

definition opt_mset :: "'a option \<Rightarrow> 'a multiset" where
  "opt_mset x = (case x of None \<Rightarrow> {#} | Some y \<Rightarrow> {#y#})"

lemma opt_mset_simps [simp]: "opt_mset None = {#}" "opt_mset (Some x) = {#x#}"
  by (simp_all add: opt_mset_def)

definition proc_tasks :: "string \<Rightarrow> managed_process \<Rightarrow> (string \<times> nat) multiset" where
  "proc_tasks k p = (if is_stopping (mp_life p) then {#(k, mp_generation p)#} else {#})"

definition pm_tasks :: "process_manager \<Rightarrow> (string \<times> nat) multiset" where
  "pm_tasks pm = tsum proc_tasks (pm_processes pm)"

definition pm_waiters :: "process_manager \<Rightarrow> reply_id multiset" where
  "pm_waiters pm = tsum (\<lambda>k p. life_waiters (mp_life p)) (pm_processes pm)"

definition pm_held :: "process_manager \<Rightarrow> incarnation multiset" where
  "pm_held pm = tsum (\<lambda>k p. opt_mset (life_inc (mp_life p))) (pm_processes pm)"

definition sound_source :: "process_manager \<Rightarrow> string \<times> nat \<Rightarrow> bool" where
  "sound_source pm s \<longleftrightarrow>
     snd s \<le> pm_next_generation pm \<and>
     (\<forall>(k, p) \<in> set (pm_processes pm). mp_generation p = snd s \<longrightarrow> k = fst s)"

lemma accounts_frame:
  assumes "pm_processes pm' = pm_processes pm"
  shows "pm_tasks pm' = pm_tasks pm" "pm_waiters pm' = pm_waiters pm" "pm_held pm' = pm_held pm"
    "pm_next_generation pm \<le> pm_next_generation pm' \<Longrightarrow> sound_source pm s \<Longrightarrow> sound_source pm' s"
  using assms by (auto simp: pm_tasks_def pm_waiters_def pm_held_def sound_source_def)

lemma accounts_set_proc:
  assumes "map_of (pm_processes pm) k = Some p"
  shows
    "pm_tasks (set_proc k q pm) + proc_tasks k p = pm_tasks pm + proc_tasks k q"
    "pm_waiters (set_proc k q pm) + life_waiters (mp_life p) = pm_waiters pm + life_waiters (mp_life q)"
    "pm_held (set_proc k q pm) + opt_mset (life_inc (mp_life p))
       = pm_held pm + opt_mset (life_inc (mp_life q))"
  unfolding pm_tasks_def pm_waiters_def pm_held_def pm_processes_set_proc
  by (rule tsum_update [OF assms, of proc_tasks]
      tsum_update [OF assms, of "\<lambda>k p. life_waiters (mp_life p)"]
      tsum_update [OF assms, of "\<lambda>k p. opt_mset (life_inc (mp_life p))"])+

lemma accounts_insert:
  assumes "k \<notin> fst ` set (pm_processes pm)"
  shows
    "pm_tasks (set_proc k q pm) = pm_tasks pm + proc_tasks k q"
    "pm_waiters (set_proc k q pm) = pm_waiters pm + life_waiters (mp_life q)"
    "pm_held (set_proc k q pm) = pm_held pm + opt_mset (life_inc (mp_life q))"
  unfolding pm_tasks_def pm_waiters_def pm_held_def pm_processes_set_proc
  by (rule tsum_insert [OF assms, of proc_tasks]
      tsum_insert [OF assms, of "\<lambda>k p. life_waiters (mp_life p)"]
      tsum_insert [OF assms, of "\<lambda>k p. opt_mset (life_inc (mp_life p))"])+

lemma sound_source_set_proc:
  assumes "pm_inv pm" and "sound_source pm s"
    and "snd s < mp_generation q \<or>
      (\<exists>p. map_of (pm_processes pm) k = Some p \<and> mp_generation q = mp_generation p)"
  shows "sound_source (set_proc k q pm) s"
proof -
  from assms(1) have "distinct (hm_keys (pm_processes pm))" by (simp add: pm_inv_def)
  with assms(2,3) show ?thesis
    by (fastforce simp: sound_source_def set_update_distinct dest: map_of_SomeD)
qed

lemma pm_tasks_entry:
  assumes "(k, g) \<in># pm_tasks pm"
  obtains p leader thn ws where "(k, p) \<in> set (pm_processes pm)" and "mp_generation p = g"
    and "mp_life p = Stopping leader thn ws"
  using assms
  by (auto simp: pm_tasks_def in_tsum proc_tasks_def split: if_splits elim!: is_stopping.elims(2))

lemma sound_entry:
  assumes "pm_inv pm" and "sound_source pm (n, g)" and "find_entry pm n = Some (k, p)"
    and "mp_generation p = g"
  shows "k = n"
  using map_of_SomeD [OF find_entry_inv(1) [OF assms(1,3)]] assms(2,4)
  by (auto simp: sound_source_def)

end
