(* ===== verification/Process_Operations.thy ===== *)
theory Process_Operations
  imports Process_Table
begin

text \<open>
  The operations of the process manager: what each one returns on each branch, that it keeps
  \<open>pm_inv\<close>, and how it changes the accounts. \<open>spawn_process_cases\<close> and \<open>pm_respawn_cases\<close> are the
  elimination rules the actor's proofs use instead of unfolding the operations.
\<close>

section \<open>Counters and ports\<close>

lemma bump_generation_frame [simp]:
  "fst (bump_generation pm) = Suc (pm_next_generation pm)"
  "snd (bump_generation pm) = pm\<lparr>pm_next_generation := Suc (pm_next_generation pm)\<rparr>"
  by (simp_all add: bump_generation_def Let_def)

lemma pm_next_id_frame [simp]:
  "pm_processes (snd (pm_next_id pm)) = pm_processes pm"
  "pm_next_generation (snd (pm_next_id pm)) = pm_next_generation pm"
  "pm_session (snd (pm_next_id pm)) = pm_session pm"
  "pm_port_allocator (snd (pm_next_id pm)) = pm_port_allocator pm"
  by (simp_all add: pm_next_id_def split: prod.split)

lemma resolve_port_frame:
  assumes "resolve_port os port pm = (r, pm')"
  shows "pm_processes pm' = pm_processes pm" "pm_next_generation pm' = pm_next_generation pm"
    "pm_session pm' = pm_session pm"
    "pa_proxy_enabled (pm_port_allocator pm') = pa_proxy_enabled (pm_port_allocator pm)"
    "pa_inv (pm_port_allocator pm) \<Longrightarrow> pa_inv (pm_port_allocator pm')"
proof -
  let ?s = "auto_assign_port (os_bind os) (assigned_ports pm) (pm_port_allocator pm)"
  have "pm' = pm \<or> pm' = pm\<lparr>pm_port_allocator := snd ?s\<rparr>"
    using assms
    by (cases ?s; cases "fst ?s"; cases port)
      (auto simp: resolve_port_def split: if_splits sum.splits)
  then show "pm_processes pm' = pm_processes pm" "pm_next_generation pm' = pm_next_generation pm"
    "pm_session pm' = pm_session pm"
    "pa_proxy_enabled (pm_port_allocator pm') = pa_proxy_enabled (pm_port_allocator pm)"
    "pa_inv (pm_port_allocator pm) \<Longrightarrow> pa_inv (pm_port_allocator pm')"
    by (auto intro: auto_assign_inv)
qed

section \<open>Starting an incarnation\<close>

lemma spawn_incarnation_Inr:
  assumes "spawn_incarnation os session name command cwd env port = Inr (inc, pid)"
  shows "0 < inc_pgid inc" "inc_capture inc = [Stdout, Stderr]" "inc_supervisor inc"
    "inc_pgid inc = uint pid"
    "os_create os (log_path (log_dir (os_vars os) session) name Stdout) = None"
    "os_create os (log_path (log_dir (os_vars os) session) name Stderr) = None"
  using assms
  by (auto simp: spawn_incarnation_def log_sink_open_def pgid_from_child_def Let_def word_less_def
      order.strict_iff_order uint_0_iff split: option.splits sum.splits if_splits)

section \<open>\<open>spawn_process\<close>\<close>

text \<open>The record of a new process, and the two ways \<open>spawn_process\<close> ends.\<close>

definition fresh_process :: "os_env \<Rightarrow> string \<Rightarrow> string \<Rightarrow> string \<Rightarrow> string option \<Rightarrow> (string, string) hashmap option
    \<Rightarrow> u16 option \<Rightarrow> u32 \<Rightarrow> nat \<Rightarrow> incarnation \<Rightarrow> managed_process" where
  "fresh_process os name i command cwd env prt pid generation inc =
     \<lparr>mp_name = name, mp_id = i, mp_command = command, mp_cwd = cwd,
      mp_env = (case env of None \<Rightarrow> [] | Some vars \<Rightarrow> vars), mp_pid = pid,
      mp_started_at = os_now os, mp_port = prt, mp_restart_policy = None,
      mp_watch_config = None, mp_restart_count = 0, mp_generation = generation,
      mp_life = Running inc, mp_watch_handle = None\<rparr>"

lemma spawn_process_run:
  assumes run: "spawn_process os command nm cwd env port pm = (resp, child, pm')"
    and next_id: "pm_next_id pm = (i, pm1)" and name: "name = (case nm of None \<Rightarrow> i | Some n \<Rightarrow> n)"
    and res: "resolve_port os port pm1 = (r, pm2)"
  obtains
    (failed) "\<exists>code msg. resp = RespError code msg" and "child = None" and "pm' = pm1 \<or> pm' = pm2"
  | (spawned) prt inc pid where "r = Inr prt" and "\<not> invalid_name name"
      and "pa_proxy_enabled (pm_port_allocator pm1) \<longrightarrow> is_valid_dns_label name"
      and "\<not> hm_contains (pm_processes pm2) name"
      and "spawn_incarnation os (pm_session pm2) name command cwd env prt = Inr (inc, pid)"
      and "resp = RespRunOk name i pid prt (map_option (\<lambda>q. process_url name q None) prt)" and "child = Some inc"
      and "pm' = pm2\<lparr>pm_next_generation := Suc (pm_next_generation pm2), pm_processes := hm_insert name
        (fresh_process os name i command cwd env prt pid (Suc (pm_next_generation pm2)) inc) (pm_processes pm2)\<rparr>"
proof -
  note run' = run [unfolded spawn_process_def next_id Let_def prod.case, folded name, unfolded res prod.case]
  show thesis
  proof (cases r)
    case (Inl e)
    with run' show thesis by (intro failed) (auto split: if_splits)
  next
    case (Inr prt)
    show thesis
    proof (cases "spawn_incarnation os (pm_session pm2) name command cwd env prt")
      case (Inl e)
      with \<open>r = Inr prt\<close> run' show thesis by (intro failed) (auto split: if_splits)
    next
      case (Inr s)
      obtain inc pid where s: "s = (inc, pid)" by force
      consider (stop) "invalid_name name \<or> (pa_proxy_enabled (pm_port_allocator pm1) \<and> \<not> is_valid_dns_label name)
          \<or> hm_contains (pm_processes pm2) name"
        | (go) "\<not> invalid_name name" "pa_proxy_enabled (pm_port_allocator pm1) \<longrightarrow> is_valid_dns_label name"
          "\<not> hm_contains (pm_processes pm2) name" by blast
      then show thesis
      proof cases
        case stop
        with \<open>r = Inr prt\<close> run' show thesis by (intro failed) (auto split: if_splits)
      next
        case go
        from go run' show thesis
          unfolding \<open>r = Inr prt\<close> sum.case Inr s prod.case
          by (intro spawned [OF \<open>r = Inr prt\<close> go Inr [unfolded s]])
            (auto simp: bump_generation_def fresh_process_def split: if_splits)
      qed
    qed
  qed
qed

lemma spawn_process_cases:
  assumes inv: "pm_inv pm"
    and run: "spawn_process os command nm cwd env port pm = (resp, child, pm')"
  obtains
    (failed) code msg where "resp = RespError code msg" and "child = None"
      and "pm_processes pm' = pm_processes pm"
      and "pm_next_generation pm' = pm_next_generation pm"
      and "pa_inv (pm_port_allocator pm')"
  | (spawned) name i pid prt inc p where
      "resp = RespRunOk name i pid prt (map_option (\<lambda>q. process_url name q None) prt)"
      and "child = Some inc" and "name \<notin> fst ` set (pm_processes pm)" and "\<not> invalid_name name"
      and "pa_proxy_enabled (pm_port_allocator pm) \<Longrightarrow> is_valid_dns_label name"
      and "nm = None \<Longrightarrow> name = i" and "\<And>n. nm = Some n \<Longrightarrow> name = n"
      and "pm_processes pm' = hm_insert name p (pm_processes pm)"
      and "pm_next_generation pm' = Suc (pm_next_generation pm)"
      and "mp_generation p = Suc (pm_next_generation pm)"
      and "mp_name p = name" and "mp_life p = Running inc" and "mp_restart_count p = 0"
      and "mp_restart_policy p = None" and "mp_watch_handle p = None" and "mp_port p = prt"
      and "0 < inc_pgid inc"
      and "pa_inv (pm_port_allocator pm')"
proof -
  define pm1 where "pm1 = snd (pm_next_id pm)"
  define i where "i = fst (pm_next_id pm)"
  define name where "name = (case nm of None \<Rightarrow> i | Some n \<Rightarrow> n)"
  have next_id: "pm_next_id pm = (i, pm1)" by (simp add: i_def pm1_def)
  obtain r pm2 where res: "resolve_port os port pm1 = (r, pm2)" by force
  note frame2 = resolve_port_frame [OF res]
  have pa: "pa_inv (pm_port_allocator pm1)" using inv by (simp add: pm_inv_def pm1_def)
  from run next_id name_def res show thesis
  proof (cases rule: spawn_process_run)
    case failed
    with that(1) frame2 pa show thesis by (auto simp: pm1_def)
  next
    case (spawned prt inc pid)
    have "0 < inc_pgid inc" by (rule spawn_incarnation_Inr(1) [OF spawned(5)])
    with spawned frame2 pa show thesis
      by (intro that(2) [of name i pid prt inc
            "fresh_process os name i command cwd env prt pid (Suc (pm_next_generation pm2)) inc"])
        (simp_all add: fresh_process_def pm1_def name_def hm_contains_iff)
  qed
qed

lemma proc_ok_spawned:
  assumes "mp_name p = k" and "\<not> invalid_name k" and "mp_life p = Running inc"
    and "mp_restart_policy p = None" and "mp_watch_handle p = None"
  shows "proc_ok k p"
  using assms by (simp add: proc_ok_defs)

text \<open>What an operation that leaves the teardowns and waiters alone does to the accounts.\<close>

definition starts :: "process_manager \<Rightarrow> incarnation option \<Rightarrow> process_manager \<Rightarrow> bool" where
  "starts pm child pm' \<longleftrightarrow>
     pm_inv pm' \<and> pm_tasks pm' = pm_tasks pm \<and> pm_waiters pm' = pm_waiters pm \<and>
     pm_held pm' = pm_held pm + opt_mset child \<and>
     (\<forall>s. sound_source pm s \<longrightarrow> sound_source pm' s)"

lemma starts_cong:
  assumes "starts pm child pm1" and "pm_processes pm' = pm_processes pm1"
    and "pm_next_generation pm' = pm_next_generation pm1" and "pa_inv (pm_port_allocator pm')"
  shows "starts pm child pm'"
  using assms by (auto simp: starts_def accounts_frame [OF assms(2)] sound_source_def
      intro: pm_inv_frame)

lemma starts_fresh:
  assumes inv: "pm_inv pm" and g: "mp_generation q = Suc (pm_next_generation pm)"
    and q: "proc_ok k q" "mp_life q = Running inc"
    and absent: "\<And>p. map_of (pm_processes pm) k = Some p \<Longrightarrow>
      \<not> is_stopping (mp_life p) \<and> life_inc (mp_life p) = None"
  shows "starts pm (Some inc)
    (set_proc k q (pm\<lparr>pm_next_generation := Suc (pm_next_generation pm)\<rparr>))"
proof -
  let ?pm = "pm\<lparr>pm_next_generation := Suc (pm_next_generation pm)\<rparr>"
  have inv': "pm_inv ?pm"
    using inv by (rule pm_inv_frame) (use inv in \<open>simp_all add: pm_inv_def\<close>)
  have frame: "pm_processes ?pm = pm_processes pm" by simp
  note same = accounts_frame [OF frame]
  have sound: "sound_source (set_proc k q ?pm) s" if "sound_source pm s" for s
    using inv' that g
    by (intro sound_source_set_proc) (auto simp: sound_source_def less_Suc_eq_le)
  have "pm_tasks (set_proc k q ?pm) = pm_tasks ?pm \<and> pm_waiters (set_proc k q ?pm) = pm_waiters ?pm
      \<and> pm_held (set_proc k q ?pm) = pm_held ?pm + {#inc#}"
  proof (cases "map_of (pm_processes ?pm) k")
    case None
    then have "k \<notin> fst ` set (pm_processes ?pm)" by (simp add: map_of_eq_None_iff)
    from accounts_insert [OF this, of q] q(2) show ?thesis by (simp add: proc_tasks_def)
  next
    case (Some p)
    with absent have "\<not> is_stopping (mp_life p)" "life_inc (mp_life p) = None" by simp_all
    then show ?thesis
      using accounts_set_proc [OF Some, of q] q(2)
      by (cases "mp_life p") (simp_all add: proc_tasks_def)
  qed
  with inv g q(1) sound show ?thesis
    by (simp add: starts_def same pm_inv_fresh)
qed

lemma spawn_process_starts:
  assumes inv: "pm_inv pm"
    and run: "spawn_process os command nm cwd env port pm = (resp, child, pm')"
  shows "starts pm child pm'"
  using inv run
proof (cases rule: spawn_process_cases)
  case (failed code msg)
  have "starts pm None pm" using inv by (simp add: starts_def)
  with failed show ?thesis by (simp add: starts_cong)
next
  case (spawned name i pid prt inc p)
  have "starts pm (Some inc) (set_proc name p (pm\<lparr>pm_next_generation := Suc (pm_next_generation pm)\<rparr>))"
    using inv spawned
    by (intro starts_fresh) (auto intro: proc_ok_spawned dest: map_of_SomeD simp: rev_image_eqI)
  with spawned show ?thesis by (auto intro: starts_cong)
qed

section \<open>\<open>respawn\<close>\<close>

text \<open>The spawn a respawn of a record attempts.\<close>

definition respawn_attempt :: "os_env \<Rightarrow> string \<Rightarrow> managed_process \<Rightarrow> string + (incarnation \<times> u32)" where
  "respawn_attempt os session p =
     spawn_incarnation os session (mp_name p) (mp_command p) (mp_cwd p)
       (if mp_env p = [] then None else Some (mp_env p)) (mp_port p)"

lemma pm_respawn_cases:
  assumes p: "map_of (pm_processes pm) name = Some p"
    and run: "pm_respawn os name keep pm = (resp, rotated, child, pm')"
  obtains
    (failed) msg q where "resp = RespError General msg" and "child = None"
      and "pm_processes pm' = hm_insert name q (pm_processes pm)"
      and "pm_next_generation pm' = Suc (pm_next_generation pm)"
      and "pm_port_allocator pm' = pm_port_allocator pm"
      and "q = p\<lparr>mp_pid := 0, mp_life := Exited
             (case mp_life p of Exited code _ _ _ \<Rightarrow> code | _ \<Rightarrow> None) SpawnFailed None False\<rparr>"
      and "mp_name p = name \<Longrightarrow> respawn_attempt os (pm_session pm) p = Inl msg"
  | (spawned) i pid inc q where
      "resp = RespRunOk name i pid (mp_port p)
         (map_option (\<lambda>q. process_url name q None) (mp_port p))"
      and "child = Some inc"
      and "pm_processes pm' = hm_insert name q (pm_processes pm)"
      and "pm_next_generation pm' = Suc (pm_next_generation pm)"
      and "pm_port_allocator pm' = pm_port_allocator pm"
      and "q = p\<lparr>mp_id := i, mp_pid := pid, mp_started_at := os_now os,
             mp_generation := Suc (pm_next_generation pm), mp_life := Running inc\<rparr>"
      and "0 < inc_pgid inc"
      and "mp_name p = name \<Longrightarrow> respawn_attempt os (pm_session pm) p = Inr (inc, pid)"
proof -
  define pm1 where "pm1 = pm\<lparr>pm_next_generation := Suc (pm_next_generation pm)\<rparr>"
  obtain i pm2 where next_id: "pm_next_id pm1 = (i, pm2)" by force
  have frame: "pm_processes pm2 = pm_processes pm" "pm_port_allocator pm2 = pm_port_allocator pm"
    "pm_next_generation pm2 = Suc (pm_next_generation pm)"
    using pm_next_id_frame [of pm1] unfolding next_id by (simp_all add: pm1_def)
  have bump: "bump_generation pm = (Suc (pm_next_generation pm), pm1)"
    by (simp add: bump_generation_def pm1_def Let_def)
  note run' = run [unfolded pm_respawn_def p option.case bump Let_def prod.case next_id]
  show thesis
  proof (cases "spawn_incarnation os (pm_session pm) name (mp_command p) (mp_cwd p)
      (if mp_env p = [] then None else Some (mp_env p)) (mp_port p)")
    case (Inl e)
    show thesis
      by (rule failed [OF _ _ _ _ _ refl])
        (use run' Inl frame in \<open>auto simp del: pm_processes_set_proc simp: set_proc_def respawn_attempt_def\<close>)
  next
    case (Inr s)
    obtain inc pid where s: "s = (inc, pid)" by force
    from spawn_incarnation_Inr(1) [OF Inr [unfolded s]] have pos: "0 < inc_pgid inc" .
    show thesis
      by (rule spawned [of i pid inc, OF _ _ _ _ _ refl])
        (use run' Inr s pos frame in \<open>auto simp del: pm_processes_set_proc simp: set_proc_def respawn_attempt_def\<close>)
  qed
qed

lemma pm_respawn_starts:
  assumes inv: "pm_inv pm" and p: "map_of (pm_processes pm) name = Some p"
    and vacant: "mp_life p = Exited c w None False"
    and run: "pm_respawn os name keep pm = (resp, rotated, child, pm')"
  shows "starts pm child pm'"
  using p run
proof (cases rule: pm_respawn_cases)
  case (failed msg q)
  from pm_inv_entry(1) [OF inv p] have ok: "proc_ok name p" .
  let ?pm = "set_proc name q pm"
  have q: "proc_ok name q" "mp_generation q = mp_generation p"
    using ok failed vacant by (auto simp: proc_ok_defs
        split: option.splits)
  have "starts pm None ?pm"
    using accounts_set_proc [OF p, of q] failed vacant inv p q
    by (auto simp: starts_def proc_tasks_def pm_inv_set_proc intro!: sound_source_set_proc)
  then have "starts pm None (?pm\<lparr>pm_next_generation := Suc (pm_next_generation pm)\<rparr>)"
    by (auto simp: starts_def accounts_frame(1-3) [of "?pm\<lparr>pm_next_generation := _\<rparr>" ?pm]
        sound_source_def intro: pm_inv_frame simp: pm_inv_def)
  with failed inv show ?thesis
    by (auto intro: starts_cong simp: pm_inv_def)
next
  case (spawned i pid inc q)
  from pm_inv_entry(1) [OF inv p] have ok: "proc_ok name p" .
  have "starts pm (Some inc) (set_proc name q (pm\<lparr>pm_next_generation := Suc (pm_next_generation pm)\<rparr>))"
  proof (rule starts_fresh [OF inv])
    show "proc_ok name q"
      using ok spawned vacant by (auto simp: proc_ok_defs
          split: option.splits)
  qed (use spawned vacant p in auto)
  with spawned inv show ?thesis
    by (auto intro: starts_cong simp: pm_inv_def)
qed

section \<open>The other operations\<close>

lemma refresh_life_cases:
  obtains "refresh_life w l = l" "\<not> exit_observed w l"
  | inc code where "l = Running inc" "refresh_life w l = Exited code Natural (Some inc) False"
      "exit_observed w l" "peek_exit w (inc_pgid inc) = Some code"
  by (cases l) (auto simp: refresh_life_def exit_observed_def split: option.splits)

lemma refresh_life_facts [simp]:
  "life_inc (refresh_life w l) = life_inc l"
  "life_waiters (refresh_life w l) = life_waiters l"
  "is_stopping (refresh_life w l) = is_stopping l"
  "life_ok l \<Longrightarrow> life_ok (refresh_life w l)"
  "timer_armed (refresh_life w l) = timer_armed l"
  "refresh_life w (Stopping e t ws) = Stopping e t ws"
  "refresh_life w (Exited c y i armed) = Exited c y i armed"
  by (cases w l rule: refresh_life_cases; simp add: refresh_life_def)+

lemma starts_map:
  assumes inv: "pm_inv pm"
    and ok: "\<And>k p. proc_ok k p \<Longrightarrow> proc_ok k (g p)"
    and gen: "\<And>p. mp_generation (g p) = mp_generation p"
    and inc: "\<And>p. life_inc (mp_life (g p)) = life_inc (mp_life p)"
    and ws: "\<And>p. life_waiters (mp_life (g p)) = life_waiters (mp_life p)"
    and st: "\<And>p. is_stopping (mp_life (g p)) = is_stopping (mp_life p)"
  shows "starts pm None (pm\<lparr>pm_processes := map (\<lambda>(k, p). (k, g p)) (pm_processes pm)\<rparr>)"
proof -
  have "pm_inv (pm\<lparr>pm_processes := map (\<lambda>(k, p). (k, g p)) (pm_processes pm)\<rparr>)"
    by (rule pm_inv_map [OF inv ok gen])
  moreover have "tsum proc_tasks (map (\<lambda>(k, p). (k, g p)) ps) = tsum proc_tasks ps" for ps
    by (rule tsum_map) (simp add: proc_tasks_def st gen)
  moreover have "tsum (\<lambda>k p. life_waiters (mp_life p)) (map (\<lambda>(k, p). (k, g p)) ps)
      = tsum (\<lambda>k p. life_waiters (mp_life p)) ps" for ps
    by (rule tsum_map) (simp add: ws)
  moreover have "tsum (\<lambda>k p. opt_mset (life_inc (mp_life p))) (map (\<lambda>(k, p). (k, g p)) ps)
      = tsum (\<lambda>k p. opt_mset (life_inc (mp_life p))) ps" for ps
    by (rule tsum_map) (simp add: inc)
  ultimately show ?thesis
    by (auto simp: starts_def pm_tasks_def pm_waiters_def pm_held_def sound_source_def gen)
qed

lemma refresh_starts:
  assumes "pm_inv pm"
  shows "starts pm None (snd (refresh_exit_states os pm))"
  unfolding refresh_exit_states_def snd_conv
  by (rule starts_map [OF assms])
    (auto simp: proc_ok_defs split: option.splits)

lemma refresh_lookup:
  "map_of (pm_processes (snd (refresh_exit_states os pm))) k =
     map_option (\<lambda>p. p\<lparr>mp_life := refresh_life (os_waitid os) (mp_life p)\<rparr>)
       (map_of (pm_processes pm) k)"
  by (simp add: refresh_exit_states_def map_of_map)

lemma refresh_keys [simp]:
  "hm_keys (pm_processes (snd (refresh_exit_states os pm))) = hm_keys (pm_processes pm)"
  by (simp add: refresh_exit_states_def split_def comp_def)

lemma starts_set_proc:
  assumes inv: "pm_inv pm" and p: "map_of (pm_processes pm) k = Some p"
    and q: "proc_ok k q" "mp_generation q = mp_generation p"
    and same: "life_inc (mp_life q) = life_inc (mp_life p)"
      "life_waiters (mp_life q) = life_waiters (mp_life p)"
      "is_stopping (mp_life q) = is_stopping (mp_life p)"
  shows "starts pm None (set_proc k q pm)"
  using accounts_set_proc [OF p, of q] assms
  by (auto simp: starts_def proc_tasks_def pm_inv_set_proc intro!: sound_source_set_proc split: if_splits)

lemma starts_refl: "pm_inv pm \<Longrightarrow> starts pm None pm"
  by (simp add: starts_def)

lemma mark_failed_starts:
  assumes inv: "pm_inv pm"
    and natural: "\<And>p. map_of (pm_processes pm) k = Some p \<Longrightarrow>
      \<exists>code inc. mp_life p = Exited code Natural inc False"
    and here: "map_of (pm_processes pm) k = Some p"
  shows "starts pm None (mark_failed k pm)"
proof -
  from natural here obtain code inc where l: "mp_life p = Exited code Natural inc False" by blast
  have "starts pm None (set_proc k (p\<lparr>mp_life := fail_life (mp_life p)\<rparr>) pm)"
    using pm_inv_entry(1) [OF inv here] l
    by (intro starts_set_proc [OF inv here])
      (auto simp: proc_ok_defs fail_life_def
        split: option.splits)
  then show ?thesis by (simp add: mark_failed_def find_mut_key [OF here])
qed

lemma pm_enable_proxy_starts: "pm_inv pm \<Longrightarrow> starts pm None (pm_enable_proxy pm)"
  by (rule starts_cong [OF starts_refl])
    (auto simp: pm_enable_proxy_def pm_inv_def intro: pa_inv_enable)

lemma pm_clear_inv:
  assumes "pm_inv pm"
  shows "pm_inv (pm_clear pm)" "pm_tasks (pm_clear pm) = {#}" "pm_waiters (pm_clear pm) = {#}"
    "pm_held (pm_clear pm) = {#}" "sound_source pm s \<Longrightarrow> sound_source (pm_clear pm) s"
  using assms
  by (auto simp: pm_clear_def pm_inv_def generations_def pm_tasks_def pm_waiters_def pm_held_def
      sound_source_def)

end
