(* ===== verification/Actor_Accounts.thy ===== *)
theory Actor_Accounts
  imports Actor Process_Operations
begin

text \<open>
  The books of the actor. \<open>balanced S B W I a\<close> relates the table and what the handler has sent so
  far to the world outside: \<open>B\<close> are the teardown tasks already running, \<open>W\<close> the clients owed a
  reply, \<open>I\<close> the incarnations the table held when the handler began, \<open>S\<close> the delayed messages
  (restart timers, watcher events) that may still arrive. Every primitive of the actor keeps the
  books; \<open>starts\<close> (of the process manager) is the interface the two levels share.
\<close>

section \<open>What has been sent\<close>

fun eff_replies :: "effect \<Rightarrow> reply_id multiset" where
  "eff_replies (Reply r v) = {#r#}"
| "eff_replies _ = {#}"

fun eff_tasks :: "effect \<Rightarrow> (string \<times> nat) multiset" where
  "eff_tasks (Teardown n g inc leader) = {#(n, g)#}"
| "eff_tasks _ = {#}"

fun eff_given :: "effect \<Rightarrow> incarnation multiset" where
  "eff_given (Teardown n g inc leader) = opt_mset inc"
| "eff_given _ = {#}"

fun eff_started :: "effect \<Rightarrow> incarnation multiset" where
  "eff_started (StartChild inc) = {#inc#}"
| "eff_started _ = {#}"

fun eff_timers :: "effect \<Rightarrow> (string \<times> nat) set" where
  "eff_timers (RestartTimer n g d) = {(n, g)}"
| "eff_timers _ = {}"

definition replies_of :: "effect list \<Rightarrow> reply_id multiset" where
  "replies_of es = sum_list (map eff_replies es)"

definition tasks_of :: "effect list \<Rightarrow> (string \<times> nat) multiset" where
  "tasks_of es = sum_list (map eff_tasks es)"

definition given_of :: "effect list \<Rightarrow> incarnation multiset" where
  "given_of es = sum_list (map eff_given es)"

definition started_of :: "effect list \<Rightarrow> incarnation multiset" where
  "started_of es = sum_list (map eff_started es)"

definition timers_of :: "effect list \<Rightarrow> (string \<times> nat) set" where
  "timers_of es = \<Union> (set (map eff_timers es))"

lemmas sent_defs = replies_of_def tasks_of_def given_of_def started_of_def timers_of_def

lemma sent_simps [simp]:
  "replies_of [] = {#}" "tasks_of [] = {#}" "given_of [] = {#}" "started_of [] = {#}" "timers_of [] = {}"
  "replies_of (es @ fs) = replies_of es + replies_of fs"
  "tasks_of (es @ fs) = tasks_of es + tasks_of fs"
  "given_of (es @ fs) = given_of es + given_of fs"
  "started_of (es @ fs) = started_of es + started_of fs"
  "timers_of (es @ fs) = timers_of es \<union> timers_of fs"
  "replies_of (e # es) = eff_replies e + replies_of es"
  "tasks_of (e # es) = eff_tasks e + tasks_of es"
  "given_of (e # es) = eff_given e + given_of es"
  "started_of (e # es) = eff_started e + started_of es"
  "timers_of (e # es) = eff_timers e \<union> timers_of es"
  by (simp_all add: sent_defs)

definition batch_waiters :: "stop_all_batch option \<Rightarrow> reply_id multiset" where
  "batch_waiters b = (case b of None \<Rightarrow> {#} | Some b \<Rightarrow> mset (sab_replies b))"

lemma batch_waiters_simps [simp]:
  "batch_waiters None = {#}" "batch_waiters (Some b) = mset (sab_replies b)"
  by (simp_all add: batch_waiters_def)

definition balanced :: "(string \<times> nat) set \<Rightarrow> (string \<times> nat) multiset \<Rightarrow> reply_id multiset
    \<Rightarrow> incarnation multiset \<Rightarrow> actor \<Rightarrow> bool" where
  "balanced S B W I a \<longleftrightarrow>
     \<not> ac_panicked a \<and> pm_inv (ac_pm a) \<and>
     (\<forall>s \<in> S \<union> timers_of (ac_outbox a). sound_source (ac_pm a) s) \<and>
     pm_tasks (ac_pm a) = B + tasks_of (ac_outbox a) \<and>
     pm_waiters (ac_pm a) + batch_waiters (ac_stop_all a) + replies_of (ac_outbox a) = W \<and>
     pm_held (ac_pm a) + given_of (ac_outbox a) = I + started_of (ac_outbox a)"

lemma balanced_inv: "balanced S B W I a \<Longrightarrow> pm_inv (ac_pm a)"
  by (simp add: balanced_def)

section \<open>Frames\<close>

lemma actor_frame [simp]:
  "ac_pm (on_pm f a) = f (ac_pm a)" "ac_stop_all (on_pm f a) = ac_stop_all a"
  "ac_outbox (on_pm f a) = ac_outbox a" "ac_panicked (on_pm f a) = ac_panicked a"
  "ac_proxy_state (on_pm f a) = ac_proxy_state a" "ac_proxy_port (on_pm f a) = ac_proxy_port a"
  "ac_pm (emit es a) = ac_pm a" "ac_stop_all (emit es a) = ac_stop_all a"
  "ac_outbox (emit es a) = ac_outbox a @ es" "ac_panicked (emit es a) = ac_panicked a"
  "ac_proxy_state (emit es a) = ac_proxy_state a" "ac_proxy_port (emit es a) = ac_proxy_port a"
  by (simp_all add: on_pm_def emit_def)

lemma publish_frame [simp]:
  "ac_pm (publish_proxy_state a) = ac_pm a" "ac_stop_all (publish_proxy_state a) = ac_stop_all a"
  "ac_outbox (publish_proxy_state a) = ac_outbox a"
  "ac_panicked (publish_proxy_state a) = ac_panicked a"
  "ac_proxy_port (publish_proxy_state a) = ac_proxy_port a"
  by (simp_all add: publish_proxy_state_def Let_def)

lemma supervisor_line_frame [simp]:
  "ac_pm (supervisor_line n m a) = ac_pm a" "ac_stop_all (supervisor_line n m a) = ac_stop_all a"
  "ac_panicked (supervisor_line n m a) = ac_panicked a"
  "ac_proxy_state (supervisor_line n m a) = ac_proxy_state a"
  "ac_proxy_port (supervisor_line n m a) = ac_proxy_port a"
  by (simp_all add: supervisor_line_def split: option.split)

lemma start_child_frame [simp]:
  "ac_pm (start_child c a) = ac_pm a" "ac_stop_all (start_child c a) = ac_stop_all a"
  "ac_panicked (start_child c a) = ac_panicked a"
  "ac_proxy_state (start_child c a) = ac_proxy_state a"
  "ac_proxy_port (start_child c a) = ac_proxy_port a"
  by (simp_all add: start_child_def)

section \<open>Primitives\<close>

definition silent :: "effect \<Rightarrow> bool" where
  "silent e \<longleftrightarrow> eff_replies e = {#} \<and> eff_tasks e = {#} \<and> eff_given e = {#} \<and> eff_started e = {#}
     \<and> eff_timers e = {}"

lemma silent_simps [simp]:
  "silent (SupervisorLine pg m)" "silent (Broadcast n st m)" "silent (RotateLogs p)"
  by (simp_all add: silent_def)

lemma silent_sent:
  "list_all silent es \<Longrightarrow> replies_of es = {#} \<and> tasks_of es = {#} \<and> given_of es = {#}
     \<and> started_of es = {#} \<and> timers_of es = {}"
  by (induction es) (auto simp: silent_def)

lemma balanced_starts:
  assumes "balanced S B W I a" and "starts (ac_pm a) child pm" and "list_all silent es"
  shows "balanced S B W I (start_child child (emit es (a\<lparr>ac_pm := pm\<rparr>)))"
  using assms silent_sent [OF assms(3)]
  by (auto simp: balanced_def starts_def start_child_def split: option.split)

lemma balanced_starts_None [inv_intros]:
  assumes "balanced S B W I a" and "starts (ac_pm a) None (f (ac_pm a))"
  shows "balanced S B W I (on_pm f a)"
  using balanced_starts [OF assms, of "[]"] by (simp add: start_child_def on_pm_def emit_def)

lemma balanced_silent [inv_intros]:
  "balanced S B W I a \<Longrightarrow> list_all silent es \<Longrightarrow> balanced S B W I (emit es a)"
  by (simp add: balanced_def silent_sent)

lemma balanced_reply [inv_intros]:
  "balanced S B W I a \<Longrightarrow> balanced S B (add_mset r W) I (emit [Reply r v] a)"
  by (auto simp: balanced_def)

lemma balanced_publish [inv_intros]:
  "balanced S B W I a \<Longrightarrow> balanced S B W I (publish_proxy_state a)"
  by (simp add: balanced_def)

lemma balanced_supervisor_line [inv_intros]:
  "balanced S B W I a \<Longrightarrow> balanced S B W I (supervisor_line n m a)"
  by (auto simp: supervisor_line_def intro: inv_intros split: option.split)

lemma balanced_refresh [inv_intros]:
  "balanced S B W I a \<Longrightarrow> balanced S B W I (refresh os a)"
  unfolding refresh_def by (rule balanced_starts_None) (auto intro: refresh_starts balanced_inv)

lemma balanced_proxy_port [inv_intros]:
  "balanced S B W I a \<Longrightarrow> balanced S B W I (a\<lparr>ac_proxy_port := p\<rparr>)"
  by (simp add: balanced_def)

text \<open>Changing a record in place without touching its life's account.\<close>

lemma balanced_set_proc [inv_intros]:
  assumes "balanced S B W I a" and "map_of (pm_processes (ac_pm a)) k = Some p"
    and "proc_ok k q" and "mp_generation q = mp_generation p"
    and "life_inc (mp_life q) = life_inc (mp_life p)"
    and "life_waiters (mp_life q) = life_waiters (mp_life p)"
    and "is_stopping (mp_life q) = is_stopping (mp_life p)"
  shows "balanced S B W I (on_pm (set_proc k q) a)"
  using assms by (intro balanced_starts_None starts_set_proc) (auto intro: balanced_inv)

lemma balanced_setup_watcher:
  assumes bal: "balanced S B W I a" and p: "map_of (pm_processes (ac_pm a)) k = Some p"
    and inc: "life_inc (mp_life p) \<noteq> None"
  shows "balanced S B W I (snd (setup_watcher os k a))"
proof -
  have ok: "proc_ok k p" using pm_inv_entry(1) [OF balanced_inv [OF bal] p] .
  then have "proc_ok k (p\<lparr>mp_watch_handle := Some \<lparr>wh_name = k, wh_generation = mp_generation p\<rparr>\<rparr>)"
    "proc_ok k (p\<lparr>mp_watch_config := None\<rparr>)"
    using inc
    by (auto simp: proc_ok_defs split: option.splits)
  with bal p show ?thesis
    by (auto simp: setup_watcher_def pm_find_key [OF p] find_mut_key [OF p]
        intro!: balanced_set_proc split: option.split)
      (auto simp: on_pm_def find_mut_key [OF p] intro!: balanced_set_proc [unfolded on_pm_def])
qed

text \<open>A teardown moves the incarnation and the waiter into the books of the task.\<close>

lemma balanced_hand_over:
  assumes bal: "balanced S B W I a" and p: "map_of (pm_processes (ac_pm a)) k = Some p"
    and t: "teardown_of (mp_life p) = Some (inc, leader)"
    and q: "proc_ok k q" "mp_generation q = mp_generation p"
      "mp_life q = Stopping leader thn (case w of None \<Rightarrow> [] | Some w \<Rightarrow> [w])"
  shows "balanced S B (W + image_mset waiter_id (opt_mset w)) I
    (emit [Teardown k (mp_generation p) inc leader] (on_pm (set_proc k q) a))"
proof -
  have inv: "pm_inv (ac_pm a)" using bal by (rule balanced_inv)
  have inv': "pm_inv (set_proc k q (ac_pm a))" by (rule pm_inv_set_proc [OF inv p q(1,2)])
  have sound: "sound_source (set_proc k q (ac_pm a)) s" if "sound_source (ac_pm a) s" for s
    using that p q by (intro sound_source_set_proc [OF inv]) auto
  have live: "\<not> is_stopping (mp_life p)" "life_waiters (mp_life p) = {#}" "life_inc (mp_life p) = inc"
    using t by (cases "mp_life p"; simp)+
  then have acc: "pm_tasks (set_proc k q (ac_pm a)) = pm_tasks (ac_pm a) + {#(k, mp_generation p)#}"
    "pm_waiters (set_proc k q (ac_pm a)) = pm_waiters (ac_pm a) + image_mset waiter_id (opt_mset w)"
    "pm_held (set_proc k q (ac_pm a)) + opt_mset inc = pm_held (ac_pm a)"
    using accounts_set_proc [OF p, of q] q
    by (auto simp: proc_tasks_def split: option.splits)
  from bal inv' sound acc show ?thesis
    by (auto simp: balanced_def ac_simps simp flip: acc(3))
qed

lemma teardown_of_live: "\<not> is_stopping l \<Longrightarrow> \<exists>inc leader. teardown_of l = Some (inc, leader)"
  by (cases l) auto

lemma start_teardown_hands_over:
  assumes "map_of (pm_processes (ac_pm a)) k = Some p"
    and "teardown_of (mp_life p) = Some (inc, leader)"
  shows "start_teardown k thn w a = emit [Teardown k (mp_generation p) inc leader]
    (on_pm (set_proc k (p\<lparr>mp_watch_handle := None,
       mp_life := Stopping leader thn (case w of None \<Rightarrow> [] | Some w \<Rightarrow> [w])\<rparr>)) a)"
  using assms by (simp add: start_teardown_def)

lemma balanced_start_teardown:
  assumes bal: "balanced S B W I a" and p: "map_of (pm_processes (ac_pm a)) k = Some p"
    and live: "\<not> is_stopping (mp_life p)"
  shows "balanced S B (W + image_mset waiter_id (opt_mset w)) I (start_teardown k thn w a)"
proof -
  obtain inc leader where t: "teardown_of (mp_life p) = Some (inc, leader)"
    using teardown_of_live [OF live] by blast
  have "proc_ok k p" using pm_inv_entry(1) [OF balanced_inv [OF bal] p] .
  then have "proc_ok k (p\<lparr>mp_watch_handle := None,
      mp_life := Stopping leader thn (case w of None \<Rightarrow> [] | Some w \<Rightarrow> [w])\<rparr>)"
    by (auto simp: proc_ok_defs split: option.splits)
  then show ?thesis
    unfolding start_teardown_hands_over [OF p t]
    by (intro balanced_hand_over [OF bal p t]) simp_all
qed

text \<open>A client joins the waiters of a stopping record; what happens next may change.\<close>

lemma balanced_join:
  assumes bal: "balanced S B W I a" and p: "map_of (pm_processes (ac_pm a)) k = Some p"
    and l: "mp_life p = Stopping leader t ws"
  shows "balanced S B (W + mset (map waiter_id vs)) I
    (on_pm (set_proc k (p\<lparr>mp_life := Stopping leader t' (ws @ vs)\<rparr>)) a)"
proof -
  let ?q = "p\<lparr>mp_life := Stopping leader t' (ws @ vs)\<rparr>"
  have inv: "pm_inv (ac_pm a)" using bal by (rule balanced_inv)
  have "proc_ok k p" using pm_inv_entry(1) [OF inv p] .
  with l have q: "proc_ok k ?q"
    by (auto simp: proc_ok_defs split: option.splits)
  have inv': "pm_inv (set_proc k ?q (ac_pm a))"
    by (rule pm_inv_set_proc [OF inv p q]) simp
  have sound: "sound_source (set_proc k ?q (ac_pm a)) s" if "sound_source (ac_pm a) s" for s
    using that p by (intro sound_source_set_proc [OF inv]) auto
  show ?thesis
    using bal inv' sound accounts_set_proc [OF p, of ?q] l
    by (auto simp: balanced_def proc_tasks_def)
qed

section \<open>Respawning\<close>

lemma balanced_reset_count:
  assumes bal: "balanced S B W I a" and p: "map_of (pm_processes (ac_pm a)) k = Some p"
  shows "balanced S B W I (on_pm (set_proc k (p\<lparr>mp_restart_count := 0\<rparr>)) a)"
proof -
  have "proc_ok k p" using pm_inv_entry(1) [OF balanced_inv [OF bal] p] .
  then have "proc_ok k (p\<lparr>mp_restart_count := 0\<rparr>)"
    by (auto simp: proc_ok_defs split: option.splits intro: order.strict_trans1 [OF word_zero_le])
  with bal p show ?thesis by (intro balanced_set_proc) auto
qed

lemma find_mut_on_pm:
  "map_of (pm_processes (ac_pm a)) k = Some p \<Longrightarrow>
     on_pm (find_mut k f) a = on_pm (set_proc k (f p)) a"
  by (simp add: on_pm_def find_mut_key)

lemma setup_watcher_frame [simp]:
  "ac_stop_all (snd (setup_watcher os k a)) = ac_stop_all a"
  "ac_outbox (snd (setup_watcher os k a)) = ac_outbox a"
  "ac_proxy_state (snd (setup_watcher os k a)) = ac_proxy_state a"
  "ac_proxy_port (snd (setup_watcher os k a)) = ac_proxy_port a"
  by (auto simp: setup_watcher_def split: option.splits)

lemma respawn_frame:
  assumes "respawn os name reason code a = (resp, a')"
  shows "ac_stop_all a' = ac_stop_all a" "ac_proxy_state a' = ac_proxy_state a"
    "ac_proxy_port a' = ac_proxy_port a"
  using assms
  by (auto simp: respawn_def Let_def split: prod.splits response.splits option.splits if_splits)

lemma balanced_respawn:
  assumes bal: "balanced S B W I a" and p: "map_of (pm_processes (ac_pm a)) k = Some p"
    and vacant: "mp_life p = Exited c w None False"
    and run: "respawn os k reason code a = (resp, a')"
  shows "balanced S B W I a'"
proof -
  define a1 where "a1 = (if reason = ManualRestart
    then on_pm (find_mut k (\<lambda>p. p\<lparr>mp_restart_count := 0\<rparr>)) a else a)"
  have bal1: "balanced S B W I a1"
    using bal balanced_reset_count [OF bal p] by (simp add: a1_def find_mut_on_pm [OF p])
  obtain p1 where p1: "map_of (pm_processes (ac_pm a1)) k = Some p1"
    and vacant1: "mp_life p1 = Exited c w None False"
    using p vacant that by (cases "reason = ManualRestart") (auto simp: a1_def find_mut_on_pm [OF p])
  obtain r rotated child pm where re:
    "pm_respawn os k (reason \<noteq> ManualRestart) (ac_pm a1) = (r, rotated, child, pm)"
    using prod_cases4 by blast
  define a2 where "a2 = start_child child (emit (map RotateLogs rotated) (a1\<lparr>ac_pm := pm\<rparr>))"
  have bal2: "balanced S B W I a2"
    unfolding a2_def
    using pm_respawn_starts [OF balanced_inv [OF bal1] p1 vacant1 re] bal1
    by (intro balanced_starts) (simp_all add: list_all_iff)
  note run' = run [unfolded respawn_def Let_def, folded a1_def, unfolded re prod.case, folded a2_def]
  from p1 re show ?thesis
  proof (cases rule: pm_respawn_cases)
    case (failed msg q)
    with run' bal2 show ?thesis by (auto split: if_splits intro!: balanced_silent)
  next
    case (spawned i pid inc q)
    let ?a3 = "case restart_marker reason (pm_find (ac_pm a2) k) code of
        None \<Rightarrow> a2 | Some msg \<Rightarrow> supervisor_line k msg a2"
    have bal3: "balanced S B W I ?a3"
      using bal2 by (auto intro: inv_intros split: option.split)
    have "map_of (pm_processes (ac_pm ?a3)) k = Some q"
      using spawned by (auto simp: a2_def split: option.split)
    then have "balanced S B W I (snd (setup_watcher os k ?a3))"
      using spawned by (intro balanced_setup_watcher [OF bal3]) auto
    with run' spawned show ?thesis by (simp add: Let_def)
  qed
qed

section \<open>The batch of a stop-all\<close>

text \<open>While a stop-all waits, every record is stopping for good, and then its name is awaited, or
  has been stopped and holds nothing.\<close>

definition settled :: "string list \<Rightarrow> string \<Rightarrow> managed_process \<Rightarrow> bool" where
  "settled rest k p \<longleftrightarrow>
     (case mp_life p of
        Stopping _ thn _ \<Rightarrow> thn = Park \<and> k \<in> set rest
      | Exited _ _ None _ \<Rightarrow> k \<notin> set rest
      | _ \<Rightarrow> False)"

definition batch_ok :: "actor \<Rightarrow> bool" where
  "batch_ok a \<longleftrightarrow>
     (case ac_stop_all a of
        None \<Rightarrow> True
      | Some b \<Rightarrow> sab_remaining b \<noteq> [] \<and>
          set (sab_remaining b) \<subseteq> set (hm_keys (pm_processes (ac_pm a))) \<and>
          (\<forall>(k, p) \<in> set (pm_processes (ac_pm a)). settled (sab_remaining b) k p))"

lemma settled_cases:
  assumes "settled rest k p"
  obtains (stopping) leader ws where "mp_life p = Stopping leader Park ws" and "k \<in> set rest"
    | (parked) code why timer where "mp_life p = Exited code why None timer" and "k \<notin> set rest"
  using assms by (cases "mp_life p") (auto simp: settled_def split: option.splits)

lemma balanced_finish_stop_all:
  assumes bal: "balanced S B W I a" and b: "ac_stop_all a = Some b"
    and all: "\<And>k p. (k, p) \<in> set (pm_processes (ac_pm a)) \<Longrightarrow> settled [] k p"
  shows "balanced S B W I (finish_stop_all a)"
proof -
  have "\<not> is_stopping (mp_life p) \<and> life_inc (mp_life p) = None \<and> life_waiters (mp_life p) = {#}"
    if "(k, p) \<in> set (pm_processes (ac_pm a))" for k p
    using all [OF that] by (cases rule: settled_cases) simp_all
  then have "pm_tasks (ac_pm a) = {#}" "pm_waiters (ac_pm a) = {#}" "pm_held (ac_pm a) = {#}"
    by (auto simp: pm_tasks_def pm_waiters_def pm_held_def tsum_eq_empty proc_tasks_def)
  moreover have "replies_of (map (\<lambda>r. Reply r v) rs) = mset rs"
    "tasks_of (map (\<lambda>r. Reply r v) rs) = {#}"
    "given_of (map (\<lambda>r. Reply r v) rs) = {#}" "started_of (map (\<lambda>r. Reply r v) rs) = {#}"
    "timers_of (map (\<lambda>r. Reply r v) rs) = {}" for v rs
    by (induction rs) simp_all
  ultimately show ?thesis
    using bal b by (auto simp: finish_stop_all_def balanced_def pm_clear_inv)
qed

section \<open>A finished teardown, unfolded\<close>

lemma finish_teardown_run:
  assumes e: "find_entry (ac_pm a) n = Some (n, p)" and g: "mp_generation p = g"
    and l: "mp_life p = Stopping leader thn ws"
    and run: "(case thn of
        Park \<Rightarrow> (actor_error ''restart superseded by stop'',
          on_pm (set_proc n (p\<lparr>mp_life := Exited code ManualStop None False\<rparr>)) a)
      | Respawn reason \<Rightarrow> respawn os n reason code
          (on_pm (set_proc n (p\<lparr>mp_life := Exited code ManualStop None False\<rparr>)) a)) = (resp, a2)"
    and a3: "a3 = emit (map (waiter_reply n resp) ws) a2"
  shows "finish_teardown os n g code a = publish_proxy_state
      (case ac_stop_all a3 of
         None \<Rightarrow> a3
       | Some batch \<Rightarrow>
           (let rest = removeAll n (sab_remaining batch);
                a = a3\<lparr>ac_stop_all := Some (batch\<lparr>sab_remaining := rest\<rparr>)\<rparr>
            in if rest = [] then finish_stop_all a else a))"
  unfolding finish_teardown_def e option.case prod.case
  using g run by (simp add: l a3 Let_def split: option.split)

end
