(* ===== verification/Actor_Invariant.thy ===== *)
theory Actor_Invariant
  imports Actor_Accounts
begin

text \<open>
  Every command of the actor keeps the books (\<open>balanced\<close>) and the batch of a running stop-all
  (\<open>batch_ok\<close>), answers its client exactly once, now or by joining the waiters of a stopping
  record, and reaches no \<open>unreachable!()\<close>. \<open>handle_command_good\<close> and \<open>tick_good\<close> collect the
  handlers.
\<close>

definition good :: "(string \<times> nat) set \<Rightarrow> (string \<times> nat) multiset \<Rightarrow> reply_id multiset
    \<Rightarrow> incarnation multiset \<Rightarrow> actor \<Rightarrow> bool" where
  "good S B W I a \<longleftrightarrow> balanced S B W I a \<and> batch_ok a"

lemma goodI [intro]: "balanced S B W I a \<Longrightarrow> batch_ok a \<Longrightarrow> good S B W I a"
  by (simp add: good_def)

lemma good_balanced: "good S B W I a \<Longrightarrow> balanced S B W I a"
  by (simp add: good_def)

lemma good_inv: "good S B W I a \<Longrightarrow> pm_inv (ac_pm a)"
  by (auto simp: good_def intro: balanced_inv)

section \<open>The batch under changes of one record\<close>

lemma batch_ok_idle [simp]: "ac_stop_all a = None \<Longrightarrow> batch_ok a"
  by (simp add: batch_ok_def)

lemma batch_ok_cong:
  assumes "ac_stop_all a' = ac_stop_all a" and "pm_processes (ac_pm a') = pm_processes (ac_pm a)"
  shows "batch_ok a' = batch_ok a"
  using assms by (simp add: batch_ok_def split: option.split)

lemma batch_ok_emit [simp]: "batch_ok (emit es a) = batch_ok a"
  by (rule batch_ok_cong) simp_all

lemma batch_ok_publish [simp]: "batch_ok (publish_proxy_state a) = batch_ok a"
  by (rule batch_ok_cong) simp_all

lemma batch_ok_entry:
  assumes "batch_ok a" and "ac_stop_all a = Some b" and "map_of (pm_processes (ac_pm a)) k = Some p"
  shows "settled (sab_remaining b) k p"
  using assms by (auto simp: batch_ok_def dest!: map_of_SomeD)

lemma batch_ok_set_proc:
  assumes ok: "batch_ok a" and p: "map_of (pm_processes (ac_pm a)) k = Some p"
    and inv: "pm_inv (ac_pm a)" and q: "\<And>rest. settled rest k p \<Longrightarrow> settled rest k q"
  shows "batch_ok (on_pm (set_proc k q) a)"
proof (cases "ac_stop_all a")
  case None
  then show ?thesis by simp
next
  case (Some b)
  have "distinct (hm_keys (pm_processes (ac_pm a)))" using inv by (simp add: pm_inv_def)
  moreover have "k \<in> fst ` set (pm_processes (ac_pm a))" using p by (force dest: map_of_SomeD)
  moreover have "settled (sab_remaining b) k p" by (rule batch_ok_entry [OF ok Some p])
  ultimately show ?thesis
    using ok Some q by (auto simp: batch_ok_def set_update_distinct)
qed

lemma refresh_frame [simp]:
  "ac_stop_all (refresh os a) = ac_stop_all a" "ac_outbox (refresh os a) = ac_outbox a"
  "ac_panicked (refresh os a) = ac_panicked a" "ac_proxy_state (refresh os a) = ac_proxy_state a"
  "ac_proxy_port (refresh os a) = ac_proxy_port a"
  "ac_pm (refresh os a) = snd (refresh_exit_states os (ac_pm a))"
  by (simp_all add: refresh_def)

lemma settled_refresh [simp]:
  "settled rest k (p\<lparr>mp_life := refresh_life w (mp_life p)\<rparr>) = settled rest k p"
  by (cases w "mp_life p" rule: refresh_life_cases) (auto simp: settled_def)

lemma batch_ok_refresh [simp]: "batch_ok (refresh os a) = batch_ok a"
  by (simp add: batch_ok_def) (simp add: refresh_exit_states_def split_def image_comp split: option.split)

lemma good_refresh: "good S B W I a \<Longrightarrow> good S B W I (refresh os a)"
  by (simp add: good_def balanced_refresh)

lemma good_reply: "good S B W I a \<Longrightarrow> good S B (add_mset r W) I (emit [Reply r v] a)"
  by (simp add: good_def balanced_reply)

lemma good_publish: "good S B W I a \<Longrightarrow> good S B W I (publish_proxy_state a)"
  by (simp add: good_def balanced_publish)

text \<open>A record that is neither stopping nor empty: no stop-all is waiting.\<close>

lemma no_batch:
  assumes "batch_ok a" and "map_of (pm_processes (ac_pm a)) k = Some p"
    and "\<not> is_stopping (mp_life p)" and "life_inc (mp_life p) \<noteq> None"
  shows "ac_stop_all a = None"
  using batch_ok_entry [OF assms(1) _ assms(2)] assms(3,4)
  by (cases "ac_stop_all a") (auto elim: settled_cases)

section \<open>\<open>Spawn\<close>\<close>

text \<open>After a spawn: the restart policy is stored, and the watcher, if one was asked for, is set up.\<close>

definition configured ::
  "os_env \<Rightarrow> string \<Rightarrow> restart_policy option \<Rightarrow> watch_config option \<Rightarrow> actor \<Rightarrow> actor" where
  "configured os name restart watch a =
     (let a = on_pm (find_mut name (attach_configs restart watch)) a
      in if watch = None then a
         else (case setup_watcher os name a of
                 (None, a) \<Rightarrow> a
               | (Some e, a) \<Rightarrow> supervisor_line name (''[agent-procs] Watch setup failed: '' @ e) a))"

lemma balanced_configured:
  assumes bal: "balanced S B W I a" and idle: "ac_stop_all a = None"
    and p: "map_of (pm_processes (ac_pm a)) name = Some p"
    and new: "mp_life p = Running inc" "mp_restart_count p = 0" "mp_watch_handle p = None"
  shows "balanced S B W I (configured os name restart watch a)"
    "ac_stop_all (configured os name restart watch a) = None"
proof -
  let ?p = "attach_configs restart watch p"
  let ?b = "on_pm (set_proc name ?p) a"
  have b: "on_pm (find_mut name (attach_configs restart watch)) a = ?b"
    by (rule find_mut_on_pm [OF p])
  have "proc_ok name p" using pm_inv_entry(1) [OF balanced_inv [OF bal] p] .
  with new have "proc_ok name ?p"
    by (auto simp: proc_ok_defs attach_configs_def split: option.splits)
  then have bal': "balanced S B W I ?b"
    using p by (intro balanced_set_proc [OF bal p]) (simp_all add: attach_configs_def)
  have "map_of (pm_processes (ac_pm ?b)) name = Some ?p" by simp
  from balanced_setup_watcher [OF bal' this] new
  have bal'': "balanced S B W I (snd (setup_watcher os name ?b))" by (simp add: attach_configs_def)
  have "balanced S B W I (configured os name restart watch a) \<and>
      ac_stop_all (configured os name restart watch a) = None"
    using bal' bal'' idle setup_watcher_frame(1) [of os name ?b]
    by (cases "setup_watcher os name ?b")
      (auto simp: configured_def b Let_def intro: inv_intros split: option.split)
  then show "balanced S B W I (configured os name restart watch a)"
    "ac_stop_all (configured os name restart watch a) = None" by blast+
qed

lemma handle_spawn_configured:
  assumes "ac_stop_all a = None"
    and "spawn_process os command nm cwd env port (ac_pm a) = (RespRunOk name i pid prt url, child, pm)"
  shows "\<exists>v. handle_spawn os command nm cwd env port restart watch r a = emit [Reply r v]
    (publish_proxy_state (configured os name restart watch (start_child child (a\<lparr>ac_pm := pm\<rparr>))))"
  using assms
  by (cases watch) (simp_all add: handle_spawn_def configured_def reply_def Let_def, (rule exI, rule refl)+)

lemma good_spawn:
  assumes "good S B W I a"
  shows "good S B (add_mset r W) I (handle_spawn os command nm cwd env port restart watch r a)"
proof (cases "ac_stop_all a")
  case (Some b)
  with assms show ?thesis by (simp add: handle_spawn_def reply_def good_reply)
next
  case None
  obtain resp child pm where run: "spawn_process os command nm cwd env port (ac_pm a) = (resp, child, pm)"
    using prod_cases3 by blast
  have inv: "pm_inv (ac_pm a)" using assms by (rule good_inv)
  let ?a = "start_child child (a\<lparr>ac_pm := pm\<rparr>)"
  have "starts (ac_pm a) child pm" by (rule spawn_process_starts [OF inv run])
  from balanced_starts [OF good_balanced [OF assms] this, of "[]"]
  have bal: "balanced S B W I ?a" by (simp add: emit_def)
  from inv run show ?thesis
  proof (cases rule: spawn_process_cases)
    case (failed code msg)
    with None bal run show ?thesis
      by (auto simp: handle_spawn_def reply_def intro!: inv_intros)
  next
    case (spawned name i pid prt inc p)
    let ?c = "configured os name restart watch ?a"
    have "map_of (pm_processes (ac_pm ?a)) name = Some p" using spawned by simp
    from balanced_configured [OF bal _ this] spawned None
    have "balanced S B W I ?c" "ac_stop_all ?c = None" by simp_all
    then have ok: "good S B (add_mset r W) I (emit [Reply r v] (publish_proxy_state ?c))" for v
      by (intro good_reply good_publish) auto
    from handle_spawn_configured [OF None run [unfolded spawned(1)]] ok show ?thesis by metis
  qed
qed

section \<open>\<open>Stop\<close> and \<open>Restart\<close>\<close>

lemma settled_join:
  "settled rest k p \<Longrightarrow> mp_life p = Stopping leader t ws \<Longrightarrow>
     settled rest k (p\<lparr>mp_life := Stopping leader Park ws'\<rparr>)"
  by (simp add: settled_def)

lemma good_start_teardown:
  assumes good: "good S B W I a" and idle: "ac_stop_all a = None"
    and p: "map_of (pm_processes (ac_pm a)) k = Some p" and live: "\<not> is_stopping (mp_life p)"
  shows "good S B (W + image_mset waiter_id (opt_mset w)) I (start_teardown k thn w a)"
proof -
  have "ac_stop_all (start_teardown k thn w a) = None"
    using idle by (auto simp: start_teardown_def split: option.split)
  with balanced_start_teardown [OF good_balanced [OF good] p live] show ?thesis by auto
qed

lemma good_drop_watcher:
  assumes good: "good S B W I a" and p: "map_of (pm_processes (ac_pm a)) k = Some p"
  shows "good S B W I (on_pm (set_proc k (p\<lparr>mp_watch_handle := None\<rparr>)) a)"
proof
  have "proc_ok k p" using pm_inv_entry(1) [OF good_inv [OF good] p] .
  then have "proc_ok k (p\<lparr>mp_watch_handle := None\<rparr>)"
    by (auto simp: proc_ok_defs split: option.splits)
  then show "balanced S B W I (on_pm (set_proc k (p\<lparr>mp_watch_handle := None\<rparr>)) a)"
    by (intro balanced_set_proc [OF good_balanced [OF good] p]) simp_all
  show "batch_ok (on_pm (set_proc k (p\<lparr>mp_watch_handle := None\<rparr>)) a)"
    using good good_inv [OF good] p
    by (intro batch_ok_set_proc) (auto simp: good_def settled_def)
qed

text \<open>What \<open>handle_stop\<close> does with the record it finds, as one case rule for its proofs.\<close>

lemma stop_cases:
  obtains (stopping) leader thn ws where "l = Stopping leader thn ws"
    | (empty) code why timer where "l = Exited code why None timer"
    | (live) "\<not> is_stopping l" "life_inc l \<noteq> None"
  by (cases l) auto

lemma good_stop:
  assumes "good S B W I a"
  shows "good S B (add_mset r W) I (handle_stop os target r a)"
proof -
  let ?a = "refresh os a"
  have good: "good S B W I ?a" using assms by (rule good_refresh)
  show ?thesis
  proof (cases "find_entry (ac_pm ?a) target")
    case None
    with good_reply [OF good] show ?thesis by (simp add: handle_stop_def reply_def Let_def)
  next
    case (Some e)
    obtain k p where e: "e = (k, p)" by force
    note found = find_entry_inv [OF good_inv [OF good] Some [unfolded e]]
    show ?thesis
    proof (cases "mp_life p" rule: stop_cases)
      case (stopping leader thn ws)
      have "balanced S B (W + mset (map waiter_id [WaitStop r])) I
          (on_pm (set_proc k (p\<lparr>mp_life := Stopping leader Park (ws @ [WaitStop r])\<rparr>)) ?a)"
        by (rule balanced_join [OF good_balanced [OF good] found(1) stopping])
      moreover have "batch_ok (on_pm (set_proc k (p\<lparr>mp_life := Stopping leader Park (ws @ [WaitStop r])\<rparr>)) ?a)"
        using good good_inv [OF good] found stopping
        by (intro batch_ok_set_proc [OF _ found(1)]) (auto simp: good_def intro: settled_join)
      moreover have "handle_stop os target r a
          = on_pm (set_proc k (p\<lparr>mp_life := Stopping leader Park (ws @ [WaitStop r])\<rparr>)) ?a"
        unfolding handle_stop_def Let_def Some e by (simp add: stopping)
      ultimately show ?thesis by (simp only: good_def) simp
    next
      case (empty code why timer)
      have "handle_stop os target r a
          = emit [Reply r (RResponse (stopped (mp_name p)))]
              (on_pm (set_proc k (p\<lparr>mp_watch_handle := None\<rparr>)) ?a)"
        unfolding handle_stop_def Let_def Some e by (simp add: empty reply_def)
      with good_reply [OF good_drop_watcher [OF good found(1)]] show ?thesis by simp
    next
      case live
      have "handle_stop os target r a = start_teardown k Park (Some (WaitStop r)) ?a"
        unfolding handle_stop_def Let_def Some e
        using live found(2) by (cases "mp_life p") (auto split: option.split)
      moreover have "ac_stop_all ?a = None"
        using no_batch [OF _ found(1) live] good by (simp add: good_def)
      ultimately show ?thesis
        using good_start_teardown [OF good _ found(1) live(1), of "Some (WaitStop r)" Park] by simp
    qed
  qed
qed

lemma good_restart:
  assumes "good S B W I a"
  shows "good S B (add_mset r W) I (handle_restart os target r a)"
proof (cases "ac_stop_all a")
  case (Some b)
  with good_reply [OF assms] show ?thesis by (simp add: handle_restart_def reply_def)
next
  case None
  let ?a = "refresh os a"
  have good: "good S B W I ?a" using assms by (rule good_refresh)
  have idle: "ac_stop_all ?a = None" using None by simp
  show ?thesis
  proof (cases "find_entry (ac_pm ?a) target")
    case None': None
    with good_reply [OF good] None show ?thesis by (simp add: handle_restart_def reply_def Let_def)
  next
    case (Some e)
    obtain k p where e: "e = (k, p)" by force
    note found = find_entry_inv [OF good_inv [OF good] Some [unfolded e]]
    show ?thesis
    proof (cases "is_stopping (mp_life p)")
      case True
      then obtain leader thn ws where l: "mp_life p = Stopping leader thn ws"
        by (cases "mp_life p") auto
      let ?b = "on_pm (set_proc k (p\<lparr>mp_life :=
        Stopping leader (Respawn ManualRestart) (ws @ [WaitRestart r])\<rparr>)) ?a"
      have "balanced S B (W + mset (map waiter_id [WaitRestart r])) I ?b"
        by (rule balanced_join [OF good_balanced [OF good] found(1) l])
      moreover have "handle_restart os target r a = ?b"
        unfolding handle_restart_def Let_def Some e using None by (simp add: l)
      ultimately show ?thesis using idle by (auto simp: good_def)
    next
      case False
      have "handle_restart os target r a
          = start_teardown k (Respawn ManualRestart) (Some (WaitRestart r)) ?a"
        unfolding handle_restart_def Let_def Some e
        using None False found(2) by (cases "mp_life p") auto
      then show ?thesis
        using good_start_teardown [OF good idle found(1) False, of "Some (WaitRestart r)"] by simp
    qed
  qed
qed

section \<open>A finished teardown\<close>

lemma waiter_replies [simp]:
  "replies_of (map (waiter_reply n resp) ws) = mset (map waiter_id ws)"
  "tasks_of (map (waiter_reply n resp) ws) = {#}" "given_of (map (waiter_reply n resp) ws) = {#}"
  "started_of (map (waiter_reply n resp) ws) = {#}" "timers_of (map (waiter_reply n resp) ws) = {}"
proof -
  have *: "waiter_reply n resp w = Reply (waiter_id w)
      (RResponse (case w of WaitStop _ \<Rightarrow> stopped n | WaitRestart _ \<Rightarrow> resp))" for w
    by (cases w) simp_all
  show "replies_of (map (waiter_reply n resp) ws) = mset (map waiter_id ws)"
    "tasks_of (map (waiter_reply n resp) ws) = {#}" "given_of (map (waiter_reply n resp) ws) = {#}"
    "started_of (map (waiter_reply n resp) ws) = {#}" "timers_of (map (waiter_reply n resp) ws) = {}"
    by (induction ws) (simp_all add: *)
qed

text \<open>The record is parked: its task leaves the books and its waiters are owed their replies.\<close>

lemma balanced_parked:
  assumes bal: "balanced S (add_mset (k, g) B) W I a"
    and p: "map_of (pm_processes (ac_pm a)) k = Some p" and g: "mp_generation p = g"
    and l: "mp_life p = Stopping leader thn ws"
  obtains V where "W = V + mset (map waiter_id ws)"
    and "balanced S B V I (on_pm (set_proc k (p\<lparr>mp_life := Exited code ManualStop None False\<rparr>)) a)"
proof -
  let ?q = "p\<lparr>mp_life := Exited code ManualStop None False\<rparr>"
  have inv: "pm_inv (ac_pm a)" using bal by (rule balanced_inv)
  have "proc_ok k p" using pm_inv_entry(1) [OF inv p] .
  then have q: "proc_ok k ?q"
    using l by (auto simp: proc_ok_defs split: option.splits)
  have inv': "pm_inv (set_proc k ?q (ac_pm a))"
    by (rule pm_inv_set_proc [OF inv p q]) simp
  have sound: "sound_source (set_proc k ?q (ac_pm a)) s" if "sound_source (ac_pm a) s" for s
    using that p by (intro sound_source_set_proc [OF inv]) auto
  have acc: "pm_tasks (ac_pm a) = pm_tasks (set_proc k ?q (ac_pm a)) + {#(k, g)#}"
    "pm_waiters (ac_pm a) = pm_waiters (set_proc k ?q (ac_pm a)) + mset (map waiter_id ws)"
    "pm_held (set_proc k ?q (ac_pm a)) = pm_held (ac_pm a)"
    using accounts_set_proc [OF p, of ?q] l g by (auto simp: proc_tasks_def)
  let ?V = "pm_waiters (set_proc k ?q (ac_pm a)) + batch_waiters (ac_stop_all a)
    + replies_of (ac_outbox a)"
  show thesis
    by (rule that [of ?V]) (use bal inv' sound acc in \<open>auto simp: balanced_def\<close>)
qed

lemma finish_stop_all_idle: "ac_stop_all (finish_stop_all a) = None"
  by (simp add: finish_stop_all_def split: option.split)

lemma settled_parked:
  assumes dist: "distinct (hm_keys (pm_processes pm))" and "(k, p') \<in> set (pm_processes (set_proc name (p\<lparr>mp_life := Exited code ManualStop None False\<rparr>) pm))"
    and ok: "\<And>k p. (k, p) \<in> set (pm_processes pm) \<Longrightarrow> settled rest k p"
  shows "settled (removeAll name rest) k p'"
proof (cases "k = name")
  case True
  with assms(2) have "p' = p\<lparr>mp_life := Exited code ManualStop None False\<rparr>"
    by (auto simp: set_update_distinct [OF dist])
  with True show ?thesis by (simp add: settled_def)
next
  case False
  with assms(2) have "(k, p') \<in> set (pm_processes pm)" by (auto simp: set_update_distinct [OF dist])
  from ok [OF this] False show ?thesis by (auto simp: settled_def split: life.splits option.splits)
qed

text \<open>A stop-all that waits for \<open>name\<close> goes on, or finishes, when that record is parked.\<close>

lemma good_batch_progress:
  assumes ok: "batch_ok a" and b: "ac_stop_all a = Some b" and inv: "pm_inv (ac_pm a)"
    and p: "map_of (pm_processes (ac_pm a)) name = Some p"
    and bal: "balanced S B W I a3" and batch: "ac_stop_all a3 = Some b"
    and table: "ac_pm a3 = set_proc name (p\<lparr>mp_life := Exited code ManualStop None False\<rparr>) (ac_pm a)"
    and a4: "a4 = a3\<lparr>ac_stop_all := Some (b\<lparr>sab_remaining := removeAll name (sab_remaining b)\<rparr>)\<rparr>"
  shows "good S B W I (if removeAll name (sab_remaining b) = [] then finish_stop_all a4 else a4)"
proof -
  let ?rest = "removeAll name (sab_remaining b)"
  have bal4: "balanced S B W I a4" using bal batch by (simp add: balanced_def a4)
  have dist: "distinct (hm_keys (pm_processes (ac_pm a)))" using inv by (simp add: pm_inv_def)
  have settled4: "settled ?rest k p'" if "(k, p') \<in> set (pm_processes (ac_pm a4))" for k p'
  proof (rule settled_parked [OF dist, where name = name and p = p and code = code])
    show "(k, p') \<in> set (pm_processes (set_proc name (p\<lparr>mp_life := Exited code ManualStop None False\<rparr>) (ac_pm a)))"
      using that by (simp add: a4 table)
  qed (use ok b in \<open>auto simp: batch_ok_def\<close>)
  show ?thesis
  proof (cases "?rest = []")
    case True
    have "balanced S B W I (finish_stop_all a4)"
      by (rule balanced_finish_stop_all [OF bal4]) (use settled4 True in \<open>auto simp: a4\<close>)
    with True show ?thesis by (simp add: goodI finish_stop_all_idle)
  next
    case False
    have "name \<in> fst ` set (pm_processes (ac_pm a))" using p by (force dest: map_of_SomeD)
    then have "hm_keys (pm_processes (ac_pm a4)) = hm_keys (pm_processes (ac_pm a))"
      by (simp add: a4 table)
    moreover have "set ?rest \<subseteq> set (hm_keys (pm_processes (ac_pm a)))"
      using ok b by (auto simp: batch_ok_def)
    ultimately have "set ?rest \<subseteq> set (hm_keys (pm_processes (ac_pm a4)))" by simp
    with False settled4 have "batch_ok a4" by (simp add: batch_ok_def a4) blast
    with bal4 False show ?thesis by auto
  qed
qed

lemma good_finish_teardown:
  assumes good: "good S (add_mset (name, g) B) W I a"
  shows "good S B W I (finish_teardown os name g code a)"
proof -
  have bal: "balanced S (add_mset (name, g) B) W I a" using good by (rule good_balanced)
  then have "(name, g) \<in># pm_tasks (ac_pm a)" by (simp add: balanced_def)
  then obtain p leader thn ws where "(name, p) \<in> set (pm_processes (ac_pm a))"
    and g: "mp_generation p = g" and l: "mp_life p = Stopping leader thn ws"
    by (rule pm_tasks_entry)
  then have p: "map_of (pm_processes (ac_pm a)) name = Some p"
    by (intro pm_inv_map_of balanced_inv [OF bal])
  let ?q = "p\<lparr>mp_life := Exited code ManualStop None False\<rparr>"
  define a1 where "a1 = on_pm (set_proc name ?q) a"
  obtain V where W: "W = V + mset (map waiter_id ws)" and bal1: "balanced S B V I a1"
    by (rule balanced_parked [OF bal p g l]) (unfold a1_def)
  obtain restart_reply a2 where run: "(case thn of
      Park \<Rightarrow> (actor_error ''restart superseded by stop'', a1)
    | Respawn reason \<Rightarrow> respawn os name reason code a1) = (restart_reply, a2)" by force
  have look1: "map_of (pm_processes (ac_pm a1)) name = Some ?q" by (simp add: a1_def)
  have bal2: "balanced S B V I a2"
  proof (cases thn)
    case Park
    with run bal1 show ?thesis by simp
  next
    case (Respawn reason)
    with run have "respawn os name reason code a1 = (restart_reply, a2)" by simp
    then show ?thesis by (rule balanced_respawn [OF bal1 look1, rotated]) simp
  qed
  define a3 where "a3 = emit (map (waiter_reply name restart_reply) ws) a2"
  have bal3: "balanced S B W I a3"
    using bal2 by (auto simp: balanced_def a3_def W)
  have fin: "finish_teardown os name g code a = publish_proxy_state
      (case ac_stop_all a3 of
         None \<Rightarrow> a3
       | Some batch \<Rightarrow>
           (let rest = removeAll name (sab_remaining batch);
                a = a3\<lparr>ac_stop_all := Some (batch\<lparr>sab_remaining := rest\<rparr>)\<rparr>
            in if rest = [] then finish_stop_all a else a))"
    by (rule finish_teardown_run [OF find_entry_key [OF p] g l run [unfolded a1_def] a3_def])
  show ?thesis
  proof (cases "ac_stop_all a")
    case None
    then have "ac_stop_all a3 = None"
      using run respawn_frame(1) by (auto simp: a3_def a1_def split: after_stop.splits)
    with fin bal3 show ?thesis by (auto intro!: good_publish goodI)
  next
    case (Some b)
    have ok: "batch_ok a" using good by (simp add: good_def)
    have "settled (sab_remaining b) name p" by (rule batch_ok_entry [OF ok Some p])
    then have park: "thn = Park" using l by (simp add: settled_def)
    have table: "ac_pm a3 = set_proc name ?q (ac_pm a)" and batch: "ac_stop_all a3 = Some b"
      using run park Some by (auto simp: a3_def a1_def)
    from good_batch_progress [OF ok Some balanced_inv [OF bal] p bal3 batch table refl] show ?thesis
      unfolding fin batch option.case Let_def by (rule good_publish)
  qed
qed

section \<open>\<open>StopAll\<close>\<close>

text \<open>One name of the loop: its record is settled afterwards, the others are as they were.\<close>

lemma settled_cong:
  "(k \<in> set rest' \<longleftrightarrow> k \<in> set rest) \<Longrightarrow> settled rest' k p = settled rest k p"
  by (simp add: settled_def split: life.split option.split)

definition stop_all_state :: "(string \<times> nat) set \<Rightarrow> (string \<times> nat) multiset \<Rightarrow> reply_id multiset
    \<Rightarrow> incarnation multiset \<Rightarrow> string list \<Rightarrow> string list \<Rightarrow> actor \<times> string list \<Rightarrow> bool" where
  "stop_all_state S B W I ns todo s \<longleftrightarrow>
     balanced S B W I (fst s) \<and> ac_stop_all (fst s) = None \<and>
     hm_keys (pm_processes (ac_pm (fst s))) = ns \<and> distinct todo \<and> set todo \<subseteq> set ns \<and>
     set (snd s) \<subseteq> set ns \<and> set todo \<inter> set (snd s) = {} \<and>
     (\<forall>(k, p) \<in> set (pm_processes (ac_pm (fst s))). k \<notin> set todo \<longrightarrow> settled (snd s) k p)"

lemma stop_all_state_set:
  assumes st: "stop_all_state S B W I ns (k # todo) (a, rest)"
    and table: "pm_processes (ac_pm a') = hm_insert k q (pm_processes (ac_pm a))"
    and bal: "balanced S B W I a'" and idle: "ac_stop_all a' = None"
    and rest': "rest' = rest \<or> rest' = List.insert k rest" and q: "settled rest' k q"
  shows "stop_all_state S B W I ns todo (a', rest')"
proof -
  have dist: "distinct (hm_keys (pm_processes (ac_pm a)))"
    using st by (auto simp: stop_all_state_def dest!: balanced_inv simp: pm_inv_def)
  have "settled rest' k' p" if "(k', p) \<in> set (pm_processes (ac_pm a'))" "k' \<notin> set todo" for k' p
  proof (cases "k' = k")
    case True
    with that q show ?thesis by (auto simp: table set_update_distinct [OF dist])
  next
    case False
    with that have "(k', p) \<in> set (pm_processes (ac_pm a))"
      by (auto simp: table set_update_distinct [OF dist])
    with st that False have "settled rest k' p" by (auto simp: stop_all_state_def)
    moreover have "k' \<in> set rest' \<longleftrightarrow> k' \<in> set rest" using rest' False by auto
    ultimately show ?thesis using settled_cong by blast
  qed
  moreover have "k \<in> fst ` set (pm_processes (ac_pm a))"
    using st by (auto simp: stop_all_state_def)
  ultimately show ?thesis
    using st rest' bal idle by (auto simp: stop_all_state_def table)
qed

lemma stop_all_one_state:
  assumes st: "stop_all_state S B W I ns (k # todo) s"
  shows "stop_all_state S B W I ns todo (stop_all_one k s)"
proof -
  obtain a rest where s: "s = (a, rest)" by force
  note st = st [unfolded s]
  have bal: "balanced S B W I a" and idle: "ac_stop_all a = None" and notin: "k \<notin> set rest"
    and "k \<in> set (hm_keys (pm_processes (ac_pm a)))"
    using st by (auto simp: stop_all_state_def)
  then obtain p where p: "map_of (pm_processes (ac_pm a)) k = Some p"
    by (metis map_of_eq_None_iff not_Some_eq set_map)
  note step = stop_all_state_set [OF st]
  show ?thesis
  proof (cases "mp_life p" rule: stop_cases)
    case (stopping leader thn ws)
    have "balanced S B (W + mset (map waiter_id [])) I
        (on_pm (set_proc k (p\<lparr>mp_life := Stopping leader Park (ws @ [])\<rparr>)) a)"
      by (rule balanced_join [OF bal p stopping])
    then have "stop_all_state S B W I ns todo
        (on_pm (set_proc k (p\<lparr>mp_life := Stopping leader Park ws\<rparr>)) a, List.insert k rest)"
      using idle by (intro step [where q = "p\<lparr>mp_life := Stopping leader Park ws\<rparr>"])
        (simp_all add: settled_def)
    then show ?thesis by (simp add: s stop_all_one_def p stopping)
  next
    case (empty code why timer)
    then have "stop_all_state S B W I ns todo (a, rest)"
      using bal idle notin by (intro step [where q = p]) (simp_all add: settled_def update_triv p)
    then show ?thesis by (simp add: s stop_all_one_def p empty)
  next
    case live
    obtain inc leader where t: "teardown_of (mp_life p) = Some (inc, leader)"
      using teardown_of_live [OF live(1)] by blast
    have "balanced S B W I (start_teardown k Park None a)"
      using balanced_start_teardown [OF bal p live(1), of None] by simp
    then have "stop_all_state S B W I ns todo (start_teardown k Park None a, List.insert k rest)"
      using idle by (intro step [where q = "p\<lparr>mp_watch_handle := None, mp_life := Stopping leader Park []\<rparr>"])
        (simp_all add: start_teardown_hands_over [OF p t] settled_def)
    moreover have "stop_all_one k (a, rest) = (start_teardown k Park None a, List.insert k rest)"
      using live by (cases "mp_life p") (auto simp: stop_all_one_def p split: option.split)
    ultimately show ?thesis by (simp add: s)
  qed
qed

lemma stop_all_fold:
  "stop_all_state S B W I ns todo s \<Longrightarrow> stop_all_state S B W I ns [] (fold stop_all_one todo s)"
proof (induction todo arbitrary: s)
  case Nil
  then show ?case by simp
next
  case (Cons k todo)
  from Cons.IH [OF stop_all_one_state [OF Cons.prems]] show ?case by simp
qed

lemma good_stop_all:
  assumes good: "good S B W I a"
  shows "good S B (add_mset r W) I (handle_stop_all os r a)"
proof (cases "ac_stop_all a")
  case (Some b)
  then show ?thesis
    using good by (auto simp: good_def balanced_def batch_ok_def handle_stop_all_def)
next
  case None
  let ?a = "refresh os a"
  have bal: "balanced S B W I ?a" using good by (intro balanced_refresh good_balanced)
  obtain a1 rest where loop: "fold stop_all_one (pm_names (ac_pm ?a)) (?a, []) = (a1, rest)" by force
  have "stop_all_state S B W I (pm_names (ac_pm ?a)) (pm_names (ac_pm ?a)) (?a, [])"
    using bal None balanced_inv [OF bal]
    by (auto simp: stop_all_state_def pm_names_def pm_inv_def rev_image_eqI simp del: refresh_keys)
  from stop_all_fold [OF this] have
    st: "stop_all_state S B W I (pm_names (ac_pm ?a)) [] (a1, rest)" by (simp only: loop)
  define a2 where "a2 = a1\<lparr>ac_stop_all := Some \<lparr>sab_remaining = rest, sab_replies = [r]\<rparr>\<rparr>"
  have bal2: "balanced S B (add_mset r W) I a2"
    using st by (auto simp: stop_all_state_def balanced_def a2_def)
  have handler: "handle_stop_all os r a
      = publish_proxy_state (if rest = [] then finish_stop_all a2 else a2)"
    unfolding handle_stop_all_def None option.case Let_def loop prod.case a2_def ..
  show ?thesis
  proof (cases "rest = []")
    case True
    have "balanced S B (add_mset r W) I (finish_stop_all a2)"
      by (rule balanced_finish_stop_all [OF bal2])
        (use st True in \<open>auto simp: stop_all_state_def a2_def\<close>)
    with True handler show ?thesis
      by (auto intro!: good_publish goodI simp: finish_stop_all_idle)
  next
    case False
    have "batch_ok a2"
      using st False by (auto simp: stop_all_state_def batch_ok_def a2_def)
    with bal2 False handler show ?thesis by (auto intro!: good_publish goodI)
  qed
qed

end
