(* ===== verification/Actor_Commands.thy ===== *)
theory Actor_Commands
  imports Actor_Invariant
begin

text \<open>
  The rest of the handlers against the actor's invariant: the queries, the delayed restarts and the
  periodic check, and the two lemmas the daemon's transition system rests on,
  \<open>handle_command_good\<close> and \<open>tick_good\<close>.
\<close>

section \<open>Queries\<close>

lemma good_build_status:
  assumes "good S B W I a"
  shows "good S B W I (snd (build_status os a))"
  using good_refresh [OF assms, of os] by (auto simp: build_status_def Let_def intro: good_publish)

lemma good_status: "good S B W I a \<Longrightarrow> good S B (add_mset r W) I (handle_status os r a)"
  using good_build_status [of S B W I a os]
  by (cases "build_status os a") (auto simp: handle_status_def reply_def intro: good_reply)

lemma good_is_process_exited:
  assumes "good S B W I a"
  shows "good S B (add_mset r W) I (handle_is_process_exited os target r a)"
proof -
  have "a\<lparr>ac_pm := snd (is_process_exited os target (ac_pm a))\<rparr> = refresh os a"
    by (simp add: is_process_exited_def refresh_def on_pm_def Let_def)
  with good_refresh [OF assms, of os] show ?thesis
    by (cases "is_process_exited os target (ac_pm a)")
      (auto simp: handle_is_process_exited_def intro: good_reply good_publish)
qed

lemma batch_ok_enable [simp]: "batch_ok (on_pm pm_enable_proxy (a\<lparr>ac_proxy_port := pp\<rparr>)) = batch_ok a"
  by (rule batch_ok_cong) (simp_all add: pm_enable_proxy_def)

lemma good_enable_proxy:
  assumes "good S B W I a"
  shows "good S B (add_mset r W) I (handle_enable_proxy port r a)"
proof (cases "ac_proxy_port a")
  case None
  let ?a = "on_pm pm_enable_proxy (a\<lparr>ac_proxy_port := Some port\<rparr>)"
  have "balanced S B W I ?a"
    using good_balanced [OF assms] pm_enable_proxy_starts [OF good_inv [OF assms]]
    by (intro balanced_starts_None balanced_proxy_port) simp_all
  moreover have "batch_ok ?a" using assms by (simp add: good_def)
  ultimately have "good S B W I ?a" by auto
  with None show ?thesis
    by (auto simp: handle_enable_proxy_def intro: good_reply good_publish)
qed (use assms in \<open>simp add: handle_enable_proxy_def good_reply\<close>)

section \<open>Delayed restarts\<close>

lemma good_source:
  assumes "good S B W I a" and "(name, g) \<in> S"
    and "map_of (pm_processes (ac_pm a)) k = Some p" and "mp_generation p = g"
  shows "k = name"
proof -
  have "sound_source (ac_pm a) (name, g)"
    using assms(1,2) by (auto simp: good_def balanced_def)
  with assms(3,4) show ?thesis by (auto simp: sound_source_def dest: map_of_SomeD)
qed

lemma set_proc_twice [simp]: "set_proc k q (set_proc k q' pm) = set_proc k q pm"
  by (simp add: set_proc_def)

lemma on_pm_set_proc_twice [simp]:
  "on_pm (set_proc k q) (on_pm (set_proc k q') a) = on_pm (set_proc k q) a"
  by (simp add: on_pm_def)

lemma word_Suc_le:
  fixes c m :: "'a::len word"
  shows "c < m \<Longrightarrow> c + 1 \<le> m"
  by (rule inc_le)

text \<open>An armed timer leaves room for one more restart, so the count stays within the limit.\<close>

lemma proc_ok_auto_restart:
  assumes "proc_ok k p" and "mp_life p = Exited code Natural inc True"
  shows "proc_ok k (p\<lparr>mp_restart_count := mp_restart_count p + 1, mp_watch_handle := None,
    mp_life := Stopping (Some code) thn ws\<rparr>)"
  using assms by (auto simp: proc_ok_defs word_Suc_le split: option.splits)

lemma good_auto_restart:
  assumes good: "good S B W I a" and src: "(name, g) \<in> S"
  shows "good S B W I (handle_auto_restart name g a)"
proof (cases "ac_stop_all a = None \<and> (\<exists>k p code inc. find_entry (ac_pm a) name = Some (k, p) \<and>
    mp_life p = Exited code Natural inc True \<and> mp_generation p = g)")
  case False
  then have "handle_auto_restart name g a = a"
    by (auto simp: handle_auto_restart_def split: option.split life.split exit_why.split bool.split)
  with good show ?thesis by simp
next
  case True
  then obtain k p code inc where f: "find_entry (ac_pm a) name = Some (k, p)"
    and l: "mp_life p = Exited code Natural inc True" and g: "mp_generation p = g"
    and idle: "ac_stop_all a = None" by blast
  note found = find_entry_inv [OF good_inv [OF good] f]
  have k: "k = name" using good_source [OF good src found(1) g] .
  let ?p = "p\<lparr>mp_restart_count := mp_restart_count p + 1\<rparr>"
  let ?q = "?p\<lparr>mp_watch_handle := None, mp_life := Stopping (Some code) (Respawn Auto) []\<rparr>"
  let ?b = "emit [Teardown name g inc (Some code)] (on_pm (set_proc name ?q) a)"
  have "handle_auto_restart name g a = ?b"
    using f l g idle k
    by (simp add: handle_auto_restart_def start_teardown_def)
  moreover have "balanced S B (W + image_mset waiter_id (opt_mset None)) I ?b"
    using balanced_hand_over [OF good_balanced [OF good] found(1), of inc "Some code" ?q "Respawn Auto" None]
      proc_ok_auto_restart [OF found(3) l] l g k by simp
  ultimately show ?thesis using idle by auto
qed

lemma good_watch_restart:
  assumes good: "good S B W I a" and src: "(name, g) \<in> S"
  shows "good S B W I (handle_watch_restart name g a)"
proof (cases "ac_stop_all a = None \<and> (\<exists>k p. find_entry (ac_pm a) name = Some (k, p) \<and>
    mp_generation p = g \<and> watch_restartable (mp_life p))")
  case False
  then have "handle_watch_restart name g a = a"
    by (auto simp: handle_watch_restart_def split: option.split)
  with good show ?thesis by simp
next
  case True
  then obtain k p where f: "find_entry (ac_pm a) name = Some (k, p)"
    and w: "watch_restartable (mp_life p)" and g: "mp_generation p = g"
    and idle: "ac_stop_all a = None" by blast
  note found = find_entry_inv [OF good_inv [OF good] f]
  have k: "k = name" using good_source [OF good src found(1) g] .
  let ?b = "on_pm (set_proc name (p\<lparr>mp_restart_count := 0\<rparr>)) a"
  have "balanced S B W I ?b"
    using balanced_reset_count [OF good_balanced [OF good] found(1)] by (simp add: k)
  moreover have "\<not> is_stopping (mp_life p)"
    using w by (cases "mp_life p") (auto simp: watch_restartable_def)
  moreover have "good S B W I ?b" using calculation idle by auto
  ultimately have "good S B W I (start_teardown name (Respawn Watch) None ?b)"
    using good_start_teardown [of S B W I ?b name "p\<lparr>mp_restart_count := 0\<rparr>" None] idle by simp
  moreover have "handle_watch_restart name g a = start_teardown name (Respawn Watch) None ?b"
    using f w g idle k by (simp add: handle_watch_restart_def)
  ultimately show ?thesis by simp
qed

section \<open>Every command\<close>

fun cmd_replies :: "pm_command \<Rightarrow> reply_id multiset" where
  "cmd_replies (CmdSpawn _ _ _ _ _ _ _ r) = {#r#}"
| "cmd_replies (CmdStop _ r) = {#r#}"
| "cmd_replies (CmdStopAll r) = {#r#}"
| "cmd_replies (CmdRestart _ r) = {#r#}"
| "cmd_replies (CmdStatus r) = {#r#}"
| "cmd_replies (CmdStatusSnapshot r) = {#r#}"
| "cmd_replies (CmdHasProcess _ r) = {#r#}"
| "cmd_replies (CmdSessionName r) = {#r#}"
| "cmd_replies (CmdIsProcessExited _ r) = {#r#}"
| "cmd_replies (CmdEnableProxy _ r) = {#r#}"
| "cmd_replies (CmdSubscribe r) = {#r#}"
| "cmd_replies (CmdAutoRestart _ _) = {#}"
| "cmd_replies (CmdWatchRestart _ _) = {#}"
| "cmd_replies (CmdStopFinished _ _ _) = {#}"

fun cmd_tasks :: "pm_command \<Rightarrow> (string \<times> nat) multiset" where
  "cmd_tasks (CmdStopFinished name g _) = {#(name, g)#}"
| "cmd_tasks _ = {#}"

fun cmd_sources :: "pm_command \<Rightarrow> (string \<times> nat) set" where
  "cmd_sources (CmdAutoRestart name g) = {(name, g)}"
| "cmd_sources (CmdWatchRestart name g) = {(name, g)}"
| "cmd_sources _ = {}"

lemma handle_command_good:
  assumes good: "good S (B + cmd_tasks cmd) W I a" and src: "cmd_sources cmd \<subseteq> S"
  shows "good S B (W + cmd_replies cmd) I (handle_command os cmd a)"
proof -
  have "\<not> ac_panicked a" using good by (simp add: good_def balanced_def)
  then show ?thesis
    using good src
    by (cases cmd)
      (simp_all add: handle_command_def good_spawn good_stop good_stop_all good_restart good_status
        good_reply good_is_process_exited good_enable_proxy good_auto_restart good_watch_restart
        good_finish_teardown)
qed

section \<open>The periodic check\<close>

definition candidate_at :: "string \<Rightarrow> actor \<Rightarrow> candidate option" where
  "candidate_at k a = map_option candidate_of (map_of (pm_processes (ac_pm a)) k)"

lemma candidate_natural:
  assumes "candidate_of p \<noteq> Skip"
  obtains code inc policy where "mp_life p = Exited code Natural inc False"
    and "mp_restart_policy p = Some policy" and "should_restart (rp_mode policy) code"
    and "candidate_of p = OutOfRestarts \<longleftrightarrow>
      (\<exists>m. rp_max_restarts policy = Some m \<and> mp_restart_count p \<ge> m)"
  using assms
  by (auto simp: candidate_of_def split: life.splits exit_why.splits bool.splits option.splits if_splits)

lemma candidate_at_set_proc:
  "k' \<noteq> k \<Longrightarrow> candidate_at k' (on_pm (set_proc k q) a) = candidate_at k' a"
  by (simp add: candidate_at_def)

lemma candidate_at_emit [simp]: "candidate_at k (emit es a) = candidate_at k a"
  by (simp add: candidate_at_def)

lemma candidate_at_entry:
  assumes "candidate_at k a = Some c"
  obtains p where "map_of (pm_processes (ac_pm a)) k = Some p" and "candidate_of p = c"
  using assms by (auto simp: candidate_at_def)

lemma good_schedule_exhausted:
  assumes good: "good S B W I a" and idle: "ac_stop_all a = None"
    and cand: "candidate_at k a = Some OutOfRestarts"
  shows "good S B W I (schedule_exhausted k a) \<and> ac_stop_all (schedule_exhausted k a) = None \<and>
    (\<forall>k'. k' \<noteq> k \<longrightarrow> candidate_at k' (schedule_exhausted k a) = candidate_at k' a)"
proof -
  obtain p where p: "map_of (pm_processes (ac_pm a)) k = Some p" "candidate_of p = OutOfRestarts"
    using cand by (rule candidate_at_entry)
  from p(2) have "candidate_of p \<noteq> Skip" by simp
  then obtain code inc policy where l: "mp_life p = Exited code Natural inc False"
    by (rule candidate_natural)
  define a1 where "a1 = (case Option.bind (pm_find (ac_pm a) k)
      (\<lambda>p. Option.bind (mp_restart_policy p) rp_max_restarts) of
      None \<Rightarrow> a
    | Some m \<Rightarrow> supervisor_line k (''[agent-procs] Max restarts ('' @ dec_word m @ '') exhausted'') a)"
  have pm1: "ac_pm a1 = ac_pm a" and idle1: "ac_stop_all a1 = None"
    using idle by (simp_all add: a1_def split: option.split)
  have bal1: "balanced S B W I a1"
    using good_balanced [OF good] by (auto simp: a1_def intro: inv_intros split: option.split)
  have eq: "schedule_exhausted k a = on_pm (mark_failed k) a1"
    by (simp add: schedule_exhausted_def a1_def Let_def)
  have "starts (ac_pm a1) None (mark_failed k (ac_pm a1))"
    using mark_failed_starts [OF good_inv [OF good] _ p(1)] p(1) l by (simp add: pm1)
  with bal1 have "balanced S B W I (schedule_exhausted k a)"
    unfolding eq by (intro balanced_starts_None)
  moreover have "candidate_at k' (schedule_exhausted k a) = candidate_at k' a" if "k' \<noteq> k" for k'
    using that by (simp add: eq candidate_at_def pm1 mark_failed_def find_mut_key [OF p(1)])
  ultimately show ?thesis using idle1 by (auto simp: eq)
qed

lemma good_schedule_restart:
  assumes good: "good S B W I a" and idle: "ac_stop_all a = None"
    and cand: "candidate_at k a = Some Restartable"
  shows "good S B W I (schedule_restart k a) \<and> ac_stop_all (schedule_restart k a) = None \<and>
    (\<forall>k'. k' \<noteq> k \<longrightarrow> candidate_at k' (schedule_restart k a) = candidate_at k' a)"
proof -
  obtain p where p: "map_of (pm_processes (ac_pm a)) k = Some p" and c: "candidate_of p = Restartable"
    using cand by (rule candidate_at_entry)
  from c have "candidate_of p \<noteq> Skip" by simp
  then obtain code inc policy where l: "mp_life p = Exited code Natural inc False"
    and policy: "mp_restart_policy p = Some policy"
    and room: "\<not> (\<exists>m. rp_max_restarts policy = Some m \<and> mp_restart_count p \<ge> m)"
    by (rule candidate_natural) (use that c in auto)
  let ?q = "p\<lparr>mp_life := Exited code Natural inc True\<rparr>"
  have ok: "proc_ok k p" using pm_inv_entry(1) [OF good_inv [OF good] p] .
  then have "proc_ok k ?q"
    using l policy room by (auto simp: proc_ok_defs split: option.splits)
  with l have bal: "balanced S B W I (on_pm (set_proc k ?q) a)"
    by (intro balanced_set_proc [OF good_balanced [OF good] p]) simp_all
  have "sound_source (set_proc k ?q (ac_pm a)) (k, mp_generation p)"
    using pm_inv_entry(2) [OF good_inv [OF good] p] p good_inv [OF good]
    by (intro sound_source_set_proc)
      (auto simp: sound_source_def dest: map_of_SomeD pm_inv_generation)
  moreover have eq: "schedule_restart k a
      = emit [RestartTimer k (mp_generation p) (rp_restart_delay_ms policy)] (on_pm (set_proc k ?q) a)"
    by (simp add: schedule_restart_def p l policy)
  ultimately have "balanced S B W I (schedule_restart k a)"
    using bal by (auto simp: balanced_def)
  with idle show ?thesis by (auto simp: eq candidate_at_set_proc)
qed

lemma classify_names:
  assumes inv: "pm_inv pm" and c: "classify_restart_candidates pm = (restartable, exhausted)"
  shows "distinct restartable" "distinct exhausted" "set restartable \<inter> set exhausted = {}"
    "k \<in> set restartable \<longleftrightarrow> (\<exists>p. map_of (pm_processes pm) k = Some p \<and> candidate_of p = Restartable)"
    "k \<in> set exhausted \<longleftrightarrow> (\<exists>p. map_of (pm_processes pm) k = Some p \<and> candidate_of p = OutOfRestarts)"
proof -
  let ?ps = "pm_processes pm"
  have names: "\<forall>(k, p) \<in> set ?ps. mp_name p = k" using inv by (auto simp: pm_inv_def proc_ok_def)
  have sel: "map mp_name (filter P (map snd ps)) = map fst (filter (\<lambda>(k, p). P p) ps)"
    if "\<forall>(k, p) \<in> set ps. mp_name p = k" for P and ps :: ptable
    using that by (induction ps) auto
  have dist: "distinct (map fst ?ps)" using inv by (simp add: pm_inv_def)
  have d: "distinct (map fst (filter Q ?ps))" for Q
    using dist by (induction ?ps rule: rev_induct) (auto simp: distinct_map_filter)
  have r: "restartable = map fst (filter (\<lambda>(k, p). candidate_of p = Restartable) ?ps)"
    and e: "exhausted = map fst (filter (\<lambda>(k, p). candidate_of p = OutOfRestarts) ?ps)"
    using c sel [OF names] by (auto simp: classify_restart_candidates_def Let_def)
  show "distinct restartable" "distinct exhausted" unfolding r e by (rule d)+
  show rr: "k \<in> set restartable \<longleftrightarrow> (\<exists>p. map_of ?ps k = Some p \<and> candidate_of p = Restartable)"
    and "k \<in> set exhausted \<longleftrightarrow> (\<exists>p. map_of ?ps k = Some p \<and> candidate_of p = OutOfRestarts)" for k
    unfolding r e using dist by (force simp: dest: map_of_SomeD)+
  then show "set restartable \<inter> set exhausted = {}" by auto
qed

lemma good_schedule_restarts:
  assumes good: "good S B W I a"
  shows "good S B W I (schedule_restarts a)"
proof (cases "ac_stop_all a")
  case (Some b)
  with good show ?thesis by (simp add: schedule_restarts_def)
next
  case None
  let ?G = "\<lambda>a. good S B W I a \<and> ac_stop_all a = None"
  obtain restartable exhausted where
    c: "classify_restart_candidates (ac_pm a) = (restartable, exhausted)" by force
  note names = classify_names [OF good_inv [OF good] c]
  let ?H = "\<lambda>a. ?G a \<and> (\<forall>k \<in> set restartable. candidate_at k a = Some Restartable)"
  have "?H (fold schedule_exhausted exhausted a)"
  proof (rule fold_distinct_inv [where Q = "\<lambda>k a. candidate_at k a = Some OutOfRestarts"])
    show "\<forall>k \<in> set exhausted. candidate_at k a = Some OutOfRestarts"
      using names(5) by (auto simp: candidate_at_def)
    show "?H a" using good None names(4) by (auto simp: candidate_at_def)
    fix k s
    assume k: "k \<in> set exhausted" and H: "?H s" and Q: "candidate_at k s = Some OutOfRestarts"
    have "k' \<noteq> k" if "k' \<in> set restartable" for k' using that k names(3) by auto
    moreover have "?G (schedule_exhausted k s) \<and>
        (\<forall>k'. k' \<noteq> k \<longrightarrow> candidate_at k' (schedule_exhausted k s) = candidate_at k' s)"
      using good_schedule_exhausted [of S B W I s k] H Q by simp
    ultimately show "?H (schedule_exhausted k s)" using H by auto
  qed (use names(2) good_schedule_exhausted in auto)
  moreover define a1 where "a1 = (if exhausted = [] then fold schedule_exhausted exhausted a
      else publish_proxy_state (fold schedule_exhausted exhausted a))"
  ultimately have H: "?H a1"
    by (auto simp: good_publish candidate_at_def)
  have "?G (fold schedule_restart restartable a1)"
  proof (rule fold_distinct_inv [where Q = "\<lambda>k a. candidate_at k a = Some Restartable"])
    show "?G a1" "\<forall>k \<in> set restartable. candidate_at k a1 = Some Restartable" using H by auto
    show "?G (schedule_restart k s)"
      if "?G s" "candidate_at k s = Some Restartable" for k s
      using good_schedule_restart [of S B W I s k] that by simp
  qed (use names(1) good_schedule_restart in auto)
  with None c show ?thesis by (simp add: schedule_restarts_def a1_def Let_def)
qed

lemma tick_good:
  assumes "good S B W I a"
  shows "good S B W I (tick os a)"
  using assms
  by (auto simp: tick_def Let_def intro!: good_schedule_restarts good_publish good_refresh)

end
