(* ===== verification/Daemon.thy ===== *)
theory Daemon
  imports Actor_Commands
begin

text \<open>
  The daemon as a transition system around the actor (\<open>run\<close> in \<open>src/daemon/actor.rs\<close>): the event
  loop takes one message at a time, from a client, from a teardown task, a restart timer or a
  watcher, or a tick of the periodic check. Which message comes next, and what the operating
  system answers, is arbitrary. What a handler sends becomes part of the world: teardown tasks run
  until they report, timers and watchers may speak at any later time (and, more than the code
  does, any number of times, after they were cancelled too), replies reach their clients.
\<close>

section \<open>States and steps\<close>

record daemon =
  dm_actor :: actor
  dm_tasks :: "(string \<times> nat) multiset"
  dm_sources :: "(string \<times> nat) set"
  dm_asked :: "reply_id multiset"
  dm_answered :: "reply_id multiset"
  dm_started :: "incarnation multiset"
  dm_released :: "incarnation multiset"

definition daemon_new :: "string \<Rightarrow> daemon" where
  "daemon_new session =
     \<lparr>dm_actor = actor_new session, dm_tasks = {#}, dm_sources = {}, dm_asked = {#},
      dm_answered = {#}, dm_started = {#}, dm_released = {#}\<rparr>"

text \<open>The watchers that exist: a handle in a record calls back with its name and generation.\<close>

definition watchers_of :: "process_manager \<Rightarrow> (string \<times> nat) set" where
  "watchers_of pm =
     set (List.map_filter (\<lambda>(k, p). map_option (\<lambda>h. (wh_name h, wh_generation h)) (mp_watch_handle p))
       (pm_processes pm))"

text \<open>The handler's effects enter the world, and its outbox is empty for the next one.\<close>

definition absorb :: "reply_id multiset \<Rightarrow> (string \<times> nat) multiset \<Rightarrow> actor \<Rightarrow> daemon \<Rightarrow> daemon" where
  "absorb asked finished a s =
     \<lparr>dm_actor = a\<lparr>ac_outbox := []\<rparr>,
      dm_tasks = dm_tasks s - finished + tasks_of (ac_outbox a),
      dm_sources = dm_sources s \<union> timers_of (ac_outbox a) \<union> watchers_of (ac_pm a),
      dm_asked = dm_asked s + asked,
      dm_answered = dm_answered s + replies_of (ac_outbox a),
      dm_started = dm_started s + started_of (ac_outbox a),
      dm_released = dm_released s + given_of (ac_outbox a)\<rparr>"

definition deliver :: "os_env \<Rightarrow> pm_command \<Rightarrow> daemon \<Rightarrow> daemon" where
  "deliver os cmd s =
     absorb (cmd_replies cmd) (cmd_tasks cmd) (handle_command os cmd (dm_actor s)) s"

inductive daemon_step :: "daemon \<Rightarrow> daemon \<Rightarrow> bool" where
  client: "cmd_tasks cmd = {#} \<Longrightarrow> cmd_sources cmd = {} \<Longrightarrow> daemon_step s (deliver os cmd s)"
| timer: "(n, g) \<in> dm_sources s \<Longrightarrow> daemon_step s (deliver os (CmdAutoRestart n g) s)"
| watcher: "(n, g) \<in> dm_sources s \<Longrightarrow> daemon_step s (deliver os (CmdWatchRestart n g) s)"
| torn_down: "(n, g) \<in># dm_tasks s \<Longrightarrow> daemon_step s (deliver os (CmdStopFinished n g code) s)"
| exit_refresh: "daemon_step s (absorb {#} {#} (tick os (dm_actor s)) s)"

inductive_cases daemon_stepE: "daemon_step s t"

text \<open>A step is one command, whose teardown task or delayed message is in the world, or the check.\<close>

lemma daemon_step_cases [consumes 1, case_names command exit_refresh]:
  assumes "daemon_step s t"
  obtains cmd os where "t = deliver os cmd s" "cmd_tasks cmd \<subseteq># dm_tasks s" "cmd_sources cmd \<subseteq> dm_sources s"
    | os where "t = absorb {#} {#} (tick os (dm_actor s)) s"
  using assms
  by (elim daemon_stepE) (erule that(1), simp, simp, erule that(1), simp, simp, erule that(1), simp, simp,
    erule that(1), simp, simp, erule that(2))

section \<open>The invariant\<close>

text \<open>\<open>X\<close> are further delayed messages the invariant keeps track of.\<close>

definition daemon_inv_on :: "(string \<times> nat) set \<Rightarrow> daemon \<Rightarrow> bool" where
  "daemon_inv_on X s \<longleftrightarrow>
     (\<exists>W. dm_asked s = dm_answered s + W \<and>
        good (dm_sources s \<union> X) (dm_tasks s) W (pm_held (ac_pm (dm_actor s))) (dm_actor s)) \<and>
     ac_outbox (dm_actor s) = [] \<and>
     dm_started s = dm_released s + pm_held (ac_pm (dm_actor s))"

lemma watchers_sound:
  assumes "pm_inv pm" and "s \<in> watchers_of pm"
  shows "sound_source pm s"
proof -
  obtain k p h where p: "(k, p) \<in> set (pm_processes pm)" and h: "mp_watch_handle p = Some h"
    and s: "s = (wh_name h, wh_generation h)"
    using assms(2) by (auto simp: watchers_of_def List.map_filter_def)
  have m: "map_of (pm_processes pm) k = Some p" using assms(1) p by (rule pm_inv_map_of)
  from pm_inv_entry [OF assms(1) m] h s have "s = (k, mp_generation p)"
    "mp_generation p \<le> pm_next_generation pm"
    by (auto simp: proc_ok_def watch_ok_def)
  with assms(1) p show ?thesis
    by (auto simp: sound_source_def dest: pm_inv_generation)
qed

lemma good_clear_outbox:
  assumes "good S B W I a"
  obtains V where "W = V + replies_of (ac_outbox a)"
    and "good (S \<union> timers_of (ac_outbox a) \<union> watchers_of (ac_pm a)) (B + tasks_of (ac_outbox a)) V
      (pm_held (ac_pm a)) (a\<lparr>ac_outbox := []\<rparr>)"
    and "pm_held (ac_pm a) + given_of (ac_outbox a) = I + started_of (ac_outbox a)"
proof -
  let ?V = "pm_waiters (ac_pm a) + batch_waiters (ac_stop_all a)"
  have inv: "pm_inv (ac_pm a)" using assms by (rule good_inv)
  have "batch_ok (a\<lparr>ac_outbox := []\<rparr>) = batch_ok a" by (rule batch_ok_cong) simp_all
  then show thesis
    using assms by (intro that [of ?V])
      (auto simp: good_def balanced_def intro: watchers_sound [OF inv])
qed

lemma daemon_inv_absorb:
  assumes inv: "daemon_inv_on X s" and fin: "finished \<subseteq># dm_tasks s"
    and good: "\<And>W. good (dm_sources s \<union> X) (dm_tasks s) W (pm_held (ac_pm (dm_actor s))) (dm_actor s) \<Longrightarrow>
      good (dm_sources s \<union> X) (dm_tasks s - finished) (W + asked) (pm_held (ac_pm (dm_actor s))) a"
  shows "daemon_inv_on X (absorb asked finished a s)"
proof -
  from inv obtain W where W: "dm_asked s = dm_answered s + W"
    and "good (dm_sources s \<union> X) (dm_tasks s) W (pm_held (ac_pm (dm_actor s))) (dm_actor s)"
    and acc: "dm_started s = dm_released s + pm_held (ac_pm (dm_actor s))"
    by (auto simp: daemon_inv_on_def)
  from good [OF this(2)] obtain V where V: "W + asked = V + replies_of (ac_outbox a)"
    and g: "good (dm_sources s \<union> X \<union> timers_of (ac_outbox a) \<union> watchers_of (ac_pm a))
      (dm_tasks s - finished + tasks_of (ac_outbox a)) V (pm_held (ac_pm a)) (a\<lparr>ac_outbox := []\<rparr>)"
    and h: "pm_held (ac_pm a) + given_of (ac_outbox a)
      = pm_held (ac_pm (dm_actor s)) + started_of (ac_outbox a)"
    by (rule good_clear_outbox)
  have "dm_asked s + asked = dm_answered s + replies_of (ac_outbox a) + V"
    using W V by (simp add: ac_simps)
  moreover have "dm_started s + started_of (ac_outbox a)
      = dm_released s + given_of (ac_outbox a) + pm_held (ac_pm a)"
    using acc h by (simp add: ac_simps)
  moreover have "dm_sources s \<union> X \<union> timers_of (ac_outbox a) \<union> watchers_of (ac_pm a)
      = dm_sources s \<union> timers_of (ac_outbox a) \<union> watchers_of (ac_pm a) \<union> X" by blast
  ultimately show ?thesis
    using g by (auto simp: daemon_inv_on_def absorb_def)
qed

lemma daemon_inv_deliver:
  assumes inv: "daemon_inv_on X s" and fin: "cmd_tasks cmd \<subseteq># dm_tasks s"
    and src: "cmd_sources cmd \<subseteq> dm_sources s"
  shows "daemon_inv_on X (deliver os cmd s)"
  unfolding deliver_def
proof (rule daemon_inv_absorb [OF inv fin])
  fix W
  assume "good (dm_sources s \<union> X) (dm_tasks s) W (pm_held (ac_pm (dm_actor s))) (dm_actor s)"
  with fin have "good (dm_sources s \<union> X) (dm_tasks s - cmd_tasks cmd + cmd_tasks cmd) W
      (pm_held (ac_pm (dm_actor s))) (dm_actor s)" by simp
  with src show "good (dm_sources s \<union> X) (dm_tasks s - cmd_tasks cmd) (W + cmd_replies cmd)
      (pm_held (ac_pm (dm_actor s))) (handle_command os cmd (dm_actor s))"
    by (intro handle_command_good) auto
qed

lemma daemon_inv_on_step:
  assumes "daemon_step s t" and "daemon_inv_on X s"
  shows "daemon_inv_on X t"
  using assms
proof (cases rule: daemon_step_cases)
  case (exit_refresh os)
  with assms(2) show ?thesis by (auto intro!: daemon_inv_absorb tick_good)
qed (auto intro: daemon_inv_deliver)

definition daemon_inv :: "daemon \<Rightarrow> bool" where
  "daemon_inv s \<longleftrightarrow> daemon_inv_on {} s"

definition daemon_start :: "daemon \<Rightarrow> bool" where
  "daemon_start s \<longleftrightarrow> (\<exists>session. s = daemon_new session)"

lemma daemon_inv_new: "daemon_inv (daemon_new session)"
  by (auto simp: daemon_inv_def daemon_inv_on_def daemon_new_def actor_new_def good_def balanced_def
      pm_inv_new pm_tasks_def pm_waiters_def pm_held_def pm_new_def batch_ok_def intro!: pm_inv_new [unfolded pm_new_def])

interpretation daemon: invariant_system daemon_start daemon_step daemon_inv
  by unfold_locales
    (auto simp: daemon_start_def daemon_inv_def intro: daemon_inv_new [unfolded daemon_inv_def]
      dest: daemon_inv_on_step)

text \<open>The same steps keep track of any further message: an instance per \<open>X\<close>.\<close>

interpretation tracked: invariant_system "daemon_inv_on X" daemon_step "daemon_inv_on X" for X
  by unfold_locales (auto dest: daemon_inv_on_step)

section \<open>What holds of every reachable state\<close>

lemma reachable_inv: "reaches daemon_step (daemon_new session) s \<Longrightarrow> daemon_inv s"
  by (rule daemon.inv_reachable) (auto simp: daemon_start_def)

lemma daemon_inv_facts:
  assumes "daemon_inv s"
  shows "pm_inv (ac_pm (dm_actor s))" "\<not> ac_panicked (dm_actor s)"
    "pm_tasks (ac_pm (dm_actor s)) = dm_tasks s"
    "dm_asked s = dm_answered s + pm_waiters (ac_pm (dm_actor s))
       + batch_waiters (ac_stop_all (dm_actor s))"
    "dm_started s = dm_released s + pm_held (ac_pm (dm_actor s))"
    "batch_ok (dm_actor s)" "ac_outbox (dm_actor s) = []"
    "x \<in> dm_sources s \<Longrightarrow> sound_source (ac_pm (dm_actor s)) x"
proof -
  obtain W where W: "dm_asked s = dm_answered s + W"
    and g: "good (dm_sources s) (dm_tasks s) W (pm_held (ac_pm (dm_actor s))) (dm_actor s)"
    and out: "ac_outbox (dm_actor s) = []"
    and acc: "dm_started s = dm_released s + pm_held (ac_pm (dm_actor s))"
    using assms by (auto simp: daemon_inv_def daemon_inv_on_def)
  note b = good_balanced [OF g, unfolded balanced_def out sent_simps add_0_right]
  show "pm_inv (ac_pm (dm_actor s))" "\<not> ac_panicked (dm_actor s)"
    "pm_tasks (ac_pm (dm_actor s)) = dm_tasks s" "batch_ok (dm_actor s)"
    "x \<in> dm_sources s \<Longrightarrow> sound_source (ac_pm (dm_actor s)) x"
    using b g by (auto simp: good_def)
  show "dm_asked s = dm_answered s + pm_waiters (ac_pm (dm_actor s))
      + batch_waiters (ac_stop_all (dm_actor s))"
    using W b by (simp add: add.assoc)
qed (use assms in \<open>auto simp: daemon_inv_def daemon_inv_on_def\<close>)

lemma count_tasks:
  assumes "distinct (hm_keys ps)"
  shows "count (tsum proc_tasks ps) (n, g) =
    (if \<exists>p. map_of ps n = Some p \<and> mp_generation p = g \<and> is_stopping (mp_life p) then 1 else 0)"
  using assms
proof (induction ps)
  case Nil
  then show ?case by simp
next
  case (Cons e ps)
  obtain k p where e: "e = (k, p)" by force
  have "count (tsum proc_tasks ps) (k, h) = 0" for h
  proof -
    have "map_of ps k = None" using Cons.prems e by (simp add: map_of_eq_None_iff)
    then have "(k, h) \<notin># tsum proc_tasks ps"
      by (auto simp: in_tsum proc_tasks_def map_of_eq_None_iff rev_image_eqI split: if_splits)
    then show ?thesis by (simp add: not_in_iff)
  qed
  moreover have "map_of ps n = (if n = k then None else map_of ps n)"
    using Cons.prems e by (auto simp: map_of_eq_None_iff)
  ultimately show ?case
    using Cons e by (cases "n = k") (simp_all add: proc_tasks_def)
qed

text \<open>A stopping record waits for a task; with no task left, nobody waits.\<close>

lemma idle_no_waiters:
  assumes "daemon_inv s" and "dm_tasks s = {#}"
  shows "pm_waiters (ac_pm (dm_actor s)) = {#}" "ac_stop_all (dm_actor s) = None"
proof -
  note facts = daemon_inv_facts [OF assms(1)]
  have calm: "\<not> is_stopping (mp_life p)" if "(k, p) \<in> set (pm_processes (ac_pm (dm_actor s)))" for k p
    using facts(3) assms(2) that by (auto simp: pm_tasks_def tsum_eq_empty proc_tasks_def split: if_splits)
  have "life_waiters l = {#}" if "\<not> is_stopping l" for l using that by (cases l) auto
  with calm show "pm_waiters (ac_pm (dm_actor s)) = {#}"
    by (auto simp: pm_waiters_def tsum_eq_empty)
  show "ac_stop_all (dm_actor s) = None"
  proof (cases "ac_stop_all (dm_actor s)")
    case (Some b)
    define k where "k = hd (sab_remaining b)"
    have k: "k \<in> set (sab_remaining b)"
      using facts(6) Some by (simp add: batch_ok_def k_def)
    with facts(6) Some have "k \<in> set (hm_keys (pm_processes (ac_pm (dm_actor s))))"
      by (auto simp: batch_ok_def)
    then obtain p where p: "(k, p) \<in> set (pm_processes (ac_pm (dm_actor s)))" by auto
    with facts(6) Some have "settled (sab_remaining b) k p" by (auto simp: batch_ok_def)
    then show ?thesis using calm [OF p] k by (cases rule: settled_cases) auto
  qed
qed

section \<open>A finished teardown starts no teardown\<close>

lemma supervisor_line_tasks [simp]: "tasks_of (ac_outbox (supervisor_line n m a)) = tasks_of (ac_outbox a)"
  by (simp add: supervisor_line_def split: option.split)

lemma start_child_tasks [simp]: "tasks_of (ac_outbox (start_child c a)) = tasks_of (ac_outbox a)"
  by (simp add: start_child_def split: option.split)

lemma rotate_tasks [simp]: "tasks_of (map RotateLogs ps) = {#}"
  by (induction ps) simp_all

lemma respawn_tasks:
  "tasks_of (ac_outbox (snd (respawn os n reason code a))) = tasks_of (ac_outbox a)"
  by (simp add: respawn_def Let_def split: prod.split response.split option.split)

lemma finish_stop_all_tasks [simp]: "tasks_of (ac_outbox (finish_stop_all a)) = tasks_of (ac_outbox a)"
proof -
  have "tasks_of (map (\<lambda>r. Reply r v) rs) = {#}" for v rs by (induction rs) simp_all
  then show ?thesis by (simp add: finish_stop_all_def split: option.split)
qed

lemma finish_teardown_tasks:
  "tasks_of (ac_outbox (finish_teardown os n g code a)) = tasks_of (ac_outbox a)"
proof -
  have "tasks_of (ac_outbox (snd (case thn of
      Park \<Rightarrow> (actor_error ''restart superseded by stop'', b)
    | Respawn reason \<Rightarrow> respawn os n reason code b))) = tasks_of (ac_outbox b)" for thn b
    by (simp add: respawn_tasks split: after_stop.split)
  then show ?thesis
    by (auto simp: finish_teardown_def Let_def split_beta split: option.split life.split)
qed

text \<open>So the teardowns in flight can be let finish, in any order, until none is left.\<close>

definition drain :: "os_env \<Rightarrow> (string \<Rightarrow> i32 option) \<Rightarrow> (string \<times> nat) list \<Rightarrow> daemon \<Rightarrow> daemon" where
  "drain os codes tasks s = fold (\<lambda>(n, g). deliver os (CmdStopFinished n g (codes n))) tasks s"

lemma deliver_finished:
  assumes inv: "daemon_inv s" and task: "(n, g) \<in># dm_tasks s"
  shows "dm_tasks (deliver os (CmdStopFinished n g code) s) = dm_tasks s - {#(n, g)#}"
    "dm_asked (deliver os (CmdStopFinished n g code) s) = dm_asked s"
    "daemon_inv (deliver os (CmdStopFinished n g code) s)"
proof -
  show "daemon_inv (deliver os (CmdStopFinished n g code) s)"
    using inv task unfolding daemon_inv_def by (intro daemon_inv_deliver) simp_all
qed (use daemon_inv_facts(7) [OF inv] in
      \<open>simp_all add: deliver_def absorb_def handle_command_def finish_teardown_tasks\<close>)

lemma drain_tasks:
  assumes "daemon_inv s" and "mset tasks = dm_tasks s"
  shows "daemon_inv (drain os codes tasks s)" "dm_tasks (drain os codes tasks s) = {#}"
    "dm_asked (drain os codes tasks s) = dm_asked s"
proof -
  have "daemon_inv (drain os codes tasks s) \<and> dm_tasks (drain os codes tasks s) = {#} \<and>
      dm_asked (drain os codes tasks s) = dm_asked s"
    using assms
  proof (induction tasks arbitrary: s)
    case Nil
    then show ?case by (simp add: drain_def)
  next
    case (Cons e tasks)
    obtain n g where e: "e = (n, g)" by force
    let ?t = "deliver os (CmdStopFinished n g (codes n)) s"
    from Cons.prems e have task: "(n, g) \<in># dm_tasks s" and rest: "mset tasks = dm_tasks s - {#(n, g)#}"
      by (auto simp flip: Cons.prems(2))
    note fin = deliver_finished [OF Cons.prems(1) task, of os "codes n"]
    have "mset tasks = dm_tasks ?t" by (simp add: rest fin)
    from Cons.IH [OF fin(3) this] show ?case
      by (simp add: drain_def e fin(2) split: prod.split)
  qed
  then show "daemon_inv (drain os codes tasks s)" "dm_tasks (drain os codes tasks s) = {#}"
    "dm_asked (drain os codes tasks s) = dm_asked s" by auto
qed

end
