(* ===== verification/Isolation.thy ===== *)
theory Isolation
  imports Daemon
begin

text \<open>
  Which record a command may touch. Apart from a stop-all, a command changes only the record it
  names (and a spawn the record it adds); every other record stays as it is, except that an exit
  the operating system reports becomes visible.
\<close>

section \<open>Primitives\<close>

definition record_at :: "string \<Rightarrow> actor \<Rightarrow> managed_process option" where
  "record_at k a = hm_get (pm_processes (ac_pm a)) k"

definition observed :: "os_env \<Rightarrow> managed_process \<Rightarrow> managed_process" where
  "observed os p = p\<lparr>mp_life := refresh_life (os_waitid os) (mp_life p)\<rparr>"

lemma record_at_frame [simp]:
  "record_at k (emit es a) = record_at k a"
  "record_at k (publish_proxy_state a) = record_at k a"
  "record_at k (supervisor_line n m a) = record_at k a"
  "record_at k (a\<lparr>ac_stop_all := b\<rparr>) = record_at k a"
  "record_at k (a\<lparr>ac_panicked := c\<rparr>) = record_at k a"
  "record_at k (refresh os a) = map_option (observed os) (record_at k a)"
  "record_at k (on_pm (set_proc j q) a) = (if k = j then Some q else record_at k a)"
  by (simp_all add: record_at_def observed_def [abs_def] refresh_lookup)

lemma find_entry_refresh:
  "find_entry (snd (refresh_exit_states os pm)) t
     = map_option (\<lambda>(k, p). (k, observed os p)) (find_entry pm t)"
proof -
  have "List.find (\<lambda>(k, p). mp_id p = t)
      (map (\<lambda>(k, p). (k, p\<lparr>mp_life := refresh_life w (mp_life p)\<rparr>)) ps)
    = map_option (\<lambda>(k, p). (k, p\<lparr>mp_life := refresh_life w (mp_life p)\<rparr>))
        (List.find (\<lambda>(k, p). mp_id p = t) ps)" for w ps
    by (induction ps) auto
  then show ?thesis
    by (auto simp: find_entry_def refresh_lookup observed_def refresh_exit_states_def
        map_of_map split: option.split)
qed

lemma record_at_find_mut:
  "record_at j a = Some p \<Longrightarrow> record_at k (on_pm (find_mut j f) a) = (if k = j then Some (f p) else record_at k a)"
  by (simp add: record_at_def find_mut_on_pm)

lemma record_at_setup_watcher:
  assumes "record_at j a = Some p" and "k \<noteq> j"
  shows "record_at k (snd (setup_watcher os j a)) = record_at k a"
  using assms
  by (auto simp: setup_watcher_def record_at_find_mut split: option.split)

lemma record_at_start_teardown:
  assumes "record_at j a = Some p" and "k \<noteq> j"
  shows "record_at k (start_teardown j thn w a) = record_at k a"
  using assms by (auto simp: start_teardown_def record_at_def [of j] split: option.split)

lemma record_at_respawn:
  assumes p: "record_at j a = Some p" and k: "k \<noteq> j"
  shows "record_at k (snd (respawn os j reason code a)) = record_at k a"
proof -
  define a1 where "a1 = (if reason = ManualRestart
    then on_pm (find_mut j (\<lambda>p. p\<lparr>mp_restart_count := 0\<rparr>)) a else a)"
  have k1: "record_at k a1 = record_at k a"
    using k by (simp add: a1_def record_at_find_mut [OF p])
  have "\<exists>p1. record_at j a1 = Some p1"
    using p by (simp add: a1_def record_at_find_mut [OF p])
  then obtain p1 where p1: "hm_get (pm_processes (ac_pm a1)) j = Some p1" by (auto simp: record_at_def)
  obtain r rotated child pm where re:
    "pm_respawn os j (reason \<noteq> ManualRestart) (ac_pm a1) = (r, rotated, child, pm)"
    using prod_cases4 by blast
  define a2 where "a2 = start_child child (emit (map RotateLogs rotated) (a1\<lparr>ac_pm := pm\<rparr>))"
  have run: "respawn os j reason code a = (case r of
      RespRunOk _ _ _ _ _ \<Rightarrow>
        (let a = (case restart_marker reason (pm_find (ac_pm a2) j) code of
                    None \<Rightarrow> a2 | Some msg \<Rightarrow> supervisor_line j msg a2)
         in (r, snd (setup_watcher os j a)))
    | RespError _ message \<Rightarrow>
        (r, if reason = ManualRestart then a2
            else emit [Broadcast j Stdout (''[agent-procs] '' @
              (if reason = Auto then ''Restart'' else ''Watch restart'') @ '' failed: '' @ message)] a2)
    | _ \<Rightarrow> (r, a2))"
    unfolding respawn_def Let_def a1_def [symmetric] re prod.case a2_def [symmetric] ..
  from p1 re show ?thesis
  proof (cases rule: pm_respawn_cases)
    case (failed msg q)
    then show ?thesis using k k1 by (auto simp: run a2_def record_at_def)
  next
    case (spawned i pid inc q)
    let ?a3 = "case restart_marker reason (pm_find (ac_pm a2) j) code of
      None \<Rightarrow> a2 | Some msg \<Rightarrow> supervisor_line j msg a2"
    have "record_at j ?a3 = Some q" "record_at k ?a3 = record_at k a1"
      using spawned k by (auto simp: a2_def record_at_def split: option.split)
    then show ?thesis
      using spawned k k1 by (simp add: run Let_def record_at_setup_watcher)
  qed
qed

section \<open>Handlers\<close>

lemma record_at_spawn:
  assumes inv: "pm_inv (ac_pm a)" and p: "record_at k a = Some p"
  shows "record_at k (handle_spawn os command nm cwd env port restart watch r a) = Some p"
proof (cases "ac_stop_all a")
  case (Some b)
  with p show ?thesis by (simp add: handle_spawn_def reply_def)
next
  case None
  obtain resp child pm where run: "spawn_process os command nm cwd env port (ac_pm a) = (resp, child, pm)"
    using prod_cases3 by blast
  let ?a = "start_child child (a\<lparr>ac_pm := pm\<rparr>)"
  from inv run show ?thesis
  proof (cases rule: spawn_process_cases)
    case (failed code msg)
    with None run p show ?thesis by (simp add: handle_spawn_def reply_def record_at_def)
  next
    case (spawned name i pid prt inc q)
    have k: "k \<noteq> name" using p spawned(3) by (force simp: record_at_def dest: map_of_SomeD)
    have j: "record_at name ?a = Some q" and ka: "record_at k ?a = Some p"
      using spawned k p by (simp_all add: record_at_def)
    let ?b = "on_pm (find_mut name (attach_configs restart watch)) ?a"
    have b: "record_at name ?b = Some (attach_configs restart watch q)" "record_at k ?b = Some p"
      using k ka by (simp_all add: record_at_find_mut [OF j])
    have "record_at k (snd (setup_watcher os name ?b)) = Some p"
      using record_at_setup_watcher [OF b(1) k] b(2) by simp
    then show ?thesis
      using None run spawned(1) b
      by (cases "setup_watcher os name ?b"; cases watch)
        (auto simp: handle_spawn_def reply_def Let_def split: option.split)
  qed
qed

lemma record_at_stop:
  assumes inv: "pm_inv (ac_pm a)" and p: "record_at k a = Some p"
    and other: "\<And>q. find_entry (ac_pm a) target \<noteq> Some (k, q)"
  shows "record_at k (handle_stop os target r a) = Some (observed os p)"
proof (cases "find_entry (ac_pm a) target")
  case None
  with p show ?thesis
    by (simp add: handle_stop_def Let_def find_entry_refresh reply_def)
next
  case (Some e)
  obtain j q where e: "e = (j, q)" by force
  note found = find_entry_inv [OF inv Some [unfolded e]]
  have k: "k \<noteq> j" using other Some e by auto
  have j: "record_at j (refresh os a) = Some (observed os q)"
    using found(1) by (simp add: record_at_def refresh_lookup observed_def)
  have name: "mp_name (observed os q) = j" using found(2) by (simp add: observed_def)
  show ?thesis
    using p k Some e
    by (cases "mp_life (observed os q)")
      (auto simp: handle_stop_def Let_def find_entry_refresh reply_def name
        record_at_start_teardown [OF j] split: option.split)
qed

lemma record_at_restart:
  assumes inv: "pm_inv (ac_pm a)" and p: "record_at k a = Some p"
    and other: "\<And>q. find_entry (ac_pm a) target \<noteq> Some (k, q)"
  shows "record_at k (handle_restart os target r a) \<in> {Some p, Some (observed os p)}"
proof (cases "find_entry (ac_pm a) target")
  case None
  with p show ?thesis
    by (simp add: handle_restart_def Let_def find_entry_refresh reply_def)
next
  case (Some e)
  obtain j q where e: "e = (j, q)" by force
  note found = find_entry_inv [OF inv Some [unfolded e]]
  have k: "k \<noteq> j" using other Some e by auto
  have j: "record_at j (refresh os a) = Some (observed os q)"
    using found(1) by (simp add: record_at_def refresh_lookup observed_def)
  have name: "mp_name (observed os q) = j" using found(2) by (simp add: observed_def)
  show ?thesis
    using p k Some e
    by (cases "mp_life (observed os q)")
      (auto simp: handle_restart_def Let_def find_entry_refresh reply_def name
        record_at_start_teardown [OF j])
qed

lemma record_at_auto_restart:
  assumes inv: "pm_inv (ac_pm a)" and p: "record_at k a = Some p" and k: "k \<noteq> n"
    and src: "sound_source (ac_pm a) (n, g)"
  shows "record_at k (handle_auto_restart n g a) = Some p"
proof (cases "find_entry (ac_pm a) n")
  case None
  with p show ?thesis by (simp add: handle_auto_restart_def)
next
  case (Some e)
  obtain j q where e: "e = (j, q)" by force
  note found = find_entry_inv [OF inv Some [unfolded e]]
  show ?thesis
  proof (cases "mp_generation q = g")
    case False
    with p Some e show ?thesis
      by (auto simp: handle_auto_restart_def split: life.split exit_why.split bool.split)
  next
    case True
    then have j: "j = n" using src found(1) by (auto simp: sound_source_def dest: map_of_SomeD)
    let ?b = "on_pm (set_proc n (q\<lparr>mp_restart_count := mp_restart_count q + 1\<rparr>)) a"
    have "record_at n ?b = Some (q\<lparr>mp_restart_count := mp_restart_count q + 1\<rparr>)" by simp
    from record_at_start_teardown [OF this k] p k Some e j show ?thesis
      by (auto simp: handle_auto_restart_def split: life.split exit_why.split bool.split)
  qed
qed

lemma record_at_watch_restart:
  assumes inv: "pm_inv (ac_pm a)" and p: "record_at k a = Some p" and k: "k \<noteq> n"
    and src: "sound_source (ac_pm a) (n, g)"
  shows "record_at k (handle_watch_restart n g a) = Some p"
proof (cases "find_entry (ac_pm a) n")
  case None
  with p show ?thesis by (simp add: handle_watch_restart_def)
next
  case (Some e)
  obtain j q where e: "e = (j, q)" by force
  note found = find_entry_inv [OF inv Some [unfolded e]]
  show ?thesis
  proof (cases "mp_generation q = g")
    case False
    with p Some e show ?thesis by (auto simp: handle_watch_restart_def)
  next
    case True
    then have j: "j = n" using src found(1) by (auto simp: sound_source_def dest: map_of_SomeD)
    let ?b = "on_pm (set_proc n (q\<lparr>mp_restart_count := 0\<rparr>)) a"
    have "record_at n ?b = Some (q\<lparr>mp_restart_count := 0\<rparr>)" by simp
    from record_at_start_teardown [OF this k] p k Some e j show ?thesis
      by (auto simp: handle_watch_restart_def)
  qed
qed

text \<open>A finished teardown touches another record only by emptying the table, and it empties the table
  only as the last one that a stop-all awaits.\<close>

lemma record_at_finish:
  assumes q: "record_at n a = Some q" and p: "record_at k a = Some p" and k: "k \<noteq> n"
  shows "record_at k (finish_teardown os n g code a) = Some p \<or>
    pm_processes (ac_pm (finish_teardown os n g code a)) = [] \<and>
      (\<exists>b. ac_stop_all a = Some b \<and> set (sab_remaining b) \<subseteq> {n})"
proof -
  have e: "find_entry (ac_pm a) n = Some (n, q)" using q by (simp add: record_at_def)
  show ?thesis
  proof (cases "mp_generation q = g \<and> is_stopping (mp_life q)")
    case False
    with p e show ?thesis by (cases "mp_life q") (auto simp: finish_teardown_def)
  next
    case True
    then obtain leader thn ws where l: "mp_life q = Stopping leader thn ws" by (cases "mp_life q") auto
    define a1 where "a1 = on_pm (set_proc n (q\<lparr>mp_life := Exited code ManualStop None False\<rparr>)) a"
    obtain resp a2 where run: "(case thn of
        Park \<Rightarrow> (actor_error ''restart superseded by stop'', a1)
      | Respawn reason \<Rightarrow> respawn os n reason code a1) = (resp, a2)" by force
    have "record_at n a1 = Some (q\<lparr>mp_life := Exited code ManualStop None False\<rparr>)"
      "record_at k a1 = Some p" using p k by (simp_all add: a1_def)
    then have a2: "record_at k a2 = Some p"
      using run record_at_respawn [OF _ k, of a1 _ os _ code] by (cases thn) (auto simp: prod_eq_iff)
    have fin: "pm_processes (ac_pm (finish_stop_all (b\<lparr>ac_stop_all := Some c\<rparr>))) = []" for b c
      by (simp add: finish_stop_all_def pm_clear_def)
    have batch: "ac_stop_all a2 = ac_stop_all a"
      using run respawn_frame(1) by (auto simp: a1_def split: after_stop.splits)
    define a3 where "a3 = emit (map (waiter_reply n resp) ws) a2"
    have a3: "record_at k (a3\<lparr>ac_stop_all := b\<rparr>) = Some p" "record_at k a3 = Some p" for b
      using a2 by (simp_all add: a3_def)
    have "finish_teardown os n g code a = publish_proxy_state
        (case ac_stop_all a3 of
           None \<Rightarrow> a3
         | Some batch \<Rightarrow>
             (let rest = removeAll n (sab_remaining batch);
                  a = a3\<lparr>ac_stop_all := Some (batch\<lparr>sab_remaining := rest\<rparr>)\<rparr>
              in if rest = [] then finish_stop_all a else a))"
      using True by (intro finish_teardown_run [OF e _ l run [unfolded a1_def] a3_def]) simp
    moreover have "set xs \<subseteq> {n}" if "removeAll n xs = []" for xs
      using set_removeAll [of n xs] that by simp
    ultimately show ?thesis
      using a3 fin batch by (cases "ac_stop_all a3") (simp_all add: Let_def a3_def)
  qed
qed

section \<open>The periodic check\<close>

lemma record_at_schedule_exhausted:
  assumes "record_at j a = Some q"
  shows "record_at k (schedule_exhausted j a) =
    (if k = j then Some (q\<lparr>mp_life := fail_life (mp_life q)\<rparr>) else record_at k a)"
proof -
  define a1 where "a1 = (case Option.bind (pm_find (ac_pm a) j)
      (\<lambda>p. Option.bind (mp_restart_policy p) rp_max_restarts) of
      None \<Rightarrow> a
    | Some m \<Rightarrow> supervisor_line j (''[agent-procs] Max restarts ('' @ dec_word m @ '') exhausted'') a)"
  have a1: "record_at i a1 = record_at i a" for i by (simp add: a1_def split: option.split)
  have "schedule_exhausted j a = on_pm (mark_failed j) a1"
    by (simp add: schedule_exhausted_def a1_def Let_def)
  moreover have "record_at j a1 = Some q" using assms by (simp add: a1)
  ultimately show ?thesis
    using a1 record_at_find_mut [OF \<open>record_at j a1 = Some q\<close>]
    by (simp add: mark_failed_def [abs_def])
qed

lemma record_at_schedule_restart:
  assumes "record_at j a = Some q"
  shows "record_at k (schedule_restart j a) =
    (if k = j then Some (q\<lparr>mp_life := arm_timer (mp_life q)\<rparr>) else record_at k a)"
  using assms
  by (cases "mp_life q") (auto simp: schedule_restart_def record_at_def [of j] split: option.split)

lemma record_at_fold:
  assumes "distinct ks" and "k \<notin> set ks" and "\<forall>j \<in> set ks. \<exists>q. record_at j a = Some q"
    and f: "\<And>i j a q. record_at j a = Some q \<Longrightarrow> record_at i (f j a) = (if i = j then Some (h q) else record_at i a)"
  shows "record_at k (fold f ks a) = record_at k a"
  using assms(1-3)
proof (induction ks arbitrary: a)
  case Nil
  then show ?case by simp
next
  case (Cons j ks)
  from Cons.prems obtain q where q: "record_at j a = Some q" by auto
  have "record_at k (fold f ks (f j a)) = record_at k (f j a)"
    using Cons.prems by (intro Cons.IH) (auto simp: f [OF q])
  with Cons.prems show ?case by (simp add: f [OF q])
qed

lemma record_at_schedule_restarts:
  assumes inv: "pm_inv (ac_pm a)" and p: "record_at k a = Some p" and skip: "candidate_of p = Skip"
  shows "record_at k (schedule_restarts a) = Some p"
proof (cases "ac_stop_all a")
  case (Some b)
  with p show ?thesis by (simp add: schedule_restarts_def)
next
  case None
  obtain restartable exhausted where
    c: "classify_restart_candidates (ac_pm a) = (restartable, exhausted)" by force
  note names = classify_names [OF inv c]
  define a1 where "a1 = fold schedule_exhausted exhausted a"
  define a2 where "a2 = (if exhausted = [] then a1 else publish_proxy_state a1)"
  have out: "k \<notin> set exhausted" "k \<notin> set restartable"
    using names(4,5) p skip by (auto simp: record_at_def)
  have there: "\<forall>j \<in> set exhausted. \<exists>q. record_at j a = Some q"
    using names(5) by (auto simp: record_at_def)
  note kept = record_at_fold [where h = "\<lambda>q. q\<lparr>mp_life := fail_life (mp_life q)\<rparr>",
      OF names(2) _ there record_at_schedule_exhausted, folded a1_def]
  have "record_at k a1 = Some p" using kept [of k] out p by simp
  moreover have "record_at j a1 = record_at j a" if "j \<in> set restartable" for j
    using kept [of j] names(3) that by auto
  ultimately have "record_at k a2 = Some p" "\<forall>j \<in> set restartable. \<exists>q. record_at j a2 = Some q"
    using names(4) by (auto simp: a2_def record_at_def)
  then have "record_at k (fold schedule_restart restartable a2) = Some p"
    using record_at_fold [where h = "\<lambda>q. q\<lparr>mp_life := arm_timer (mp_life q)\<rparr>",
      OF names(1) out(2) _ record_at_schedule_restart] by simp
  with None c show ?thesis
    by (cases "exhausted = []") (simp_all add: schedule_restarts_def a1_def a2_def Let_def)
qed

lemma record_at_tick:
  assumes inv: "pm_inv (ac_pm a)" and p: "record_at k a = Some p"
    and skip: "candidate_of (observed os p) = Skip"
  shows "record_at k (tick os a) \<in> {Some p, Some (observed os p)}"
proof -
  have "pm_inv (ac_pm (refresh os a))"
    using refresh_starts [OF inv] by (simp add: starts_def)
  moreover define a1 where
    "a1 = (if fst (refresh_exit_states os (ac_pm a)) then publish_proxy_state (refresh os a) else refresh os a)"
  ultimately have "pm_inv (ac_pm a1)" "record_at k a1 = Some (observed os p)"
    using p by simp_all
  from record_at_schedule_restarts [OF this skip] p show ?thesis
    by (simp add: tick_def a1_def Let_def)
qed

section \<open>\<open>StopAll\<close> and a record that is stopped already\<close>

lemma record_at_stop_all_one:
  assumes j: "record_at j (fst st) = Some q"
    and k: "k \<noteq> j \<or> (\<exists>code why timer. mp_life q = Exited code why None timer)"
  shows "record_at k (fst (stop_all_one j st)) = record_at k (fst st)"
proof -
  obtain a rest where st: "st = (a, rest)" by force
  have e: "find_entry (ac_pm a) j = Some (j, q)" using j by (simp add: st record_at_def)
  show ?thesis
  proof (cases "mp_life q" rule: stop_cases)
    case (stopping leader thn ws)
    with k show ?thesis by (simp add: st stop_all_one_def e)
  next
    case (empty code why timer)
    then show ?thesis by (simp add: st stop_all_one_def e)
  next
    case live
    with k have "k \<noteq> j" by auto
    from record_at_start_teardown [OF j this, of Park None]
    have "record_at k (start_teardown j Park None a) = record_at k a" by (simp add: st)
    with live show ?thesis
      by (cases "mp_life q") (auto simp: st stop_all_one_def e split: option.split)
  qed
qed

text \<open>A property of a record that stopping any single process keeps is kept by a stop-all, unless the
  stop-all empties the table.\<close>

lemma record_at_stop_all_fold:
  assumes step: "\<And>j q st. \<lbrakk>record_at j (fst st) = Some q; Q (record_at k (fst st))\<rbrakk> \<Longrightarrow>
      Q (record_at k (fst (stop_all_one j st)))"
    and "distinct ks" and "\<forall>j \<in> set ks. \<exists>q. record_at j (fst st) = Some q" and "Q (record_at k (fst st))"
  shows "Q (record_at k (fst (fold stop_all_one ks st)))"
  using assms(2-4)
proof (induction ks arbitrary: st)
  case (Cons j ks)
  from Cons.prems(2) obtain q where q: "record_at j (fst st) = Some q" by auto
  have there: "\<forall>i \<in> set ks. \<exists>q. record_at i (fst (stop_all_one j st)) = Some q"
  proof
    fix i
    assume i: "i \<in> set ks"
    with Cons.prems have "i \<noteq> j" by auto
    with record_at_stop_all_one [OF q, of i] Cons.prems(2) i
    show "\<exists>q. record_at i (fst (stop_all_one j st)) = Some q" by auto
  qed
  from Cons.prems(1) have "distinct ks" by simp
  from Cons.IH [OF this there step [OF q Cons.prems(3)]] show ?case
    by (simp only: fold_simps)
qed simp

lemma record_at_stop_all_rule:
  assumes inv: "pm_inv (ac_pm a)" and idle: "ac_stop_all a = None"
    and step: "\<And>j q st. \<lbrakk>record_at j (fst st) = Some q; Q (record_at k (fst st))\<rbrakk> \<Longrightarrow>
      Q (record_at k (fst (stop_all_one j st)))"
    and p: "Q (map_option (observed os) (record_at k a))"
  shows "Q (record_at k (handle_stop_all os r a)) \<or> pm_processes (ac_pm (handle_stop_all os r a)) = []"
proof -
  let ?a = "refresh os a"
  have "pm_inv (ac_pm ?a)" using refresh_starts [OF inv] by (simp add: starts_def)
  then have "distinct (pm_names (ac_pm ?a))" "\<forall>j \<in> set (pm_names (ac_pm ?a)). \<exists>q. record_at j ?a = Some q"
    by (auto simp: pm_inv_def pm_names_def record_at_def simp del: refresh_keys refresh_frame)
  with p have st: "Q (record_at k (fst (fold stop_all_one (pm_names (ac_pm ?a)) (?a, []))))"
    by (intro record_at_stop_all_fold [where Q = Q, OF step]) simp_all
  obtain a1 rest where loop: "fold stop_all_one (pm_names (ac_pm ?a)) (?a, []) = (a1, rest)" by force
  define a2 where "a2 = a1\<lparr>ac_stop_all := Some \<lparr>sab_remaining = rest, sab_replies = [r]\<rparr>\<rparr>"
  have a2: "Q (record_at k a2)" using st loop by (simp add: a2_def)
  have "handle_stop_all os r a = publish_proxy_state (if rest = [] then finish_stop_all a2 else a2)"
    unfolding handle_stop_all_def idle option.case Let_def loop prod.case a2_def ..
  with a2 show ?thesis
    by (auto simp: finish_stop_all_def pm_clear_def a2_def split: option.split)
qed

lemma record_at_stop_all:
  assumes inv: "pm_inv (ac_pm a)" and p: "record_at k a = Some p"
    and l: "mp_life p = Exited code why None timer"
  shows "record_at k (handle_stop_all os r a) = Some p \<or>
    pm_processes (ac_pm (handle_stop_all os r a)) = []"
proof (cases "ac_stop_all a")
  case (Some b)
  with p show ?thesis by (simp add: handle_stop_all_def)
next
  case None
  have "record_at k (fst (stop_all_one j st)) = Some p"
    if "record_at j (fst st) = Some q" "record_at k (fst st) = Some p" for j q st
    using record_at_stop_all_one [OF that(1), of k] that l by (cases "k = j") auto
  from record_at_stop_all_rule [where Q = "\<lambda>x. x = Some p", OF inv None this] p l show ?thesis
    by (simp add: observed_def)
qed

section \<open>The two theorems' core\<close>

text \<open>The target of a command that names one.\<close>

fun cmd_target :: "pm_command \<Rightarrow> string option" where
  "cmd_target (CmdStop target _) = Some target"
| "cmd_target (CmdRestart target _) = Some target"
| "cmd_target (CmdAutoRestart name _) = Some name"
| "cmd_target (CmdWatchRestart name _) = Some name"
| "cmd_target (CmdStopFinished name _ _) = Some name"
| "cmd_target _ = None"

fun is_stop_all :: "pm_command \<Rightarrow> bool" where
  "is_stop_all (CmdStopAll _) = True"
| "is_stop_all _ = False"

lemma record_at_queries:
  assumes "record_at k a = Some p"
  shows "record_at k (handle_status os r a) \<in> {Some p, Some (observed os p)}"
    "record_at k (handle_is_process_exited os target r a) \<in> {Some p, Some (observed os p)}"
    "record_at k (handle_enable_proxy port r a) = Some p"
proof -
  show "record_at k (handle_status os r a) \<in> {Some p, Some (observed os p)}"
    using assms by (simp add: handle_status_def build_status_def Let_def reply_def)
  have "a\<lparr>ac_pm := snd (is_process_exited os target (ac_pm a))\<rparr> = refresh os a"
    by (simp add: is_process_exited_def refresh_def on_pm_def Let_def)
  then show "record_at k (handle_is_process_exited os target r a) \<in> {Some p, Some (observed os p)}"
    using assms by (cases "is_process_exited os target (ac_pm a)") (simp add: handle_is_process_exited_def)
  show "record_at k (handle_enable_proxy port r a) = Some p"
    using assms by (simp add: handle_enable_proxy_def record_at_def pm_enable_proxy_def split: option.split)
qed

text \<open>The teardown that a stop-all awaits last is the only one in flight.\<close>

lemma last_awaited_task:
  assumes inv: "daemon_inv s" and task: "(n, g) \<in># dm_tasks s"
    and b: "ac_stop_all (dm_actor s) = Some b" "set (sab_remaining b) \<subseteq> {n}"
  shows "dm_tasks s = {#(n, g)#}"
proof (rule multiset_eqI)
  fix t :: "string \<times> nat"
  note facts = daemon_inv_facts [OF inv]
  have "distinct (hm_keys (pm_processes (ac_pm (dm_actor s))))" using facts(1) by (simp add: pm_inv_def)
  note count = count_tasks [OF this, folded pm_tasks_def, unfolded facts(3)]
  have one: "m = n" if "map_of (pm_processes (ac_pm (dm_actor s))) m = Some p" "is_stopping (mp_life p)" for m p
    using batch_ok_entry [OF facts(6) b(1) that(1)] that(2) b(2) by (cases rule: settled_cases) auto
  obtain p where p: "map_of (pm_processes (ac_pm (dm_actor s))) n = Some p" "mp_generation p = g"
      "is_stopping (mp_life p)"
    using task count [of n g] by (auto simp flip: count_greater_zero_iff split: if_splits)
  obtain m h where t: "t = (m, h)" by force
  show "count (dm_tasks s) t = count {#(n, g)#} t"
  proof (cases "m = n")
    case True
    with p show ?thesis by (simp add: t count)
  next
    case False
    with one [of m] show ?thesis by (auto simp: t count)
  qed
qed

lemma handle_command_record:
  assumes inv: "daemon_inv s" and tasks: "cmd_tasks cmd \<subseteq># dm_tasks s"
    and src: "cmd_sources cmd \<subseteq> dm_sources s"
    and p: "record_at k (dm_actor s) = Some p" and all: "\<not> is_stop_all cmd"
    and other: "\<And>t q. cmd_target cmd = Some t \<Longrightarrow> find_entry (ac_pm (dm_actor s)) t \<noteq> Some (k, q)"
  shows "record_at k (handle_command os cmd (dm_actor s)) \<in> {Some p, Some (observed os p)} \<or>
    pm_processes (ac_pm (handle_command os cmd (dm_actor s))) = [] \<and>
      ac_stop_all (dm_actor s) \<noteq> None \<and>
      (\<exists>n g code. cmd = CmdStopFinished n g code \<and> dm_tasks s = {#(n, g)#})"
proof -
  note facts = daemon_inv_facts [OF inv]
  have k: "k \<noteq> t" if "cmd_target cmd = Some t" for t
    using other [OF that, of p] p by (auto simp: record_at_def)
  have fin: "\<exists>q. record_at n (dm_actor s) = Some q" if "(n, g) \<in># dm_tasks s" for n g
    using that facts(1) by (auto simp: record_at_def simp flip: facts(3) elim!: pm_tasks_entry intro: pm_inv_map_of)
  show ?thesis
  proof (cases cmd)
    case (CmdStopFinished n g code)
    with tasks have task: "(n, g) \<in># dm_tasks s" by simp
    with fin obtain q where "record_at n (dm_actor s) = Some q" by auto
    from record_at_finish [OF this p, of os g code] last_awaited_task [OF inv task]
      k CmdStopFinished facts(2) show ?thesis
      by (auto simp: handle_command_def)
  qed (use p k all src facts other in \<open>auto simp: handle_command_def record_at_spawn record_at_stop
      record_at_restart [simplified] record_at_auto_restart record_at_watch_restart
      record_at_queries(1,2) [simplified] record_at_queries(3)\<close>)
qed

end
