(* ===== verification/Daemon_Properties.thy ===== *)
theory Daemon_Properties
  imports Daemon
begin

text \<open>
  The properties of the daemon core, over every state the transition system of \<open>Daemon\<close> reaches.
  The witnesses run two client commands, a spawn and a stop, on a machine where everything works.
\<close>

section \<open>A concrete run\<close>

definition example_os :: os_env where
  "example_os =
     \<lparr>os_vars = \<lparr>ev_debug = False, ev_test_runtime_dir = None, ev_xdg_state_home = None,
        ev_home = Some ''/home/u'', ev_euid = 1000\<rparr>,
      os_create = (\<lambda>path. None), os_spawn = (\<lambda>req. Inr (Some 4242)), os_bind = (\<lambda>port. True),
      os_waitid = (\<lambda>pgid. WaitInfo 0 0 False), os_now = 5000, os_watcher = (\<lambda>wc dir. None)\<rparr>"

definition example_spawned :: daemon where
  "example_spawned =
     deliver example_os (CmdSpawn ''npm start'' (Some ''web'') None None None None None 1)
       (daemon_new ''demo'')"

text \<open>The states of the run, evaluated; as code equations they keep the evaluations below short.\<close>

definition example_inc :: incarnation where
  "example_inc = \<lparr>inc_pgid = 4242, inc_capture = [Stdout, Stderr], inc_supervisor = True\<rparr>"

definition example_web :: "life \<Rightarrow> managed_process" where
  "example_web l =
     \<lparr>mp_name = ''web'', mp_id = ''p1'', mp_command = ''npm start'', mp_cwd = None, mp_env = [],
      mp_pid = 4242, mp_started_at = 5000, mp_port = None, mp_restart_policy = None,
      mp_watch_config = None, mp_restart_count = 0, mp_generation = 1, mp_life = l,
      mp_watch_handle = None\<rparr>"

definition example_actor :: "life \<Rightarrow> stop_all_batch option \<Rightarrow> actor" where
  "example_actor l batch =
     \<lparr>ac_pm = \<lparr>pm_processes = [(''web'', example_web l)], pm_id_counter = \<lparr>ic_next_id = 2\<rparr>,
        pm_next_generation = 1, pm_session = ''demo'',
        pm_port_allocator = \<lparr>pa_proxy_enabled = False, pa_next_auto_port = 4000\<rparr>\<rparr>,
      ac_proxy_state = [], ac_proxy_port = None, ac_stop_all = batch, ac_outbox = [],
      ac_panicked = False\<rparr>"

lemma example_spawned_eq [code]:
  "example_spawned =
     \<lparr>dm_actor = example_actor (Running example_inc) None, dm_tasks = {#}, dm_sources = {},
      dm_asked = {#1#}, dm_answered = {#1#}, dm_started = {#example_inc#}, dm_released = {#}\<rparr>"
  unfolding example_spawned_def by code_simp

definition example_stopping :: daemon where
  "example_stopping = deliver example_os (CmdStop ''web'' 2) example_spawned"

lemma example_stopping_eq [code]:
  "example_stopping =
     \<lparr>dm_actor = example_actor (Stopping None Park [WaitStop 2]) None, dm_tasks = {#(''web'', 1)#},
      dm_sources = {}, dm_asked = {#1, 2#}, dm_answered = {#1#}, dm_started = {#example_inc#},
      dm_released = {#example_inc#}\<rparr>"
  unfolding example_stopping_def by code_simp

definition example_stop_all :: daemon where
  "example_stop_all = deliver example_os (CmdStopAll 2) example_spawned"

lemma example_stop_all_eq [code]:
  "example_stop_all =
     \<lparr>dm_actor = example_actor (Stopping None Park [])
        (Some \<lparr>sab_remaining = [''web''], sab_replies = [2]\<rparr>),
      dm_tasks = {#(''web'', 1)#}, dm_sources = {}, dm_asked = {#1, 2#}, dm_answered = {#1#},
      dm_started = {#example_inc#}, dm_released = {#example_inc#}\<rparr>"
  unfolding example_stop_all_def by code_simp

lemma example_spawned_reachable: "reaches daemon_step (daemon_new ''demo'') example_spawned"
  unfolding example_spawned_def
  by (rule reaches.there, rule reaches.here, rule daemon_step.client) simp_all

lemma example_stopping_reachable: "reaches daemon_step (daemon_new ''demo'') example_stopping"
  unfolding example_stopping_def
  by (rule reaches.there, rule example_spawned_reachable, rule daemon_step.client) simp_all

lemma example_stop_all_reachable: "reaches daemon_step (daemon_new ''demo'') example_stop_all"
  unfolding example_stop_all_def
  by (rule reaches.there, rule example_spawned_reachable, rule daemon_step.client) simp_all

section \<open>Safety of the table and of the teardowns\<close>

text \<open>C1: the \<open>unreachable!()\<close> arms of the actor are never reached: no sequence of client
  commands, teardown reports, timers, watcher events and ticks, in any order and whatever the
  operating system answers, makes the actor panic.\<close>

theorem daemon_never_panics:
  assumes "reaches daemon_step (daemon_new session) s"
  shows "\<not> ac_panicked (dm_actor s)"
  using daemon_inv_facts(2) [OF reachable_inv [OF assms]] .

theorem daemon_never_panics_witness: "\<not> ac_panicked (dm_actor example_stopping)"
  by (rule daemon_never_panics [OF example_stopping_reachable])

text \<open>C2: the teardown tasks in flight are exactly the stopping records: there is one task for
  \<open>(name, generation)\<close> when the record of that name is stopping in that generation, and none
  otherwise. So no process group is torn down twice at the same time, and no record is left
  stopping with nothing under way to finish it.\<close>

theorem one_teardown_per_stopping_record:
  assumes "reaches daemon_step (daemon_new session) s"
  shows "count (dm_tasks s) (n, g) =
    (case hm_get (pm_processes (ac_pm (dm_actor s))) n of
       None \<Rightarrow> 0
     | Some p \<Rightarrow> if mp_generation p = g \<and> is_stopping (mp_life p) then 1 else 0)"
proof -
  note facts = daemon_inv_facts [OF reachable_inv [OF assms]]
  have "distinct (hm_keys (pm_processes (ac_pm (dm_actor s))))"
    using facts(1) by (simp add: pm_inv_def)
  from count_tasks [OF this, of n g] show ?thesis
    by (simp add: pm_tasks_def flip: facts(3) split: option.split)
qed

theorem one_teardown_per_stopping_record_witness:
  "count (dm_tasks example_stopping) (''web'', 1) =
    (case hm_get (pm_processes (ac_pm (dm_actor example_stopping))) ''web'' of
       None \<Rightarrow> 0
     | Some p \<Rightarrow> if mp_generation p = 1 \<and> is_stopping (mp_life p) then 1 else 0)"
  by (rule one_teardown_per_stopping_record [OF example_stopping_reachable])

section \<open>Replies\<close>

text \<open>C3: no reply is lost and none is sent twice. At every moment the clients that asked are
  those answered (each as often as it asked), those waiting on a stopping record and those waiting
  for the running stop-all.\<close>

theorem replies_accounted:
  assumes "reaches daemon_step (daemon_new session) s"
  shows "dm_asked s = dm_answered s + pm_waiters (ac_pm (dm_actor s))
    + batch_waiters (ac_stop_all (dm_actor s))"
  using daemon_inv_facts(4) [OF reachable_inv [OF assms]] .

theorem replies_accounted_witness:
  "dm_asked example_stopping = dm_answered example_stopping
    + pm_waiters (ac_pm (dm_actor example_stopping))
    + batch_waiters (ac_stop_all (dm_actor example_stopping))"
  by (rule replies_accounted [OF example_stopping_reachable])

text \<open>C4: nobody waits for ever. From every reachable state, once the teardowns in flight have
  reported, in any order and with any exit codes, and even if the respawns they lead to fail, every
  client that asked has been answered and no stop-all is pending.\<close>

theorem everybody_is_answered:
  assumes "reaches daemon_step (daemon_new session) s" and "mset tasks = dm_tasks s"
  shows "dm_answered (drain os codes tasks s) = dm_asked s \<and>
    ac_stop_all (dm_actor (drain os codes tasks s)) = None"
proof -
  let ?t = "drain os codes tasks s"
  note t = drain_tasks [OF reachable_inv [OF assms(1)] assms(2), of os codes]
  from idle_no_waiters [OF t(1,2)] daemon_inv_facts(4) [OF t(1)] t(3)
  show ?thesis by simp
qed

theorem everybody_is_answered_witness:
  "dm_answered (drain example_os (\<lambda>n. Some 0) [(''web'', 1)] example_stopping) = dm_asked example_stopping \<and>
    ac_stop_all (dm_actor (drain example_os (\<lambda>n. Some 0) [(''web'', 1)] example_stopping)) = None"
proof (rule everybody_is_answered [OF example_stopping_reachable])
  show "mset [(''web'', 1)] = dm_tasks example_stopping" by code_simp
qed

section \<open>Incarnations\<close>

text \<open>C5: no child is lost. Every incarnation that was started (a child process, its capture tasks)
  is either held by a record of the table or has been handed to a teardown task.\<close>

theorem incarnations_accounted:
  assumes "reaches daemon_step (daemon_new session) s"
  shows "dm_started s = dm_released s + pm_held (ac_pm (dm_actor s))"
  using daemon_inv_facts(5) [OF reachable_inv [OF assms]] .

theorem incarnations_accounted_witness:
  "dm_started example_stopping = dm_released example_stopping + pm_held (ac_pm (dm_actor example_stopping))"
  by (rule incarnations_accounted [OF example_stopping_reachable])

text \<open>C6: automatic restarts stay within the budget. In every reachable state the restart count
  of a record is at most its policy's \<open>max_restarts\<close>, and a restart is only ever scheduled below it;
  the 32-bit count does not wrap around on the way.\<close>

theorem restart_budget:
  assumes "reaches daemon_step (daemon_new session) s"
    and "hm_get (pm_processes (ac_pm (dm_actor s))) k = Some p"
    and "mp_restart_policy p = Some policy" and "rp_max_restarts policy = Some m"
  shows "mp_restart_count p \<le> m \<and> (timer_armed (mp_life p) \<longrightarrow> mp_restart_count p < m)"
  using pm_inv_entry(1) [OF daemon_inv_facts(1) [OF reachable_inv [OF assms(1)]] assms(2)] assms(3,4)
  by (simp add: proc_ok_defs)

definition example_policy :: restart_policy where
  "example_policy = \<lparr>rp_mode = Always, rp_max_restarts = Some 3, rp_restart_delay_ms = 1000\<rparr>"

definition example_restartable :: daemon where
  "example_restartable =
     deliver example_os (CmdSpawn ''npm start'' (Some ''web'') None None None (Some example_policy) None 1)
       (daemon_new ''demo'')"

lemma example_restartable_reachable: "reaches daemon_step (daemon_new ''demo'') example_restartable"
  unfolding example_restartable_def
  by (rule reaches.there, rule reaches.here, rule daemon_step.client) simp_all

theorem restart_budget_witness:
  "\<exists>p. hm_get (pm_processes (ac_pm (dm_actor example_restartable))) ''web'' = Some p \<and>
     mp_restart_count p \<le> 3"
proof -
  have "map_option mp_restart_policy (hm_get (pm_processes (ac_pm (dm_actor example_restartable))) ''web'')
      = Some (Some example_policy)" by code_simp
  then obtain p where p: "hm_get (pm_processes (ac_pm (dm_actor example_restartable))) ''web'' = Some p"
    and "mp_restart_policy p = Some example_policy" by auto
  with restart_budget [OF example_restartable_reachable p, of example_policy 3]
  show ?thesis by (simp add: example_policy_def)
qed

text \<open>C7: the table stays well formed. Each record is stored under its own name, a name never
  contains a separator, \<open>..\<close> or NUL (so its log paths stay inside the log directory), generations
  identify records, and a watcher belongs to the current spawn of a record that holds one.\<close>

theorem table_well_formed:
  assumes "reaches daemon_step (daemon_new session) s"
    and "hm_get (pm_processes (ac_pm (dm_actor s))) k = Some p"
  shows "mp_name p = k \<and> \<not> invalid_name k \<and> mp_generation p \<le> pm_next_generation (ac_pm (dm_actor s)) \<and>
    (\<forall>k' p'. hm_get (pm_processes (ac_pm (dm_actor s))) k' = Some p' \<and>
       mp_generation p' = mp_generation p \<longrightarrow> k' = k) \<and>
    (\<forall>h. mp_watch_handle p = Some h \<longrightarrow>
       wh_name h = k \<and> wh_generation h = mp_generation p \<and> life_inc (mp_life p) \<noteq> None)"
proof -
  note inv = daemon_inv_facts(1) [OF reachable_inv [OF assms(1)]]
  from pm_inv_entry [OF inv assms(2)] show ?thesis
    using map_of_SomeD [OF assms(2)] pm_inv_generation [OF inv]
    by (auto simp: proc_ok_def watch_ok_def dest!: map_of_SomeD)
qed

theorem table_well_formed_witness:
  "\<exists>p. hm_get (pm_processes (ac_pm (dm_actor example_spawned))) ''web'' = Some p \<and>
     mp_name p = ''web'' \<and> \<not> invalid_name ''web''"
proof -
  have "hm_get (pm_processes (ac_pm (dm_actor example_spawned))) ''web'' \<noteq> None" by code_simp
  then obtain p where p: "hm_get (pm_processes (ac_pm (dm_actor example_spawned))) ''web'' = Some p" by auto
  from table_well_formed [OF example_spawned_reachable p] p show ?thesis by auto
qed

section \<open>Delayed messages\<close>

text \<open>C8: a message of an old spawn is dead for good. Once no record has generation \<open>g\<close> any more
  (the process was restarted, or everything was stopped), a restart timer or a watcher event for
  \<open>g\<close> changes nothing, in that state and in every later one.\<close>

theorem stale_message_ignored:
  assumes "reaches daemon_step (daemon_new session) s" and "reaches daemon_step s t"
    and "g \<le> pm_next_generation (ac_pm (dm_actor s))"
    and "\<forall>(k, p) \<in> set (pm_processes (ac_pm (dm_actor s))). mp_generation p \<noteq> g"
  shows "handle_auto_restart n g (dm_actor t) = dm_actor t \<and>
    handle_watch_restart n g (dm_actor t) = dm_actor t"
proof -
  let ?X = "{(n, g), (n @ ''x'', g)}"
  have "daemon_inv_on {} s" using reachable_inv [OF assms(1)] by (simp add: daemon_inv_def)
  then have "daemon_inv_on ?X s"
    using assms(3,4) by (auto simp: daemon_inv_on_def good_def balanced_def sound_source_def)
  then have "daemon_inv_on ?X t" by (rule tracked.inv_along [OF assms(2)])
  then have sound: "sound_source (ac_pm (dm_actor t)) (n, g)" "sound_source (ac_pm (dm_actor t)) (n @ ''x'', g)"
    and inv: "pm_inv (ac_pm (dm_actor t))"
    by (auto simp: daemon_inv_on_def good_def balanced_def)
  have "mp_generation p \<noteq> g" if "find_entry (ac_pm (dm_actor t)) n = Some (k, p)" for k p
  proof
    assume "mp_generation p = g"
    moreover have "(k, p) \<in> set (pm_processes (ac_pm (dm_actor t)))"
      using find_entry_inv(1) [OF inv that] by (rule map_of_SomeD)
    ultimately show False using sound by (auto simp: sound_source_def)
  qed
  then show ?thesis
    by (auto simp: handle_auto_restart_def handle_watch_restart_def
        split: option.split life.split exit_why.split bool.split)
qed

theorem stale_message_ignored_witness:
  "handle_auto_restart ''web'' 0 (dm_actor example_stopping) = dm_actor example_stopping \<and>
    handle_watch_restart ''web'' 0 (dm_actor example_stopping) = dm_actor example_stopping"
proof (rule stale_message_ignored [OF example_spawned_reachable])
  show "reaches daemon_step example_spawned example_stopping"
    unfolding example_stopping_def
    by (rule reaches.there, rule reaches.here, rule daemon_step.client) simp_all
  show "\<forall>(k, p) \<in> set (pm_processes (ac_pm (dm_actor example_spawned))). mp_generation p \<noteq> 0"
    by code_simp
qed simp

end
