(* ===== verification/Stop_Properties.thy ===== *)
theory Stop_Properties
  imports Isolation Daemon_Properties
begin

text \<open>
  What stopping promises: a stopped process stays stopped until a client restarts it, a stop-all
  starts nothing and ends with an empty table, a command leaves the other processes alone, and the
  waiters of a stopping record get the answer that fits what happened.
\<close>

section \<open>Other processes\<close>

text \<open>C9: a command leaves the other processes alone. Unless the command is a stop-all, or the
  record is the one the command names, the record after the command is the record before it, or
  the same with an exit that the operating system reported now. There is one exception, and it is
  the end of a stop-all: while one is running, the report of the only teardown still in flight
  empties the table.\<close>

theorem other_processes_untouched:
  assumes "reaches daemon_step (daemon_new session) s"
    and "cmd_tasks cmd \<subseteq># dm_tasks s" and "cmd_sources cmd \<subseteq> dm_sources s"
    and "hm_get (pm_processes (ac_pm (dm_actor s))) k = Some p"
    and "\<not> is_stop_all cmd"
    and "\<And>t q. cmd_target cmd = Some t \<Longrightarrow> find_entry (ac_pm (dm_actor s)) t \<noteq> Some (k, q)"
  shows "hm_get (pm_processes (ac_pm (dm_actor (deliver os cmd s)))) k \<in> {Some p, Some (observed os p)} \<or>
    pm_processes (ac_pm (dm_actor (deliver os cmd s))) = [] \<and>
      ac_stop_all (dm_actor s) \<noteq> None \<and>
      (\<exists>n g code. cmd = CmdStopFinished n g code \<and> dm_tasks s = {#(n, g)#})"
  using handle_command_record [OF reachable_inv [OF assms(1)] assms(2,3) _ assms(5,6), of p os] assms(4)
  by (simp add: deliver_def absorb_def record_at_def)

definition example_two :: daemon where
  "example_two =
     deliver example_os (CmdSpawn ''sleep 9'' (Some ''db'') None None None None None 2) example_spawned"

lemma example_two_reachable: "reaches daemon_step (daemon_new ''demo'') example_two"
  unfolding example_two_def
  by (rule reaches.there, rule example_spawned_reachable, rule daemon_step.client) simp_all

theorem other_processes_untouched_witness:
  "\<exists>p. hm_get (pm_processes (ac_pm (dm_actor example_two))) ''db'' = Some p \<and>
     hm_get (pm_processes (ac_pm (dm_actor (deliver example_os (CmdStop ''web'' 3) example_two)))) ''db''
        \<in> {Some p, Some (observed example_os p)}"
proof -
  have "hm_get (pm_processes (ac_pm (dm_actor example_two))) ''db'' \<noteq> None" by code_simp
  then obtain p where p: "hm_get (pm_processes (ac_pm (dm_actor example_two))) ''db'' = Some p" by auto
  have "map_option fst (find_entry (ac_pm (dm_actor example_two)) ''web'') = Some ''web''" by code_simp
  then have other: "find_entry (ac_pm (dm_actor example_two)) ''web'' \<noteq> Some (''db'', q)" for q by auto
  have rest: "find_entry (ac_pm (dm_actor example_two)) t \<noteq> Some (''db'', q)"
    if "cmd_target (CmdStop ''web'' 3) = Some t" for t q
    using other that by simp
  from other_processes_untouched [where cmd = "CmdStop ''web'' 3" and os = example_os,
      OF example_two_reachable _ _ p _ rest] p
  show ?thesis by simp
qed

section \<open>A stopped process\<close>

lemma stopped_command:
  assumes inv: "daemon_inv s" and rec: "record_at k (dm_actor s) = Some p"
    and lf: "mp_life p = Exited code ManualStop None False"
    and c: "cmd_tasks cmd \<subseteq># dm_tasks s" "cmd_sources cmd \<subseteq> dm_sources s"
    and nr: "\<forall>target r. cmd \<noteq> CmdRestart target r"
  shows "pm_processes (ac_pm (handle_command os cmd (dm_actor s))) = [] \<or>
    (\<exists>q. record_at k (handle_command os cmd (dm_actor s)) = Some q \<and>
       mp_life q = mp_life p \<and> mp_generation q = mp_generation p)"
proof -
  note facts = daemon_inv_facts [OF inv]
  have obs: "observed os p = p" for os using lf by (simp add: observed_def)
  show ?thesis
  proof (cases "is_stop_all cmd \<or> (\<exists>t q. cmd_target cmd = Some t \<and> find_entry (ac_pm (dm_actor s)) t = Some (k, q))")
    case False
    with handle_command_record [OF inv c rec, of os] obs rec show ?thesis by (auto simp del: fun_upd_apply)
  next
    case True
    then consider (all) r where "cmd = CmdStopAll r"
      | (target) t q where "cmd_target cmd = Some t" "find_entry (ac_pm (dm_actor s)) t = Some (k, q)"
      by (cases cmd) auto
    then show ?thesis
    proof cases
      case all
      with record_at_stop_all [OF facts(1) rec lf, of os r] facts(2) show ?thesis
        by (auto simp: handle_command_def)
    next
      case target
      have q: "q = p" using find_entry_inv(1) [OF facts(1) target(2)] rec by (simp add: record_at_def)
      show ?thesis
      proof (cases cmd)
        case (CmdStop t' r)
        with target q lf facts(2) show ?thesis
          by (simp add: handle_command_def handle_stop_def Let_def find_entry_refresh obs reply_def)
      next
        case (CmdStopFinished n g c)
        with c(1) have "(n, g) \<in># pm_tasks (ac_pm (dm_actor s))" by (simp add: facts(3))
        then obtain p' leader thn ws where "(n, p') \<in> set (pm_processes (ac_pm (dm_actor s)))"
          and l: "mp_life p' = Stopping leader thn ws" by (rule pm_tasks_entry)
        then have "find_entry (ac_pm (dm_actor s)) n = Some (n, p')"
          by (intro find_entry_key pm_inv_map_of [OF facts(1)])
        with target CmdStopFinished q l lf show ?thesis by simp
      next
        case (CmdAutoRestart n g)
        with target q lf rec show ?thesis
          by (auto simp: handle_command_def handle_auto_restart_def)
      next
        case (CmdWatchRestart n g)
        with target q lf rec show ?thesis
          by (auto simp: handle_command_def handle_watch_restart_def watch_restartable_def)
      qed (use target nr in auto)
    qed
  qed
qed

text \<open>C10: a stopped process stays stopped. Once a stop has completed, no command but a restart (no
  timer, no watcher event, no periodic check, whatever the restart policy) gives the record a new
  life or a new generation; only the end of a stop-all removes it.\<close>

theorem stopped_stays_stopped:
  assumes "reaches daemon_step (daemon_new session) s"
    and "hm_get (pm_processes (ac_pm (dm_actor s))) k = Some p"
    and "mp_life p = Exited code ManualStop None False"
    and "daemon_step s t" and "\<forall>os target r. t \<noteq> deliver os (CmdRestart target r) s"
  shows "pm_processes (ac_pm (dm_actor t)) = [] \<or>
    (\<exists>q. hm_get (pm_processes (ac_pm (dm_actor t))) k = Some q \<and>
       mp_life q = mp_life p \<and> mp_generation q = mp_generation p)"
proof -
  have inv: "daemon_inv s" using reachable_inv [OF assms(1)] .
  note facts = daemon_inv_facts [OF inv]
  have rec: "record_at k (dm_actor s) = Some p" using assms(2) by (simp add: record_at_def)
  have obs: "observed os p = p" for os using assms(3) by (simp add: observed_def)
  from assms(4) show ?thesis
  proof (cases rule: daemon_step_cases)
    case (command cmd os)
    with assms(5) have "\<forall>target r. cmd \<noteq> CmdRestart target r" by blast
    from stopped_command [OF inv rec assms(3) command(2,3) this, of os] show ?thesis
      by (simp add: command(1) deliver_def absorb_def record_at_def)
  next
    case (exit_refresh os)
    have "candidate_of (observed os p) = Skip" using assms(3) by (simp add: obs candidate_of_def)
    from record_at_tick [OF facts(1) rec this] obs exit_refresh show ?thesis
      by (auto simp: absorb_def record_at_def)
  qed
qed

definition example_stopped :: daemon where
  "example_stopped = drain example_os (\<lambda>n. Some 0) [(''web'', 1)] example_stopping"

lemma example_stopped_reachable: "reaches daemon_step (daemon_new ''demo'') example_stopped"
proof -
  have "(''web'', 1) \<in># dm_tasks example_stopping" by code_simp
  then show ?thesis
    unfolding example_stopped_def drain_def
    by (simp, intro reaches.there [OF example_stopping_reachable] daemon_step.torn_down)
qed

theorem stopped_stays_stopped_witness:
  "pm_processes (ac_pm (tick example_os (dm_actor example_stopped))) = [] \<or>
     (\<exists>q. hm_get (pm_processes (ac_pm (tick example_os (dm_actor example_stopped)))) ''web'' = Some q \<and>
        mp_life q = Exited (Some 0) ManualStop None False)"
proof -
  have "map_option mp_life (hm_get (pm_processes (ac_pm (dm_actor example_stopped))) ''web'')
      = Some (Exited (Some 0) ManualStop None False)" by code_simp
  then obtain p where p: "hm_get (pm_processes (ac_pm (dm_actor example_stopped))) ''web'' = Some p"
    and l: "mp_life p = Exited (Some 0) ManualStop None False" by auto
  let ?t = "absorb {#} {#} (tick example_os (dm_actor example_stopped)) example_stopped"
  have "\<forall>os target r. ?t \<noteq> deliver os (CmdRestart target r) example_stopped"
  proof (intro allI notI)
    fix os target r
    assume "?t = deliver os (CmdRestart target r) example_stopped"
    from arg_cong [where f = dm_asked, OF this] show False by (simp add: absorb_def deliver_def)
  qed
  from stopped_stays_stopped [OF example_stopped_reachable p l daemon_step.exit_refresh this] l
  show ?thesis by (auto simp: absorb_def)
qed

section \<open>A stop-all\<close>

lemma started_replies [simp]:
  "started_of (map (waiter_reply n resp) ws) = {#}"
  "started_of (map (\<lambda>r. Reply r v) rs) = {#}"
  by simp (induction rs; simp)

lemma finish_stop_all_started [simp]:
  "started_of (ac_outbox (finish_stop_all a)) = started_of (ac_outbox a)"
  by (simp add: finish_stop_all_def split: option.split)

lemma stop_all_command:
  assumes inv: "daemon_inv s" and b: "ac_stop_all (dm_actor s) = Some b"
    and c: "cmd_tasks cmd \<subseteq># dm_tasks s" "cmd_sources cmd \<subseteq> dm_sources s"
  shows "started_of (ac_outbox (handle_command os cmd (dm_actor s))) = {#} \<and>
    (ac_stop_all (handle_command os cmd (dm_actor s)) \<noteq> None \<or>
     pm_processes (ac_pm (handle_command os cmd (dm_actor s))) = [])"
proof -
  let ?a = "dm_actor s"
  note facts = daemon_inv_facts [OF inv]
  have entry: "settled (sab_remaining b) k p" if "find_entry (ac_pm ?a) t = Some (k, p)" for t k p
    using batch_ok_entry [OF facts(6) b find_entry_inv(1) [OF facts(1) that]] .
  have same: "observed os p = p" if "settled rest k p" for rest k p
    using that by (cases rule: settled_cases) (auto simp: observed_def)
  show ?thesis
  proof (cases cmd)
    case (CmdStop target r)
    show ?thesis
    proof (cases "find_entry (ac_pm ?a) target")
      case (Some e)
      obtain k p where e: "e = (k, p)" by force
      note st = entry [OF Some [unfolded e]]
      from st show ?thesis
      proof (cases rule: settled_cases)
        case (stopping leader ws)
        then show ?thesis using CmdStop Some e facts(2,7) b
          by (simp add: handle_command_def handle_stop_def Let_def find_entry_refresh same [OF st])
      next
        case (parked code why timer)
        then show ?thesis using CmdStop Some e facts(2,7) b
          by (simp add: handle_command_def handle_stop_def Let_def find_entry_refresh same [OF st] reply_def)
      qed
    qed (use CmdStop facts(2,7) b in
        \<open>simp add: handle_command_def handle_stop_def Let_def find_entry_refresh reply_def\<close>)
  next
    case (CmdStopFinished n g code)
    with c(1) have "(n, g) \<in># pm_tasks (ac_pm ?a)" by (simp add: facts(3))
    then obtain p leader thn ws where "(n, p) \<in> set (pm_processes (ac_pm ?a))" and g: "mp_generation p = g"
      and l: "mp_life p = Stopping leader thn ws" by (rule pm_tasks_entry)
    then have e: "find_entry (ac_pm ?a) n = Some (n, p)"
      by (intro find_entry_key pm_inv_map_of [OF facts(1)])
    from entry [OF e] l have park: "thn = Park" by (cases rule: settled_cases) auto
    show ?thesis
      using CmdStopFinished e g l facts(2,7) b
      by (auto simp: handle_command_def finish_teardown_def park Let_def finish_stop_all_def pm_clear_def)
  qed (use facts(2,7) b c in \<open>auto simp: handle_command_def handle_spawn_def handle_restart_def
      handle_stop_all_def handle_status_def build_status_def handle_is_process_exited_def
      handle_enable_proxy_def handle_auto_restart_def handle_watch_restart_def reply_def Let_def
      split_beta split: option.split\<close>)
qed

text \<open>C11: a stop-all is final. While it waits, every record is stopping for good or has stopped, no
  step of the daemon (no client command, timer, watcher event or check) starts a process, and it
  ends only with an empty table.\<close>

theorem stop_all_starts_nothing:
  assumes "reaches daemon_step (daemon_new session) s" and "ac_stop_all (dm_actor s) = Some b"
    and "daemon_step s t"
  shows "(\<forall>(k, p) \<in> set (pm_processes (ac_pm (dm_actor s))). settled (sab_remaining b) k p) \<and>
    dm_started t = dm_started s \<and>
    (ac_stop_all (dm_actor t) \<noteq> None \<or> pm_processes (ac_pm (dm_actor t)) = [])"
proof -
  note inv = reachable_inv [OF assms(1)]
  note facts = daemon_inv_facts [OF inv]
  have "\<forall>(k, p) \<in> set (pm_processes (ac_pm (dm_actor s))). settled (sab_remaining b) k p"
    using facts(6) assms(2) by (auto simp: batch_ok_def)
  moreover have "dm_started t = dm_started s \<and>
    (ac_stop_all (dm_actor t) \<noteq> None \<or> pm_processes (ac_pm (dm_actor t)) = [])"
    using assms(3)
  proof (cases rule: daemon_step_cases)
    case (command cmd os)
    with stop_all_command [OF inv assms(2) command(2,3), of os] show ?thesis
      by (auto simp: deliver_def absorb_def)
  next
    case (exit_refresh os)
    with facts(2,7) assms(2) show ?thesis
      by (auto simp: absorb_def tick_def Let_def schedule_restarts_def)
  qed
  ultimately show ?thesis by blast
qed

theorem stop_all_starts_nothing_witness:
  "dm_started (absorb {#} {#} (tick example_os (dm_actor example_stop_all)) example_stop_all)
     = dm_started example_stop_all"
proof -
  have "ac_stop_all (dm_actor example_stop_all) \<noteq> None" by code_simp
  then obtain b where "ac_stop_all (dm_actor example_stop_all) = Some b" by auto
  from stop_all_starts_nothing [OF example_stop_all_reachable this daemon_step.exit_refresh]
  show ?thesis by blast
qed

end
