(* ===== verification/Restart_Properties.thy ===== *)
theory Restart_Properties
  imports Isolation Daemon_Properties
begin

text \<open>
  What follows a teardown: a parked record answers its waiters and holds nothing; a restart makes
  one attempt to spawn, and the record afterwards is running in a new generation or failed. The
  last request decides which of the two happens.
\<close>

section \<open>One respawn\<close>

definition counted :: "respawn_reason \<Rightarrow> managed_process \<Rightarrow> managed_process" where
  "counted reason p = (if reason = ManualRestart then p\<lparr>mp_restart_count := 0\<rparr> else p)"

lemma record_at_setup_watcher_same:
  assumes "record_at j a = Some p"
  obtains q where "record_at j (snd (setup_watcher os j a)) = Some q"
    and "mp_life q = mp_life p" and "mp_generation q = mp_generation p"
    and "mp_restart_count q = mp_restart_count p" and "mp_restart_policy q = mp_restart_policy p"
    and "mp_id q = mp_id p" and "mp_port q = mp_port p"
proof -
  note run = setup_watcher_def pm_find_key [OF assms [unfolded record_at_def]]
  note mut = record_at_find_mut [OF assms, of j]
  show thesis
  proof (cases "mp_watch_config p")
    case None
    with assms show thesis by (intro that [of p]) (simp_all add: run)
  next
    case (Some wc)
    show thesis
    proof (cases "os_watcher os wc (case mp_cwd p of None \<Rightarrow> ''.'' | Some d \<Rightarrow> d)")
      case None
      with Some show thesis
        by (intro that [of "p\<lparr>mp_watch_handle := Some \<lparr>wh_name = j, wh_generation = mp_generation p\<rparr>\<rparr>"])
          (simp_all add: run mut)
    next
      case (Some e)
      with \<open>mp_watch_config p = Some wc\<close> show thesis
        by (intro that [of "p\<lparr>mp_watch_config := None\<rparr>"]) (simp_all add: run mut)
    qed
  qed
qed

lemma respawn_outcome:
  assumes p: "record_at j a = Some p" and inv: "pm_inv (ac_pm a)"
    and l: "mp_life p = Exited code why None False"
    and run: "respawn os j reason prev a = (resp, a')"
  obtains
    (failed) msg where "respawn_attempt os (pm_session (ac_pm a)) p = Inl msg"
      and "resp = RespError General msg"
      and "record_at j a' = Some ((counted reason p)\<lparr>mp_pid := 0, mp_life := Exited code SpawnFailed None False\<rparr>)"
  | (spawned) inc pid i q where "respawn_attempt os (pm_session (ac_pm a)) p = Inr (inc, pid)"
      and "resp = RespRunOk j i pid (mp_port p) (map_option (\<lambda>q. process_url j q None) (mp_port p))"
      and "record_at j a' = Some q" and "mp_life q = Running inc"
      and "mp_generation q = Suc (pm_next_generation (ac_pm a))"
      and "mp_restart_count q = mp_restart_count (counted reason p)"
      and "mp_restart_policy q = mp_restart_policy p"
proof -
  define a1 where "a1 = (if reason = ManualRestart
    then on_pm (find_mut j (\<lambda>p. p\<lparr>mp_restart_count := 0\<rparr>)) a else a)"
  have name: "mp_name p = j" using pm_inv_entry(1) [OF inv] p by (auto simp: record_at_def proc_ok_def)
  have j1: "record_at j a1 = Some (counted reason p)"
    using p by (simp add: a1_def counted_def record_at_find_mut [OF p])
  then have p1: "hm_get (pm_processes (ac_pm a1)) j = Some (counted reason p)"
    by (simp add: record_at_def)
  have frame: "pm_session (ac_pm a1) = pm_session (ac_pm a)"
    "pm_next_generation (ac_pm a1) = pm_next_generation (ac_pm a)"
    using p by (simp_all add: a1_def find_mut_key record_at_def)
  have attempt: "respawn_attempt os s (counted reason p) = respawn_attempt os s p" for s
    by (simp add: respawn_attempt_def counted_def)
  have port: "mp_port (counted reason p) = mp_port p" "mp_name (counted reason p) = j"
    "mp_life (counted reason p) = mp_life p" "mp_restart_policy (counted reason p) = mp_restart_policy p"
    using name by (simp_all add: counted_def)
  obtain r rotated child pm where re:
    "pm_respawn os j (reason \<noteq> ManualRestart) (ac_pm a1) = (r, rotated, child, pm)"
    using prod_cases4 by blast
  define a2 where "a2 = start_child child (emit (map RotateLogs rotated) (a1\<lparr>ac_pm := pm\<rparr>))"
  note run' = run [unfolded respawn_def Let_def, folded a1_def, unfolded re prod.case, folded a2_def]
  from p1 re show thesis
  proof (cases rule: pm_respawn_cases)
    case (failed msg q)
    have "record_at j a2 = Some q" using failed by (simp add: a2_def record_at_def)
    with run' failed(1) have "resp = RespError General msg \<and> record_at j a' = Some q"
      by (auto split: if_splits)
    then show thesis
      using failed(6,7) port l frame attempt by (intro that(1) [of msg]) simp_all
  next
    case (spawned i pid inc q)
    let ?a3 = "case restart_marker reason (pm_find (ac_pm a2) j) prev of
      None \<Rightarrow> a2 | Some msg \<Rightarrow> supervisor_line j msg a2"
    have "record_at j ?a3 = Some q" using spawned by (auto simp: a2_def record_at_def split: option.split)
    then obtain q' where q': "record_at j (snd (setup_watcher os j ?a3)) = Some q'"
      and same: "mp_life q' = mp_life q" "mp_generation q' = mp_generation q"
        "mp_restart_count q' = mp_restart_count q" "mp_restart_policy q' = mp_restart_policy q"
      by (rule record_at_setup_watcher_same)
    have "resp = RespRunOk j i pid (mp_port p) (map_option (\<lambda>q. process_url j q None) (mp_port p)) \<and>
        a' = snd (setup_watcher os j ?a3)"
      using run' spawned(1) port by (simp add: Let_def)
    then show thesis
      using spawned(6,8) port frame attempt q' same
      by (intro that(2) [of inc pid i q']) simp_all
  qed
qed

section \<open>The report of a teardown\<close>

text \<open>A stop that completes. When the teardown of a record that is to be parked reports, and no
  stop-all is running, the record is stopped with the reported exit code and holds nothing, every
  client that asked to stop it is told so, every client whose restart it overtook gets the error,
  in the order they asked, and nothing else is sent.\<close>

theorem parked_teardown:
  assumes "reaches daemon_step (daemon_new session) s"
    and "hm_get (pm_processes (ac_pm (dm_actor s))) n = Some p"
    and "mp_life p = Stopping leader Park ws" and "ac_stop_all (dm_actor s) = None"
  shows "hm_get (pm_processes (ac_pm (handle_command os (CmdStopFinished n (mp_generation p) code) (dm_actor s)))) n
      = Some (p\<lparr>mp_life := Exited code ManualStop None False\<rparr>) \<and>
    ac_outbox (handle_command os (CmdStopFinished n (mp_generation p) code) (dm_actor s))
      = map (\<lambda>w. case w of
               WaitStop r \<Rightarrow> Reply r (RResponse (RespOk (''stopped '' @ n)))
             | WaitRestart r \<Rightarrow> Reply r (RResponse (RespError General ''restart superseded by stop''))) ws"
proof -
  note facts = daemon_inv_facts [OF reachable_inv [OF assms(1)]]
  have "waiter_reply n (actor_error ''restart superseded by stop'') = (\<lambda>w. case w of
      WaitStop r \<Rightarrow> Reply r (RResponse (RespOk (''stopped '' @ n)))
    | WaitRestart r \<Rightarrow> Reply r (RResponse (RespError General ''restart superseded by stop'')))"
    by (auto simp: fun_eq_iff stopped_def actor_error_def split: waiter.split)
  then show ?thesis
    using facts(2,7) assms
    by (simp add: handle_command_def finish_teardown_def Let_def split: waiter.split)
qed

theorem parked_teardown_witness:
  "ac_outbox (handle_command example_os (CmdStopFinished ''web'' 1 (Some 0)) (dm_actor example_stopping))
     = [Reply 2 (RResponse (RespOk (''stopped '' @ ''web'')))]"
proof -
  have p: "hm_get (pm_processes (ac_pm (dm_actor example_stopping))) ''web''
      = Some (example_web (Stopping None Park [WaitStop 2]))"
    and b: "ac_stop_all (dm_actor example_stopping) = None"
    by (simp_all add: example_stopping_eq example_actor_def)
  from parked_teardown [where os = example_os and code = "Some 0", OF example_stopping_reachable p _ b]
  show ?thesis by (simp add: example_web_def)
qed

text \<open>C13: a restart makes exactly one attempt. When the teardown of a record that is to be respawned
  reports, the record is running the child of that attempt in a new generation (with the restart
  count reset if a client asked for the restart, kept otherwise), or, when the attempt failed, it is
  failed, holds nothing, and no periodic check will pick it up again; the clients that asked for the
  restart get that outcome.\<close>

theorem respawned_teardown:
  assumes "reaches daemon_step (daemon_new session) s"
    and "hm_get (pm_processes (ac_pm (dm_actor s))) n = Some p"
    and "mp_life p = Stopping leader (Respawn reason) ws"
  shows "\<exists>q. hm_get (pm_processes (ac_pm
        (handle_command os (CmdStopFinished n (mp_generation p) code) (dm_actor s)))) n = Some q \<and>
      mp_restart_count q = (if reason = ManualRestart then 0 else mp_restart_count p) \<and>
      (case respawn_attempt os (pm_session (ac_pm (dm_actor s))) p of
         Inl msg \<Rightarrow>
           mp_life q = Exited code SpawnFailed None False \<and> candidate_of q = Skip \<and>
           (\<forall>r. WaitRestart r \<in> set ws \<longrightarrow> Reply r (RResponse (RespError General msg))
              \<in> set (ac_outbox (handle_command os (CmdStopFinished n (mp_generation p) code) (dm_actor s))))
       | Inr (inc, pid) \<Rightarrow>
           mp_life q = Running inc \<and>
           mp_generation q = Suc (pm_next_generation (ac_pm (dm_actor s))) \<and>
           (\<forall>r. WaitRestart r \<in> set ws \<longrightarrow> (\<exists>i url. Reply r (RResponse (RespRunOk n i pid (mp_port p) url))
              \<in> set (ac_outbox (handle_command os (CmdStopFinished n (mp_generation p) code) (dm_actor s))))))"
proof -
  let ?a = "dm_actor s"
  note facts = daemon_inv_facts [OF reachable_inv [OF assms(1)]]
  have e: "find_entry (ac_pm ?a) n = Some (n, p)" by (rule find_entry_key [OF assms(2)])
  have idle: "ac_stop_all ?a = None"
    using batch_ok_entry [OF facts(6) _ assms(2)] assms(3)
    by (cases "ac_stop_all ?a") (auto simp: settled_def)
  let ?q = "p\<lparr>mp_life := Exited code ManualStop None False\<rparr>"
  define a1 where "a1 = on_pm (set_proc n ?q) ?a"
  have j1: "record_at n a1 = Some ?q" by (simp add: a1_def)
  have ok: "proc_ok n p" using pm_inv_entry(1) [OF facts(1) assms(2)] .
  have inv1: "pm_inv (ac_pm a1)"
    unfolding a1_def using ok assms(3)
    by (simp, intro pm_inv_set_proc [OF facts(1) assms(2)]) (auto simp: proc_ok_defs split: option.splits)
  have frame: "pm_session (ac_pm a1) = pm_session (ac_pm ?a)"
    "pm_next_generation (ac_pm a1) = pm_next_generation (ac_pm ?a)" by (simp_all add: a1_def)
  have attempt: "respawn_attempt os x ?q = respawn_attempt os x p" for x
    by (simp add: respawn_attempt_def)
  obtain resp a2 where run: "respawn os n reason code a1 = (resp, a2)" by force
  let ?fin = "handle_command os (CmdStopFinished n (mp_generation p) code) ?a"
  have "ac_stop_all a2 = None" using respawn_frame(1) [OF run] idle by (simp add: a1_def)
  then have fin: "?fin = publish_proxy_state (emit (map (waiter_reply n resp) ws) a2)"
    using finish_teardown_run [where os = os and code = code and resp = resp and ?a2.0 = a2,
      OF e refl assms(3)] run facts(2)
    by (simp add: handle_command_def a1_def)
  have replies: "Reply r (RResponse resp) \<in> set (ac_outbox ?fin)" if "WaitRestart r \<in> set ws" for r
    using that by (force simp: fin)
  have rec: "hm_get (pm_processes (ac_pm ?fin)) n = record_at n a2"
    by (simp add: fin record_at_def)
  have "mp_life ?q = Exited code ManualStop None False" by simp
  from j1 inv1 this run show ?thesis
  proof (cases rule: respawn_outcome)
    case (failed msg)
    then show ?thesis
      using replies by (auto simp: rec frame attempt counted_def candidate_of_def)
  next
    case (spawned inc pid i q)
    then show ?thesis
      using replies by (auto simp: rec frame attempt counted_def)
  qed
qed

definition example_restarting :: daemon where
  "example_restarting = deliver example_os (CmdRestart ''web'' 2) example_spawned"

lemma example_restarting_reachable: "reaches daemon_step (daemon_new ''demo'') example_restarting"
  unfolding example_restarting_def
  by (rule reaches.there, rule example_spawned_reachable, rule daemon_step.client) simp_all

theorem respawned_teardown_witness:
  "\<exists>q. hm_get (pm_processes (ac_pm
     (handle_command example_os (CmdStopFinished ''web'' 1 None) (dm_actor example_restarting)))) ''web'' = Some q \<and>
     mp_restart_count q = 0"
proof -
  have p: "hm_get (pm_processes (ac_pm (dm_actor example_restarting))) ''web''
      = Some (example_web (Stopping None (Respawn ManualRestart) [WaitRestart 2]))"
    unfolding example_restarting_def by code_simp
  from respawned_teardown [where os = example_os and code = None, OF example_restarting_reachable p]
  show ?thesis by (auto simp: example_web_def)
qed

end
