(* ===== verification/Files.thy ===== *)
theory Files
  imports Log_Index Paths
begin

text \<open>
  The part of \<open>std::fs\<close> and \<open>std::path\<close> the log code uses: a file system is a map from paths to
  contents, a file's text is its bytes, and \<open>Path::extension\<close> and \<open>Path::with_extension\<close> split the
  last component at its last dot.
\<close>

section \<open>Text and bytes\<close>

definition bytes_of :: "string \<Rightarrow> byte list" where
  "bytes_of s = map (\<lambda>c. of_nat (of_char c)) s"

definition text_of :: "byte list \<Rightarrow> string" where
  "text_of bs = map (\<lambda>b. char_of (unat b)) bs"

lemma text_of_bytes_of [simp]: "text_of (bytes_of s) = s"
proof -
  have "char_of (unat (of_nat (of_char c) :: byte)) = c" for c :: char
  proof -
    have "(of_char c :: nat) < 256" by simp
    then have "unat (of_nat (of_char c) :: byte) = of_char c" by (simp add: unat_of_nat)
    then show ?thesis by simp
  qed
  then show ?thesis by (simp add: text_of_def bytes_of_def comp_def)
qed

lemma bytes_of_append [simp]: "bytes_of (s @ t) = bytes_of s @ bytes_of t"
  by (simp add: bytes_of_def)

lemma length_bytes_of [simp]: "length (bytes_of s) = length s"
  by (simp add: bytes_of_def)

lemma text_of_append [simp]: "text_of (a @ b) = text_of a @ text_of b"
  by (simp add: text_of_def)

lemma text_of_drop: "text_of (drop n bs) = drop n (text_of bs)"
  by (simp add: text_of_def drop_map)

section \<open>Extensions\<close>

definition rsplit_at :: "char \<Rightarrow> string \<Rightarrow> (string \<times> string) option" where
  "rsplit_at c s =
     (let e = rev (takeWhile (\<lambda>x. x \<noteq> c) (rev s))
      in if length e = length s then None else Some (take (length s - length e - 1) s, e))"

definition split_file_name :: "string \<Rightarrow> string \<times> string" where
  "split_file_name path =
     (case rsplit_at CHR ''/'' path of None \<Rightarrow> ([], path) | Some (d, n) \<Rightarrow> (d @ ''/'', n))"

text \<open>Stem and extension of a file name; a leading dot does not start an extension.\<close>

definition split_extension :: "string \<Rightarrow> string \<times> string option" where
  "split_extension name =
     (if name = ''..'' then (name, None)
      else (case rsplit_at CHR ''.'' name of
              None \<Rightarrow> (name, None)
            | Some (stem, e) \<Rightarrow> if stem = [] then (name, None) else (stem, Some e)))"

definition path_extension :: "string \<Rightarrow> string option" where
  "path_extension path = snd (split_extension (snd (split_file_name path)))"

definition with_extension :: "string \<Rightarrow> string \<Rightarrow> string" where
  "with_extension path ext =
     (let (d, name) = split_file_name path
      in d @ fst (split_extension name) @ (if ext = [] then [] else ''.'' @ ext))"

lemma rsplit_at_last:
  assumes "c \<notin> set e"
  shows "rsplit_at c (s @ c # e) = Some (s, e)"
proof -
  have "takeWhile (\<lambda>x. x \<noteq> c) (rev (s @ c # e)) = rev e"
    using assms by (auto simp: takeWhile_tail takeWhile_eq_all_conv)
  then show ?thesis by (simp add: rsplit_at_def Let_def)
qed

lemma rsplit_at_none: "c \<notin> set s \<Longrightarrow> rsplit_at c s = None"
proof -
  assume "c \<notin> set s"
  then have tw: "takeWhile (\<lambda>x. x \<noteq> c) (rev s) = rev s" by (auto simp: takeWhile_eq_all_conv)
  show ?thesis unfolding rsplit_at_def Let_def tw by simp
qed

text \<open>A log path: a directory, a non-empty name, and the stream's extension.\<close>

lemma log_file_extension:
  assumes "CHR ''/'' \<notin> set name" and "name \<noteq> []" and "CHR ''/'' \<notin> set ext" and "CHR ''.'' \<notin> set ext"
    and "ext \<noteq> []"
  shows "path_extension (dir @ ''/'' @ name @ ''.'' @ ext) = Some ext"
    "with_extension (dir @ ''/'' @ name @ ''.'' @ ext) (ext @ sfx)
       = dir @ ''/'' @ name @ ''.'' @ ext @ sfx"
proof -
  have "rsplit_at CHR ''/'' (dir @ CHR ''/'' # (name @ ''.'' @ ext)) = Some (dir, name @ ''.'' @ ext)"
    using assms by (intro rsplit_at_last) auto
  then have s: "split_file_name (dir @ ''/'' @ name @ ''.'' @ ext) = (dir @ ''/'', name @ ''.'' @ ext)"
    by (simp add: split_file_name_def)
  have "rsplit_at CHR ''.'' (name @ CHR ''.'' # ext) = Some (name, ext)"
    using assms by (intro rsplit_at_last)
  moreover have "name @ ''.'' @ ext \<noteq> ''..''"
    using assms by (cases name; cases "tl name") auto
  ultimately have "split_extension (name @ ''.'' @ ext) = (name, Some ext)"
    using assms by (auto simp: split_extension_def append_eq_Cons_conv)
  with s show "path_extension (dir @ ''/'' @ name @ ''.'' @ ext) = Some ext"
    "with_extension (dir @ ''/'' @ name @ ''.'' @ ext) (ext @ sfx)
       = dir @ ''/'' @ name @ ''.'' @ ext @ sfx"
    using assms(5) by (simp_all add: path_extension_def with_extension_def)
qed

section \<open>A file system\<close>

type_synonym fs = "string \<rightharpoonup> byte list"

definition fs_rename :: "string \<Rightarrow> string \<Rightarrow> fs \<Rightarrow> fs" where
  "fs_rename a b fs = (case fs a of None \<Rightarrow> fs | Some c \<Rightarrow> (fs(a := None))(b \<mapsto> c))"

definition fs_remove :: "string \<Rightarrow> fs \<Rightarrow> fs" where
  "fs_remove a fs = fs(a := None)"

definition fs_exists :: "string \<Rightarrow> fs \<Rightarrow> bool" where
  "fs_exists a fs \<longleftrightarrow> fs a \<noteq> None"

text \<open>Opening a file to read it.\<close>

definition fs_open :: "string \<Rightarrow> fs \<Rightarrow> io_error + byte list" where
  "fs_open a fs =
     (case fs a of
        None \<Rightarrow> Inl (io_err KNotFound ''No such file or directory (os error 2)'')
      | Some c \<Rightarrow> Inr c)"

end
