(* ===== verification/Log_Writer.thy ===== *)
theory Log_Writer
  imports Files Protocol
begin

text \<open>
  \<open>src/daemon/log_writer.rs\<close>: writing captured lines to a log file and its index, rotating the
  files when the log reaches its limit. The state of one writer is \<open>log_state\<close>; what it shares with
  the rest of the daemon (the file system, the sequence counter of both streams, what has been
  broadcast) is \<open>log_world\<close>. Whether a file can be created is the argument \<open>create\<close>; a failed write
  to an open file is ignored by the code and not modelled. The number of bytes written is a \<open>nat\<close>
  (the file's own length); offsets and sequence numbers are 64-bit in the index.
\<close>

section \<open>Rotation\<close>

definition DEFAULT_MAX_ROTATED_FILES :: nat where
  "DEFAULT_MAX_ROTATED_FILES = 5"

definition rotated_path :: "string \<Rightarrow> string \<Rightarrow> nat \<Rightarrow> string" where
  "rotated_path log ext n = with_extension log (ext @ ''.'' @ dec_nat n)"

definition rename_with_index :: "string \<Rightarrow> string \<Rightarrow> fs \<Rightarrow> fs" where
  "rename_with_index a b fs = fs_rename (idx_path_for a) (idx_path_for b) (fs_rename a b fs)"

definition rotate_log_files :: "string \<Rightarrow> nat \<Rightarrow> fs \<Rightarrow> fs" where
  "rotate_log_files log max_rotated_files fs =
     (let ext = (case path_extension log of None \<Rightarrow> [] | Some e \<Rightarrow> e);
          fs = fold (\<lambda>i. rename_with_index (rotated_path log ext i) (rotated_path log ext (i + 1)))
                 (rev [1..<max_rotated_files]) fs;
          fs = rename_with_index log (rotated_path log ext 1) fs;
          excess = rotated_path log ext (max_rotated_files + 1)
      in fs_remove (idx_path_for excess) (fs_remove excess fs))"

definition rotate_if_exists :: "string \<Rightarrow> fs \<Rightarrow> fs" where
  "rotate_if_exists log fs =
     (if fs_exists log fs then rotate_log_files log DEFAULT_MAX_ROTATED_FILES fs else fs)"

section \<open>Writing a line\<close>

type_synonym output_line = "string \<times> stream \<times> string"

record log_state =
  lw_file :: bool
  lw_idx_writer :: buf_writer
  lw_bytes_written :: nat
  lw_lines_since_idx_flush :: nat
  lw_log_path :: string
  lw_process_name :: string
  lw_stream :: stream
  lw_max_bytes :: nat
  lw_max_rotated_files :: nat

record log_world =
  wd_fs :: fs
  wd_seq :: u64
  wd_sent :: "output_line list"

text \<open>What the index writer has put on disk shows in the file system; a flush of an empty buffer
  writes nothing.\<close>

definition put_index :: "log_state \<Rightarrow> log_world \<Rightarrow> log_world" where
  "put_index st wd =
     wd\<lparr>wd_fs := (wd_fs wd)(idx_path_for (lw_log_path st) \<mapsto> bw_disk (lw_idx_writer st))\<rparr>"

definition flush_index :: "log_state \<Rightarrow> log_world \<Rightarrow> log_state \<times> log_world" where
  "flush_index st wd =
     (if bw_buffer (lw_idx_writer st) = [] then (st, wd)
      else (let st = st\<lparr>lw_idx_writer := index_flush (lw_idx_writer st)\<rparr> in (st, put_index st wd)))"

text \<open>The rotation at the head of \<open>write_line\<close>: \<open>False\<close> is its early return.\<close>

definition rotate_for_line ::
  "(string \<Rightarrow> io_error option) \<Rightarrow> log_state \<Rightarrow> log_world \<Rightarrow> bool \<times> log_state \<times> log_world" where
  "rotate_for_line create st wd =
     (let (st, wd) = flush_index st wd;
          st = st\<lparr>lw_file := False\<rparr>;
          wd = wd\<lparr>wd_fs := rotate_log_files (lw_log_path st) (lw_max_rotated_files st) (wd_fs wd)\<rparr>
      in (case create (lw_log_path st) of
            Some e \<Rightarrow> (False, st, wd)
          | None \<Rightarrow>
              (let st = st\<lparr>lw_file := True\<rparr>;
                   wd = wd\<lparr>wd_fs := (wd_fs wd)(lw_log_path st \<mapsto> [])\<rparr>
               in (case create (idx_path_for (lw_log_path st)) of
                     Some e \<Rightarrow> (False, st, wd)
                   | None \<Rightarrow>
                       (let st = st\<lparr>lw_idx_writer := index_create (wd_seq wd),
                                   lw_bytes_written := 0, lw_lines_since_idx_flush := 0\<rparr>
                        in (True, st, put_index st wd))))))"

definition append_line :: "string \<Rightarrow> log_state \<Rightarrow> log_world \<Rightarrow> log_state \<times> log_world" where
  "append_line line st wd =
     (if \<not> lw_file st then (st, wd)
      else
        (let r = \<lparr>ix_byte_offset = of_nat (lw_bytes_written st), ix_seq = wd_seq wd\<rparr>;
             st = st\<lparr>lw_idx_writer := index_append r (lw_idx_writer st)\<rparr>;
             wd = put_index st (wd\<lparr>wd_seq := wd_seq wd + 1\<rparr>);
             old = (case wd_fs wd (lw_log_path st) of None \<Rightarrow> [] | Some c \<Rightarrow> c);
             wd = wd\<lparr>wd_fs := (wd_fs wd)(lw_log_path st \<mapsto> old @ bytes_of (line @ ''\<newline>''))\<rparr>;
             st = st\<lparr>lw_bytes_written := lw_bytes_written st + (length line + 1),
                     lw_lines_since_idx_flush := lw_lines_since_idx_flush st + 1\<rparr>;
             (st, wd) = (if lw_lines_since_idx_flush st \<ge> 64 then
                           (let (st, wd) = flush_index st wd
                            in (st\<lparr>lw_lines_since_idx_flush := 0\<rparr>, wd))
                         else (st, wd))
         in (st, wd\<lparr>wd_sent := wd_sent wd @ [(lw_process_name st, lw_stream st, line)]\<rparr>)))"

definition write_line ::
  "(string \<Rightarrow> io_error option) \<Rightarrow> string \<Rightarrow> log_state \<Rightarrow> log_world \<Rightarrow> log_state \<times> log_world" where
  "write_line create line st wd =
     (let line_bytes = length line + 1
      in if lw_max_bytes st > 0 \<and> lw_bytes_written st + line_bytes > lw_max_bytes st then
           (let (go, st, wd) = rotate_for_line create st wd
            in if go then append_line line st wd else (st, wd))
         else append_line line st wd)"

section \<open>Capturing\<close>

text \<open>What can happen to a capture task, in the order it sees it: a line from the pipe, the pipe's
  end (or a read error), a line on the supervisor channel, that channel closing, and a cancellation
  with the supervisor lines queued at that moment.\<close>

datatype capture_event =
    PipeLine string
  | PipeEnd
  | SupLine string
  | SupClosed
  | Cancel "string list"

fun drain_supervisor :: "capture_event list \<Rightarrow> string list" where
  "drain_supervisor [] = []"
| "drain_supervisor (SupLine l # es) = l # drain_supervisor es"
| "drain_supervisor (SupClosed # es) = []"
| "drain_supervisor (_ # es) = drain_supervisor es"

fun captured_lines :: "capture_event list \<Rightarrow> string list" where
  "captured_lines [] = []"
| "captured_lines (PipeLine l # es) = l # captured_lines es"
| "captured_lines (SupLine l # es) = l # captured_lines es"
| "captured_lines (PipeEnd # es) = drain_supervisor es"
| "captured_lines (Cancel queued # es) = queued"
| "captured_lines (SupClosed # es) = captured_lines es"

definition log_state_new :: "string \<Rightarrow> string \<Rightarrow> stream \<Rightarrow> nat \<Rightarrow> nat \<Rightarrow> u64 \<Rightarrow> log_state" where
  "log_state_new log process stream max_bytes max_rotated_files seq_base =
     \<lparr>lw_file = True, lw_idx_writer = index_create seq_base, lw_bytes_written = 0,
      lw_lines_since_idx_flush = 0, lw_log_path = log, lw_process_name = process,
      lw_stream = stream, lw_max_bytes = max_bytes, lw_max_rotated_files = max_rotated_files\<rparr>"

definition capture_output ::
  "(string \<Rightarrow> io_error option) \<Rightarrow> capture_event list \<Rightarrow> log_state \<Rightarrow> log_world \<Rightarrow> log_state \<times> log_world" where
  "capture_output create events st wd =
     (let (st, wd) = fold (\<lambda>line (st, wd). write_line create line st wd) (captured_lines events) (st, wd)
      in flush_index st wd)"

section \<open>The chain of rotated files\<close>

definition seg_path :: "string \<Rightarrow> nat \<Rightarrow> string" where
  "seg_path log n = (if n = 0 then log else log @ ''.'' @ dec_nat n)"

text \<open>A log path the daemon uses: a file with one of the two stream extensions in some directory.\<close>

definition is_log_path :: "string \<Rightarrow> string \<Rightarrow> bool" where
  "is_log_path log ext \<longleftrightarrow>
     (ext = ''stdout'' \<or> ext = ''stderr'') \<and>
     (\<exists>dir name. log = dir @ ''/'' @ name @ ''.'' @ ext \<and> CHR ''/'' \<notin> set name \<and> name \<noteq> [])"

lemma log_path_extension:
  assumes "is_log_path log ext"
  shows "path_extension log = Some ext" "rotated_path log ext n = log @ ''.'' @ dec_nat n"
proof -
  obtain dir name where log: "log = dir @ ''/'' @ name @ ''.'' @ ext"
    and name: "CHR ''/'' \<notin> set name" "name \<noteq> []" and ext: "ext = ''stdout'' \<or> ext = ''stderr''"
    using assms by (auto simp: is_log_path_def)
  have e: "CHR ''/'' \<notin> set ext" "CHR ''.'' \<notin> set ext" "ext \<noteq> []" using ext by auto
  note facts = log_file_extension [OF name e, of dir]
  show "path_extension log = Some ext" using facts(1) by (simp only: log)
  show "rotated_path log ext n = log @ ''.'' @ dec_nat n"
    using facts(2) [of "''.'' @ dec_nat n"] by (simp add: rotated_path_def log)
qed

lemma last_dec_nat: "\<exists>d < 10. last (dec_nat n) = dec_digit d"
  by (rule dec_nat_digits) (rule last_in_set, simp)

lemma dec_digit_not_x: "d < 10 \<Longrightarrow> dec_digit d \<noteq> CHR ''x''"
proof
  assume "d < 10" and "dec_digit d = CHR ''x''"
  then have "of_char (dec_digit d) = (120 :: nat)" by simp
  with \<open>d < 10\<close> show False by (simp only: of_char_dec_digit)
qed

lemma seg_path_inject [simp]: "seg_path log m = seg_path log n \<longleftrightarrow> m = n"
  by (auto simp: seg_path_def)

lemma idx_path_inject [simp]: "idx_path_for a = idx_path_for b \<longleftrightarrow> a = b"
  by (simp add: idx_path_for_def)

lemma seg_not_idx [simp]: "seg_path log m \<noteq> idx_path_for (seg_path log n)"
proof
  assume eq: "seg_path log m = idx_path_for (seg_path log n)"
  show False
  proof (cases "m = 0")
    case True
    with arg_cong [where f = length, OF eq] show False
      by (auto simp: seg_path_def idx_path_for_def split: if_splits)
  next
    case False
    have "last (seg_path log m) = last (dec_nat m)" using False by (simp add: seg_path_def)
    moreover have "last (idx_path_for (seg_path log n)) = CHR ''x''" by (simp add: idx_path_for_def)
    moreover obtain d where "d < 10" "last (dec_nat m) = dec_digit d" using last_dec_nat by blast
    ultimately show False using eq dec_digit_not_x [of d] by simp
  qed
qed

lemma idx_not_seg [simp]: "idx_path_for (seg_path log n) \<noteq> seg_path log m"
  using seg_not_idx by metis

section \<open>Rotation shifts the chain\<close>

text \<open>A family of paths holds a chain of \<open>k\<close> files above \<open>a\<close>: exactly \<open>a..k\<close> exist.\<close>

definition chained :: "(nat \<Rightarrow> string) \<Rightarrow> nat \<Rightarrow> nat \<Rightarrow> fs \<Rightarrow> bool" where
  "chained p a k fs \<longleftrightarrow> (\<forall>i \<ge> a. fs (p i) \<noteq> None \<longleftrightarrow> i \<le> k)"

lemma rename_family:
  assumes "inj p"
  shows "fs_rename (p i) (p (Suc i)) fs (p j) =
    (if fs (p i) = None then fs (p j)
     else if j = Suc i then fs (p i) else if j = i then None else fs (p j))"
  using inj_eq [OF assms] by (auto simp: fs_rename_def split: option.split)

lemma rename_other:
  "\<lbrakk>x \<noteq> a; x \<noteq> b\<rbrakk> \<Longrightarrow> fs_rename a b fs x = fs x"
  by (auto simp: fs_rename_def split: option.split)

lemma chained_gap: "\<lbrakk>chained p a k fs; a \<le> i; fs (p i) = None; i \<le> j\<rbrakk> \<Longrightarrow> fs (p j) = None"
proof (rule ccontr)
  assume c: "chained p a k fs" "a \<le> i" "fs (p i) = None" "i \<le> j" "fs (p j) \<noteq> None"
  have "j \<le> k" using c(1,2,4,5) unfolding chained_def by (meson le_trans)
  then have "i \<le> k" using c(4) by simp
  then show False using c(1,2,3) unfolding chained_def by blast
qed

lemma cascade:
  assumes p: "inj p" and step: "\<And>i fs j. f i fs (p j) = fs_rename (p i) (p (Suc i)) fs (p j)"
    and chain: "chained p a k fs"
  shows "fold f (rev [a..<n]) fs (p j) =
    (if j < a \<or> n < j then fs (p j) else if j = a then (if a < n then None else fs (p a))
     else fs (p (j - 1)))"
  using chain
proof (induction "n - a" arbitrary: a j)
  case 0
  show ?case
  proof (cases "j < a \<or> n < j")
    case False
    with 0 have "j = a" by simp
    with 0 show ?thesis by simp
  qed (use 0 in simp)
next
  case (Suc d)
  then have a: "a < n" "d = n - Suc a" by simp_all
  have split: "rev [a..<n] = rev [Suc a..<n] @ [a]" using a(1) by (simp add: upt_conv_Cons)
  define g where "g = fold f (rev [Suc a..<n]) fs"
  have c: "chained p (Suc a) k fs" using Suc.prems by (simp add: chained_def)
  have IH: "g (p i) = (if i < Suc a \<or> n < i then fs (p i) else if i = Suc a then
      (if Suc a < n then None else fs (p (Suc a))) else fs (p (i - 1)))" for i
    unfolding g_def by (rule Suc.hyps(1) [OF a(2) c])
  have "fold f (rev [a..<n]) fs (p j) = f a g (p j)"
    unfolding split g_def by simp
  also have "\<dots> = (if g (p a) = None then g (p j)
     else if j = Suc a then g (p a) else if j = a then None else g (p j))"
    unfolding step by (rule rename_family [OF p])
  finally have eq: "fold f (rev [a..<n]) fs (p j) = (if fs (p a) = None then g (p j)
     else if j = Suc a then fs (p a) else if j = a then None else g (p j))"
    by (simp add: IH)
  show ?case
  proof (cases "fs (p a) = None")
    case True
    then have "fs (p i) = None" if "a \<le> i" for i
      using chained_gap [OF Suc.prems le_refl _ that] by simp
    then show ?thesis unfolding eq IH by auto
  next
    case False
    with a(1) show ?thesis unfolding eq IH by auto
  qed
qed

text \<open>Both files of a segment move together.\<close>

lemma seg_family: "inj (seg_path log)" "inj (\<lambda>i. idx_path_for (seg_path log i))"
  by (auto intro!: injI)

lemma rename_with_index_seg:
  "rename_with_index (seg_path log i) (seg_path log j) fs (seg_path log n)
     = fs_rename (seg_path log i) (seg_path log j) fs (seg_path log n)"
  "rename_with_index (seg_path log i) (seg_path log j) fs (idx_path_for (seg_path log n))
     = fs_rename (idx_path_for (seg_path log i)) (idx_path_for (seg_path log j)) fs (idx_path_for (seg_path log n))"
  by (auto simp: rename_with_index_def rename_other fs_rename_def split: option.split)

text \<open>A log with \<open>k\<close> rotated files, each with its index.\<close>

definition history :: "string \<Rightarrow> nat \<Rightarrow> fs \<Rightarrow> bool" where
  "history log k fs \<longleftrightarrow>
     chained (seg_path log) 0 k fs \<and> chained (\<lambda>i. idx_path_for (seg_path log i)) 0 k fs"

lemma rotated_seg_path:
  "is_log_path log ext \<Longrightarrow> 0 < n \<Longrightarrow> rotated_path log ext n = seg_path log n"
  by (simp add: log_path_extension seg_path_def)

lemma rotate_family:
  assumes p: "inj p" and step: "\<And>i j fs n. f i j fs (p n) = fs_rename (p i) (p j) fs (p n)"
    and chain: "chained p 0 k fs" and max: "0 < m" "k \<le> m"
  shows "f 0 1 (fold (\<lambda>i. f i (Suc i)) (rev [1..<m]) fs) (p n) =
    (if n = 0 then None else if n \<le> m then fs (p (n - 1)) else None)"
proof -
  define g where "g = fold (\<lambda>i. f i (Suc i)) (rev [1..<m]) fs"
  have c1: "chained p 1 k fs" using chain by (simp add: chained_def)
  have g: "g (p i) = (if i < 1 \<or> m < i then fs (p i) else if i = 1 then
      (if 1 < m then None else fs (p 1)) else fs (p (i - 1)))" for i
    unfolding g_def by (rule cascade [OF p _ c1]) (rule step)
  have zero: "fs (p 0) \<noteq> None" using chain by (simp add: chained_def)
  have above: "fs (p i) = None" if "m < i" for i
  proof -
    have "\<not> i \<le> k" using that max(2) by simp
    then show ?thesis using chain unfolding chained_def by blast
  qed
  have "f 0 1 g (p n) = (if g (p 0) = None then g (p n)
     else if n = Suc 0 then g (p 0) else if n = 0 then None else g (p n))"
    unfolding step One_nat_def by (rule rename_family [OF p])
  also have "\<dots> = (if n = 1 then fs (p 0) else if n = 0 then None else g (p n))"
    using zero by (auto simp: g)
  finally show ?thesis
    unfolding g_def [symmetric] g using above [of n] max(1) by auto
qed

text \<open>The rotation in terms of the numbered files.\<close>

lemma rotate_log_files_seg:
  assumes log: "is_log_path log ext"
  shows "rotate_log_files log m fs =
    fs_remove (idx_path_for (seg_path log (m + 1))) (fs_remove (seg_path log (m + 1))
      (rename_with_index (seg_path log 0) (seg_path log 1)
        (fold (\<lambda>i. rename_with_index (seg_path log i) (seg_path log (Suc i))) (rev [1..<m]) fs)))"
proof -
  have "fold (\<lambda>i. rename_with_index (rotated_path log ext i) (rotated_path log ext (i + 1))) (rev [1..<m]) fs
      = fold (\<lambda>i. rename_with_index (seg_path log i) (seg_path log (Suc i))) (rev [1..<m]) fs"
    by (rule fold_cong) (auto simp: rotated_seg_path [OF log])
  then show ?thesis
    by (simp add: rotate_log_files_def log_path_extension(1) [OF log] rotated_seg_path [OF log] Let_def)
      (simp add: seg_path_def)
qed

theorem rotate_shifts:
  assumes log: "is_log_path log ext" and hist: "history log k fs" and max: "0 < m" "k \<le> m"
  shows "rotate_log_files log m fs (seg_path log n) =
      (if n = 0 then None else if n \<le> m then fs (seg_path log (n - 1)) else None)"
    "rotate_log_files log m fs (idx_path_for (seg_path log n)) =
      (if n = 0 then None else if n \<le> m then fs (idx_path_for (seg_path log (n - 1))) else None)"
proof -
  let ?f = "\<lambda>i j. rename_with_index (seg_path log i) (seg_path log j)"
  let ?g = "?f 0 1 (fold (\<lambda>i. ?f i (Suc i)) (rev [1..<m]) fs)"
  note rot = rotate_log_files_seg [OF log, of m fs]
  have chains: "chained (seg_path log) 0 k fs" "chained (\<lambda>i. idx_path_for (seg_path log i)) 0 k fs"
    using hist by (simp_all add: history_def)
  note steps = rename_with_index_seg [of log]
  have "?g (seg_path log n) = (if n = 0 then None else if n \<le> m then fs (seg_path log (n - 1)) else None)"
    by (rule rotate_family [where f = ?f, OF seg_family(1) steps(1) chains(1) max])
  then show "rotate_log_files log m fs (seg_path log n) =
      (if n = 0 then None else if n \<le> m then fs (seg_path log (n - 1)) else None)"
    by (cases "n = 0") (auto simp: rot fs_remove_def)
  have "?g (idx_path_for (seg_path log n))
      = (if n = 0 then None else if n \<le> m then fs (idx_path_for (seg_path log (n - 1))) else None)"
    by (rule rotate_family [where f = ?f, OF seg_family(2) steps(2) chains(2) max])
  then show "rotate_log_files log m fs (idx_path_for (seg_path log n)) =
      (if n = 0 then None else if n \<le> m then fs (idx_path_for (seg_path log (n - 1))) else None)"
    by (cases "n = 0") (auto simp: rot fs_remove_def)
qed

end
