(* ===== verification/Log_History.thy ===== *)
theory Log_History
  imports Log_Writer "HOL-Library.Sublist"
begin

text \<open>
  What the log writer promises, as an abstract log: a list of segments, the current one first, each
  a list of lines with their sequence numbers. Writing a line appends it to the current segment, or
  starts a new segment when the limit would be passed and forgets the oldest one beyond the number
  kept. The writer of \<open>Log_Writer\<close> (files, offsets, buffered index, renames) refines it.
\<close>

section \<open>The abstract log\<close>

type_synonym log_entry = "string \<times> u64"

definition line_bytes :: "string \<Rightarrow> byte list" where
  "line_bytes line = bytes_of (line @ ''\<newline>'')"

definition seg_text :: "log_entry list \<Rightarrow> byte list" where
  "seg_text es = concat (map (line_bytes \<circ> fst) es)"

fun seg_records :: "nat \<Rightarrow> log_entry list \<Rightarrow> index_record list" where
  "seg_records offset [] = []"
| "seg_records offset (e # es) =
     \<lparr>ix_byte_offset = of_nat offset, ix_seq = snd e\<rparr> # seg_records (offset + length (line_bytes (fst e))) es"

definition log_write :: "nat \<Rightarrow> nat \<Rightarrow> log_entry \<Rightarrow> log_entry list list \<Rightarrow> log_entry list list" where
  "log_write max_bytes max_rotated e segs =
     (if 0 < max_bytes \<and> max_bytes < length (seg_text (hd segs)) + length (line_bytes (fst e))
      then take (Suc max_rotated) ([e] # segs)
      else (hd segs @ [e]) # tl segs)"

text \<open>All lines of a log, oldest first.\<close>

definition log_entries :: "log_entry list list \<Rightarrow> log_entry list" where
  "log_entries segs = concat (rev segs)"

lemma seg_text_simps [simp]:
  "seg_text [] = []" "seg_text (e # es) = line_bytes (fst e) @ seg_text es"
  "seg_text (es @ fs) = seg_text es @ seg_text fs"
  by (simp_all add: seg_text_def)

lemma length_line_bytes [simp]: "length (line_bytes l) = length l + 1"
  by (simp add: line_bytes_def)

lemma seg_records_append:
  "seg_records off (es @ fs) = seg_records off es @ seg_records (off + length (seg_text es)) fs"
  by (induction es arbitrary: off) (simp_all add: add.assoc)

lemma length_seg_records [simp]: "length (seg_records off es) = length es"
  by (induction es arbitrary: off) simp_all

section \<open>What the files hold\<close>

text \<open>Segment \<open>n\<close> of the log is complete on disk.\<close>

definition seg_on_disk :: "string \<Rightarrow> fs \<Rightarrow> nat \<Rightarrow> log_entry list \<Rightarrow> bool" where
  "seg_on_disk log fs n es \<longleftrightarrow>
     fs (seg_path log n) = Some (seg_text es) \<and>
     (\<exists>b. fs (idx_path_for (seg_path log n)) = Some (index_bytes b (seg_records 0 es)))"

definition seg_absent :: "string \<Rightarrow> fs \<Rightarrow> nat \<Rightarrow> bool" where
  "seg_absent log fs n \<longleftrightarrow> fs (seg_path log n) = None \<and> fs (idx_path_for (seg_path log n)) = None"

text \<open>The rotated segments: \<open>segs ! i\<close> is the file numbered \<open>i + 1\<close>, and no other number exists.\<close>

definition rotated_on_disk :: "string \<Rightarrow> fs \<Rightarrow> log_entry list list \<Rightarrow> bool" where
  "rotated_on_disk log fs segs \<longleftrightarrow>
     (\<forall>n. if n < length segs then seg_on_disk log fs (Suc n) (segs ! n) else seg_absent log fs (Suc n))"

text \<open>A writer between two lines.\<close>

definition writer_config :: "log_state \<Rightarrow> string \<times> string \<times> stream \<times> nat \<times> nat" where
  "writer_config st =
     (lw_log_path st, lw_process_name st, lw_stream st, lw_max_bytes st, lw_max_rotated_files st)"

definition log_rep :: "string \<Rightarrow> log_entry list list \<Rightarrow> log_state \<Rightarrow> log_world \<Rightarrow> bool" where
  "log_rep ext segs st wd \<longleftrightarrow>
     segs \<noteq> [] \<and> length segs \<le> Suc (lw_max_rotated_files st) \<and>
     0 < lw_max_rotated_files st \<and> is_log_path (lw_log_path st) ext \<and> lw_file st \<and>
     lw_bytes_written st = length (seg_text (hd segs)) \<and>
     wd_fs wd (lw_log_path st) = Some (seg_text (hd segs)) \<and>
     wd_fs wd (idx_path_for (lw_log_path st)) = Some (bw_disk (lw_idx_writer st)) \<and>
     (\<exists>b. index_state b (seg_records 0 (hd segs)) (lw_idx_writer st)) \<and>
     rotated_on_disk (lw_log_path st) (wd_fs wd) (tl segs)"

lemma seg_path_0 [simp]: "seg_path log 0 = log"
  by (simp add: seg_path_def)

lemma log_paths_distinct [simp]:
  "seg_path log n = log \<longleftrightarrow> n = 0" "log = seg_path log n \<longleftrightarrow> n = 0"
  "idx_path_for (seg_path log n) \<noteq> log" "log \<noteq> idx_path_for (seg_path log n)"
  "idx_path_for log \<noteq> seg_path log n" "seg_path log n \<noteq> idx_path_for log"
  "idx_path_for log \<noteq> log" "log \<noteq> idx_path_for log"
  using seg_path_inject [of log n 0] seg_path_inject [of log 0 n] idx_not_seg [of log n 0]
    seg_not_idx [of log 0 n] idx_not_seg [of log 0 n] seg_not_idx [of log n 0] idx_not_seg [of log 0 0]
  by (auto simp del: seg_path_inject seg_not_idx idx_not_seg)

text \<open>Changes to the current files leave the rotated ones.\<close>

lemma rotated_on_disk_upd [simp]:
  "rotated_on_disk log (fs(log \<mapsto> c)) segs = rotated_on_disk log fs segs"
  "rotated_on_disk log (fs(idx_path_for log \<mapsto> c)) segs = rotated_on_disk log fs segs"
  by (simp_all add: rotated_on_disk_def seg_on_disk_def seg_absent_def)

lemma index_flushed: "index_state b rs w \<Longrightarrow> bw_disk (index_flush w) = index_bytes b rs"
  by (auto simp: index_state_def index_flush_def bw_flush_def index_bytes_def
      simp flip: concat_append map_append)

lemma index_empty_buffer:
  assumes "index_state b rs w" "bw_buffer w = []"
  shows "bw_disk w = index_bytes b rs"
  using index_flushed [OF assms(1)] assms(2) by (simp add: index_flush_def bw_flush_def)

section \<open>Appending\<close>

lemma flush_index_frame [simp]:
  "writer_config (fst (flush_index st wd)) = writer_config st"
  "lw_bytes_written (fst (flush_index st wd)) = lw_bytes_written st"
  "lw_file (fst (flush_index st wd)) = lw_file st"
  "lw_lines_since_idx_flush (fst (flush_index st wd)) = lw_lines_since_idx_flush st"
  "wd_seq (snd (flush_index st wd)) = wd_seq wd" "wd_sent (snd (flush_index st wd)) = wd_sent wd"
  by (simp_all add: flush_index_def put_index_def writer_config_def Let_def)

lemma flush_index_rep:
  assumes "log_rep ext segs st wd"
  shows "log_rep ext segs (fst (flush_index st wd)) (snd (flush_index st wd))"
    "\<exists>b. wd_fs (snd (flush_index st wd)) (idx_path_for (lw_log_path st))
       = Some (index_bytes b (seg_records 0 (hd segs)))"
proof -
  obtain b where b: "index_state b (seg_records 0 (hd segs)) (lw_idx_writer st)"
    using assms by (auto simp: log_rep_def)
  from index_state_flush [OF b] b
  show "log_rep ext segs (fst (flush_index st wd)) (snd (flush_index st wd))"
    using assms by (auto simp: log_rep_def flush_index_def put_index_def Let_def)
  show "\<exists>b. wd_fs (snd (flush_index st wd)) (idx_path_for (lw_log_path st))
       = Some (index_bytes b (seg_records 0 (hd segs)))"
    using assms index_flushed [OF b] index_empty_buffer [OF b]
    by (auto simp: log_rep_def flush_index_def put_index_def Let_def)
qed

lemma append_line_rep:
  assumes rep: "log_rep ext segs st wd"
  shows "log_rep ext ((hd segs @ [(line, wd_seq wd)]) # tl segs) (fst (append_line line st wd))
      (snd (append_line line st wd))"
    "writer_config (fst (append_line line st wd)) = writer_config st"
    "wd_seq (snd (append_line line st wd)) = wd_seq wd + 1"
    "wd_sent (snd (append_line line st wd)) = wd_sent wd @ [(lw_process_name st, lw_stream st, line)]"
proof -
  obtain b where b: "index_state b (seg_records 0 (hd segs)) (lw_idx_writer st)"
    using rep by (auto simp: log_rep_def)
  define log where "log = lw_log_path st"
  define r where "r = \<lparr>ix_byte_offset = of_nat (lw_bytes_written st), ix_seq = wd_seq wd\<rparr>"
  define w where "w = index_append r (lw_idx_writer st)"
  define st' where "st' = st\<lparr>lw_idx_writer := w, lw_bytes_written := lw_bytes_written st + (length line + 1),
    lw_lines_since_idx_flush := lw_lines_since_idx_flush st + 1\<rparr>"
  define wd' where "wd' = wd\<lparr>wd_seq := wd_seq wd + 1, wd_fs := (wd_fs wd)(idx_path_for log \<mapsto> bw_disk w,
    log \<mapsto> seg_text (hd segs) @ line_bytes line)\<rparr>"
  have recs: "seg_records 0 (hd segs @ [(line, wd_seq wd)]) = seg_records 0 (hd segs) @ [r]"
    using rep by (simp add: seg_records_append r_def log_rep_def)
  have "index_state b (seg_records 0 (hd segs @ [(line, wd_seq wd)])) w"
    unfolding recs w_def by (rule index_state_append [OF b])
  then have rep': "log_rep ext ((hd segs @ [(line, wd_seq wd)]) # tl segs) st' wd'"
    using rep unfolding log_rep_def st'_def wd'_def log_def by auto
  have config: "writer_config st' = writer_config st" by (simp add: writer_config_def st'_def)
  have eq: "append_line line st wd =
    (let (st, wd) = (if lw_lines_since_idx_flush st' \<ge> 64 then
         (let (st, wd) = flush_index st' wd' in (st\<lparr>lw_lines_since_idx_flush := 0\<rparr>, wd)) else (st', wd'))
     in (st, wd\<lparr>wd_sent := wd_sent wd @ [(lw_process_name st, lw_stream st, line)]\<rparr>))"
    using rep by (simp add: append_line_def log_rep_def Let_def put_index_def st'_def wd'_def w_def
        r_def log_def line_bytes_def fun_upd_twist)
  obtain f g where fl: "flush_index st' wd' = (f, g)" by fastforce
  have fg: "log_rep ext ((hd segs @ [(line, wd_seq wd)]) # tl segs) f g"
    "writer_config f = writer_config st" "wd_seq g = wd_seq wd + 1" "wd_sent g = wd_sent wd"
    using flush_index_rep(1) [OF rep'] flush_index_frame(1,5,6) [of st' wd'] config
    unfolding fl by (simp_all add: wd'_def)
  then show "log_rep ext ((hd segs @ [(line, wd_seq wd)]) # tl segs) (fst (append_line line st wd))
      (snd (append_line line st wd))"
    "writer_config (fst (append_line line st wd)) = writer_config st"
    "wd_seq (snd (append_line line st wd)) = wd_seq wd + 1"
    "wd_sent (snd (append_line line st wd)) = wd_sent wd @ [(lw_process_name st, lw_stream st, line)]"
    using rep' config unfolding eq fl
    by (auto simp: log_rep_def writer_config_def Let_def wd'_def)
qed

section \<open>Rotating\<close>

text \<open>The whole log complete on disk, as a reader finds it.\<close>

definition stored :: "string \<Rightarrow> fs \<Rightarrow> log_entry list list \<Rightarrow> bool" where
  "stored log fs segs \<longleftrightarrow>
     (\<forall>n. if n < length segs then seg_on_disk log fs n (segs ! n) else seg_absent log fs n)"

lemma stored_history:
  assumes "stored log fs segs" and "segs \<noteq> []"
  shows "history log (length segs - 1) fs"
proof -
  have "(fs (seg_path log i) \<noteq> None \<longleftrightarrow> i \<le> length segs - 1) \<and>
    (fs (idx_path_for (seg_path log i)) \<noteq> None \<longleftrightarrow> i \<le> length segs - 1)" for i
  proof -
    have "i \<le> length segs - 1 \<longleftrightarrow> i < length segs" using assms(2) by (cases segs) auto
    then show ?thesis
      using assms(1) [unfolded stored_def, rule_format, of i]
      by (cases "i < length segs") (auto simp: seg_on_disk_def seg_absent_def)
  qed
  then show ?thesis unfolding history_def chained_def by blast
qed

lemma rotate_stored:
  assumes "is_log_path log ext" and st: "stored log fs segs" and "segs \<noteq> []"
    and m: "0 < m" "length segs \<le> Suc m"
  shows "seg_absent log (rotate_log_files log m fs) 0"
    "rotated_on_disk log (rotate_log_files log m fs) (take m segs)"
proof -
  have le: "length segs - 1 \<le> m" using m by simp
  note shift = rotate_shifts [OF assms(1) stored_history [OF st assms(3)] m(1) le]
  show "seg_absent log (rotate_log_files log m fs) 0"
    using shift(1) [of 0] shift(2) [of 0] by (simp add: seg_absent_def)
  have "if n < length (take m segs) then seg_on_disk log (rotate_log_files log m fs) (Suc n) (take m segs ! n)
    else seg_absent log (rotate_log_files log m fs) (Suc n)" for n
    using st [unfolded stored_def, rule_format, of n] shift(1) [of "Suc n"] shift(2) [of "Suc n"]
    by (cases "n < length segs"; cases "n < m") (simp_all add: seg_on_disk_def seg_absent_def)
  then show "rotated_on_disk log (rotate_log_files log m fs) (take m segs)"
    unfolding rotated_on_disk_def by blast
qed

lemma log_rep_stored:
  assumes "log_rep ext segs st wd"
  shows "stored (lw_log_path st) (wd_fs (snd (flush_index st wd))) segs"
proof -
  let ?fs = "wd_fs (snd (flush_index st wd))"
  note rep = flush_index_rep [OF assms] flush_index_frame(1) [of st wd]
  have path: "lw_log_path (fst (flush_index st wd)) = lw_log_path st"
    using rep(3) by (simp add: writer_config_def)
  have cur: "seg_on_disk (lw_log_path st) ?fs 0 (hd segs)" "segs \<noteq> []"
    using rep(1,2) path by (simp_all add: log_rep_def seg_on_disk_def)
  have "if n < length segs then seg_on_disk (lw_log_path st) ?fs n (segs ! n)
    else seg_absent (lw_log_path st) ?fs n" for n
  proof (cases n)
    case 0
    with cur show ?thesis by (simp add: hd_conv_nth)
  next
    case (Suc k)
    have "rotated_on_disk (lw_log_path st) ?fs (tl segs)"
      using rep(1) path by (simp add: log_rep_def)
    from this [unfolded rotated_on_disk_def, rule_format, of k] show ?thesis
      using Suc cur(2) by (cases segs) auto
  qed
  then show ?thesis unfolding stored_def by blast
qed

lemma rotate_for_line_rep:
  assumes rep: "log_rep ext segs st wd"
  obtains st' wd' where "rotate_for_line (\<lambda>_. None) st wd = (True, st', wd')"
    "log_rep ext ([] # take (lw_max_rotated_files st) segs) st' wd'"
    "writer_config st' = writer_config st" "wd_seq wd' = wd_seq wd" "wd_sent wd' = wd_sent wd"
proof -
  obtain f g where fl: "flush_index st wd = (f, g)" by fastforce
  note frame = flush_index_frame(1,5,6) [of st wd, unfolded fl fst_conv snd_conv]
  then have path: "lw_log_path f = lw_log_path st" "lw_max_rotated_files f = lw_max_rotated_files st"
    by (simp_all add: writer_config_def)
  let ?log = "lw_log_path st" and ?m = "lw_max_rotated_files st"
  define fs where "fs = rotate_log_files ?log ?m (wd_fs g)"
  have stored: "stored ?log (wd_fs g) segs" using log_rep_stored [OF rep] by (simp add: fl)
  have facts: "is_log_path ?log ext" "segs \<noteq> []" "0 < ?m" "length segs \<le> Suc ?m"
    using rep by (simp_all add: log_rep_def)
  note rot = rotate_stored [OF facts(1) stored facts(2-4), folded fs_def]
  define st' where "st' = f\<lparr>lw_file := True, lw_idx_writer := index_create (wd_seq g),
    lw_bytes_written := 0, lw_lines_since_idx_flush := 0\<rparr>"
  define wd' where "wd' = g\<lparr>wd_fs := fs(?log \<mapsto> [], idx_path_for ?log \<mapsto> bw_disk (index_create (wd_seq g)))\<rparr>"
  have "rotate_for_line (\<lambda>_. None) st wd = (True, st', wd')"
    by (simp add: rotate_for_line_def fl Let_def put_index_def path fs_def st'_def wd'_def)
  moreover have "log_rep ext ([] # take ?m segs) st' wd'"
    using rot(2) facts index_state_create [of "wd_seq g"] path
    by (auto simp: log_rep_def st'_def wd'_def intro!: exI [of _ "wd_seq g"])
  moreover have "writer_config st' = writer_config st" "wd_seq wd' = wd_seq wd" "wd_sent wd' = wd_sent wd"
    using frame by (simp_all add: writer_config_def st'_def wd'_def)
  ultimately show thesis by (rule that)
qed

section \<open>The writer refines the abstract log\<close>

lemma write_line_rep:
  assumes rep: "log_rep ext segs st wd"
  shows "log_rep ext (log_write (lw_max_bytes st) (lw_max_rotated_files st) (line, wd_seq wd) segs)
      (fst (write_line (\<lambda>_. None) line st wd)) (snd (write_line (\<lambda>_. None) line st wd)) \<and>
    writer_config (fst (write_line (\<lambda>_. None) line st wd)) = writer_config st \<and>
    wd_seq (snd (write_line (\<lambda>_. None) line st wd)) = wd_seq wd + 1 \<and>
    wd_sent (snd (write_line (\<lambda>_. None) line st wd))
      = wd_sent wd @ [(lw_process_name st, lw_stream st, line)]"
proof (cases "0 < lw_max_bytes st \<and> lw_max_bytes st < lw_bytes_written st + (length line + 1)")
  case False
  then have "write_line (\<lambda>_. None) line st wd = append_line line st wd"
    unfolding write_line_def Let_def by auto
  moreover have "log_write (lw_max_bytes st) (lw_max_rotated_files st) (line, wd_seq wd) segs
      = (hd segs @ [(line, wd_seq wd)]) # tl segs"
    using False rep by (auto simp: log_write_def log_rep_def)
  ultimately show ?thesis using append_line_rep [OF rep, of line] by simp
next
  case True
  obtain st' wd' where rot: "rotate_for_line (\<lambda>_. None) st wd = (True, st', wd')"
    and rep': "log_rep ext ([] # take (lw_max_rotated_files st) segs) st' wd'"
    and frame: "writer_config st' = writer_config st" "wd_seq wd' = wd_seq wd" "wd_sent wd' = wd_sent wd"
    using rotate_for_line_rep [OF rep] by blast
  have "write_line (\<lambda>_. None) line st wd = append_line line st' wd'"
    using True unfolding write_line_def Let_def rot by simp
  moreover have "log_write (lw_max_bytes st) (lw_max_rotated_files st) (line, wd_seq wd) segs
      = [(line, wd_seq wd)] # take (lw_max_rotated_files st) segs"
    using True rep by (simp add: log_write_def log_rep_def)
  ultimately show ?thesis
    using append_line_rep [OF rep', of line] frame by (simp add: writer_config_def)
qed

section \<open>Whole captures\<close>

text \<open>Lines with the sequence numbers they get when nobody else writes.\<close>

fun numbered :: "u64 \<Rightarrow> string list \<Rightarrow> log_entry list" where
  "numbered s [] = []"
| "numbered s (l # ls) = (l, s) # numbered (s + 1) ls"

lemma fst_numbered [simp]: "map fst (numbered s ls) = ls"
  by (induction ls arbitrary: s) simp_all

lemma write_lines_rep:
  assumes "log_rep ext segs st wd"
  shows "case fold (\<lambda>line (st, wd). write_line (\<lambda>_. None) line st wd) ls (st, wd) of (st', wd') \<Rightarrow>
    log_rep ext (fold (log_write (lw_max_bytes st) (lw_max_rotated_files st)) (numbered (wd_seq wd) ls) segs) st' wd' \<and>
    writer_config st' = writer_config st \<and> wd_seq wd' = wd_seq wd + of_nat (length ls) \<and>
    wd_sent wd' = wd_sent wd @ map (\<lambda>l. (lw_process_name st, lw_stream st, l)) ls"
  using assms
proof (induction ls arbitrary: segs st wd)
  case (Cons l ls)
  obtain st' wd' where step: "write_line (\<lambda>_. None) l st wd = (st', wd')" by fastforce
  note rep = write_line_rep [OF Cons.prems, of l, unfolded step fst_conv snd_conv]
  then have config: "lw_max_bytes st' = lw_max_bytes st" "lw_process_name st' = lw_process_name st"
    "lw_max_rotated_files st' = lw_max_rotated_files st" "lw_stream st' = lw_stream st"
    by (simp_all add: writer_config_def)
  from Cons.IH [OF conjunct1 [OF rep]] rep show ?case
    by (auto simp: step config split: prod.splits)
qed simp

text \<open>A log that has just been opened: an empty file with an index header, after any rotated ones.\<close>

lemma log_rep_opened:
  assumes "is_log_path log ext" "0 < m" "length old \<le> m" "rotated_on_disk log (wd_fs wd) old"
    and "wd_fs wd log = Some []" "wd_fs wd (idx_path_for log) = Some (header_bytes b)"
  shows "log_rep ext ([] # old) (log_state_new log process stream max_bytes m b) wd"
  using assms index_state_create [of b]
  by (auto simp: log_rep_def log_state_new_def index_create_content)

text \<open>What the abstract log keeps: a suffix of what was written, in segments within the limit
  (or of a single line).\<close>

definition within :: "nat \<Rightarrow> log_entry list \<Rightarrow> bool" where
  "within max_bytes seg \<longleftrightarrow> max_bytes = 0 \<or> length seg \<le> 1 \<or> length (seg_text seg) \<le> max_bytes"

lemma log_write_facts:
  assumes "segs \<noteq> []" "length segs \<le> Suc m"
  shows "log_write b m e segs \<noteq> []" "length (log_write b m e segs) \<le> Suc m"
    "suffix (log_entries (log_write b m e segs)) (log_entries segs @ [e])"
    "list_all (within b) segs \<Longrightarrow> list_all (within b) (log_write b m e segs)"
proof -
  show "log_write b m e segs \<noteq> []" "length (log_write b m e segs) \<le> Suc m"
    using assms by (auto simp: log_write_def)
  have "concat (rev segs) = concat (rev (drop m segs)) @ concat (rev (take m segs))"
    by (simp flip: concat_append rev_append)
  then have "suffix (log_entries (take (Suc m) ([e] # segs))) (log_entries segs @ [e])"
    by (simp add: log_entries_def suffix_def)
  moreover have "log_entries ((hd segs @ [e]) # tl segs) = log_entries segs @ [e]"
    using assms(1) by (cases segs) (simp_all add: log_entries_def)
  ultimately show "suffix (log_entries (log_write b m e segs)) (log_entries segs @ [e])"
    by (simp add: log_write_def)
  show "list_all (within b) (log_write b m e segs)" if "list_all (within b) segs"
  proof (cases "0 < b \<and> b < length (seg_text (hd segs)) + length (line_bytes (fst e))")
    case True
    have "within b [e]" by (simp add: within_def)
    with that have "\<forall>seg \<in> set (take m segs). within b seg"
      by (auto simp: list_all_iff dest: in_set_takeD)
    with True \<open>within b [e]\<close> show ?thesis by (simp add: log_write_def list_all_iff)
  next
    case False
    then have "within b (hd segs @ [e])" by (auto simp: within_def)
    with False that assms(1) show ?thesis
      by (cases segs) (auto simp: log_write_def)
  qed
qed

lemma log_writes_facts:
  assumes "segs \<noteq> []" "length segs \<le> Suc m"
  shows "fold (log_write b m) es segs \<noteq> [] \<and> length (fold (log_write b m) es segs) \<le> Suc m \<and>
    suffix (log_entries (fold (log_write b m) es segs)) (log_entries segs @ es) \<and>
    (list_all (within b) segs \<longrightarrow> list_all (within b) (fold (log_write b m) es segs))"
  using assms
proof (induction es arbitrary: segs)
  case (Cons e es)
  note facts = log_write_facts [OF Cons.prems, of b e]
  from Cons.IH [OF facts(1,2)] facts(3,4) show ?case
    using suffix_order.trans [of _ "log_entries (log_write b m e segs) @ es" "log_entries segs @ e # es"]
    by (auto simp: suffix_def)
qed simp

text \<open>C17: the log files are the abstract log. Capturing any events with a writer whose files are
  those of an abstract log leaves the files, indexes included, of the abstract log after writing the
  captured lines; every line is broadcast, in order, and takes the next sequence number.\<close>

theorem capture_refines_log:
  assumes "log_rep ext segs st wd"
  shows "case capture_output (\<lambda>_. None) events st wd of (st', wd') \<Rightarrow>
    stored (lw_log_path st) (wd_fs wd')
      (fold (log_write (lw_max_bytes st) (lw_max_rotated_files st))
        (numbered (wd_seq wd) (captured_lines events)) segs) \<and>
    wd_sent wd' = wd_sent wd @ map (\<lambda>l. (lw_process_name st, lw_stream st, l)) (captured_lines events) \<and>
    wd_seq wd' = wd_seq wd + of_nat (length (captured_lines events))"
proof -
  obtain st1 wd1 where run: "fold (\<lambda>line (st, wd). write_line (\<lambda>_. None) line st wd)
      (captured_lines events) (st, wd) = (st1, wd1)" by fastforce
  note rep = write_lines_rep [OF assms, of "captured_lines events", unfolded run prod.case]
  then have path: "lw_log_path st1 = lw_log_path st" by (simp add: writer_config_def)
  have eq: "capture_output (\<lambda>_. None) events st wd = flush_index st1 wd1"
    unfolding capture_output_def run by simp
  from log_rep_stored [OF conjunct1 [OF rep]] rep show ?thesis
    unfolding eq path by (simp add: case_prod_unfold)
qed

definition example_log :: string where
  "example_log = ''/logs/web.stdout''"

definition example_world :: log_world where
  "example_world =
     \<lparr>wd_fs = [example_log \<mapsto> [], idx_path_for example_log \<mapsto> header_bytes 0], wd_seq = 0, wd_sent = []\<rparr>"

lemma example_log_path: "is_log_path example_log ''stdout''"
  unfolding is_log_path_def example_log_def
  by (intro conjI disjI1 exI [of _ "''/logs''"] exI [of _ "''web''"]) simp_all

lemma example_log_rep:
  "log_rep ''stdout'' [[]] (log_state_new example_log ''web'' Stdout 8 2 0) example_world"
proof (rule log_rep_opened [OF example_log_path])
  show "rotated_on_disk example_log (wd_fs example_world) []"
    by (simp add: rotated_on_disk_def seg_absent_def example_world_def)
qed (simp_all add: example_world_def)

theorem capture_refines_log_witness:
  "case capture_output (\<lambda>_. None) [PipeLine ''one'', SupLine ''two'', PipeLine ''three'', PipeEnd]
      (log_state_new example_log ''web'' Stdout 8 2 0) example_world of (st', wd') \<Rightarrow>
    stored example_log (wd_fs wd') [[(''three'', 2)], [(''one'', 0), (''two'', 1)]] \<and>
    wd_sent wd' = [(''web'', Stdout, ''one''), (''web'', Stdout, ''two''), (''web'', Stdout, ''three'')] \<and>
    wd_seq wd' = 3"
proof -
  have "fold (log_write 8 2) (numbered 0 [''one'', ''two'', ''three'']) [[]]
      = [[(''three'', 2)], [(''one'', 0), (''two'', 1)]]"
    by (simp add: log_write_def numeral_2_eq_2)
  with capture_refines_log [OF example_log_rep,
      of "[PipeLine ''one'', SupLine ''two'', PipeLine ''three'', PipeEnd]"]
  show ?thesis by (simp add: log_state_new_def example_world_def case_prod_unfold)
qed

text \<open>C18: only the oldest lines are lost. After a capture the files hold, oldest segment first, the
  last lines of what they held followed by what was captured, in order and with no gap, in at most
  \<open>max_rotated_files\<close> rotated segments; no segment passes the limit unless a single line does.\<close>

theorem capture_loses_only_oldest:
  assumes "log_rep ext segs st wd" and "list_all (within (lw_max_bytes st)) segs"
  shows "\<exists>kept. stored (lw_log_path st) (wd_fs (snd (capture_output (\<lambda>_. None) events st wd))) kept \<and>
    length kept \<le> Suc (lw_max_rotated_files st) \<and> list_all (within (lw_max_bytes st)) kept \<and>
    suffix (map fst (log_entries kept)) (map fst (log_entries segs) @ captured_lines events)"
proof -
  define kept where "kept = fold (log_write (lw_max_bytes st) (lw_max_rotated_files st))
    (numbered (wd_seq wd) (captured_lines events)) segs"
  have "segs \<noteq> []" "length segs \<le> Suc (lw_max_rotated_files st)"
    using assms(1) by (simp_all add: log_rep_def)
  note facts = log_writes_facts [OF this, of "lw_max_bytes st" "numbered (wd_seq wd) (captured_lines events)",
    folded kept_def]
  obtain st1 wd1 where run: "fold (\<lambda>line (st, wd). write_line (\<lambda>_. None) line st wd)
      (captured_lines events) (st, wd) = (st1, wd1)" by fastforce
  note rep = write_lines_rep [OF assms(1), of "captured_lines events", unfolded run prod.case]
  then have path: "lw_log_path st1 = lw_log_path st" by (simp add: writer_config_def)
  have "capture_output (\<lambda>_. None) events st wd = flush_index st1 wd1"
    unfolding capture_output_def run by simp
  then have "stored (lw_log_path st) (wd_fs (snd (capture_output (\<lambda>_. None) events st wd))) kept"
    using log_rep_stored [OF conjunct1 [OF rep]] unfolding kept_def path by simp
  moreover have "suffix (map fst (log_entries kept)) (map fst (log_entries segs) @ captured_lines events)"
    using map_mono_suffix [of "log_entries kept" _ fst] facts by fastforce
  ultimately show ?thesis using facts assms(2) by blast
qed

theorem capture_loses_only_oldest_witness:
  "\<exists>kept. stored example_log (wd_fs (snd (capture_output (\<lambda>_. None)
      (map PipeLine [''one'', ''two'', ''three'', ''four'']) (log_state_new example_log ''web'' Stdout 8 2 0)
      example_world))) kept \<and> length kept \<le> 3 \<and> list_all (within 8) kept \<and>
    suffix (map fst (log_entries kept)) [''one'', ''two'', ''three'', ''four'']"
  using capture_loses_only_oldest [OF example_log_rep,
      of "map PipeLine [''one'', ''two'', ''three'', ''four'']"]
  by (simp add: log_state_new_def within_def log_entries_def numeral_3_eq_3)

end
