(* ===== verification/Disk_Log_Reader.thy ===== *)
theory Disk_Log_Reader
  imports Log_History
begin

text \<open>
  \<open>src/tui/disk_log_reader.rs\<close>: random access to the lines of a process's logs through the index
  files, over the rotated segments and, for both streams, merged by sequence number. One call of a
  reader's operation is one instant: the file system and the clock (\<open>view\<close>) do not change during
  it. A file's text is its bytes; the reader's UTF-8 check is not modelled.
\<close>

section \<open>Segments\<close>

datatype line_source = SrcStdout | SrcStderr

text \<open>The sources can be enumerated, so quantifiers over them are executable; stdout comes first.\<close>

instantiation line_source :: enum
begin

definition enum_line_source :: "line_source list" where
  "enum_line_source = [SrcStdout, SrcStderr]"

definition enum_all_line_source :: "(line_source \<Rightarrow> bool) \<Rightarrow> bool" where
  "enum_all_line_source P \<longleftrightarrow> P SrcStdout \<and> P SrcStderr"

definition enum_ex_line_source :: "(line_source \<Rightarrow> bool) \<Rightarrow> bool" where
  "enum_ex_line_source P \<longleftrightarrow> P SrcStdout \<or> P SrcStderr"

instance
  by standard (auto simp: enum_line_source_def enum_all_line_source_def enum_ex_line_source_def
      intro: line_source.exhaust, (metis line_source.exhaust)+)

end

lemma all_line_source: "(\<forall>s :: line_source. P s) \<longleftrightarrow> P SrcStdout \<and> P SrcStderr"
  by (metis line_source.exhaust)

lemma line_source_eqI: "\<lbrakk>f SrcStdout = g SrcStdout; f SrcStderr = g SrcStderr\<rbrakk> \<Longrightarrow> f = g"
  for f g :: "line_source \<Rightarrow> 'a"
  by (simp add: fun_eq_iff all_line_source)

datatype stream_mode = ModeStdout | ModeStderr | ModeBoth

record segment =
  sg_log_path :: string
  sg_idx_path :: string
  sg_line_count :: nat

record segment_cache =
  sc_stdout :: "segment list"
  sc_stderr :: "segment list"
  sc_refreshed_at :: nat

definition SEGMENT_CACHE_TTL_MS :: nat where
  "SEGMENT_CACHE_TTL_MS = 500"

record disk_log_reader =
  dr_log_dir :: string
  dr_process :: string
  dr_cache :: "segment_cache option"

definition disk_log_reader_new :: "string \<Rightarrow> string \<Rightarrow> disk_log_reader" where
  "disk_log_reader_new dir process = \<lparr>dr_log_dir = dir, dr_process = process, dr_cache = None\<rparr>"

record view =
  vw_fs :: fs
  vw_now :: nat

section \<open>Reading lines of a file\<close>

text \<open>\<open>BufRead::read_line\<close>: the bytes up to and with the next newline, and the rest.\<close>

definition newline :: byte where
  "newline = 10"

definition read_line :: "byte list \<Rightarrow> byte list \<times> byte list" where
  "read_line bs =
     (let l = takeWhile (\<lambda>b. b \<noteq> newline) bs
      in (take (length l + 1) bs, drop (length l + 1) bs))"

definition chomp :: "byte list \<Rightarrow> byte list" where
  "chomp l = (if l \<noteq> [] \<and> last l = newline then butlast l else l)"

fun read_n_lines :: "nat \<Rightarrow> byte list \<Rightarrow> string list" where
  "read_n_lines 0 bs = []"
| "read_n_lines (Suc n) bs = text_of (chomp (fst (read_line bs))) # read_n_lines n (snd (read_line bs))"

text \<open>\<open>BufRead::lines\<close>, which also drops a carriage return before the newline.\<close>

definition chomp_crlf :: "byte list \<Rightarrow> byte list" where
  "chomp_crlf l =
     (if l \<noteq> [] \<and> last l = newline then
        (let l = butlast l in if l \<noteq> [] \<and> last l = 13 then butlast l else l)
      else l)"

lemma length_read_line: "bs \<noteq> [] \<Longrightarrow> length (snd (read_line bs)) < length bs"
  by (simp add: read_line_def Let_def)

function file_lines :: "byte list \<Rightarrow> string list" where
  "file_lines bs =
     (if bs = [] then []
      else text_of (chomp_crlf (fst (read_line bs))) # file_lines (snd (read_line bs)))"
  by auto
termination by (relation "measure length") (use length_read_line in auto)

declare file_lines.simps [simp del]

definition read_lines_from_segment ::
  "fs \<Rightarrow> string \<Rightarrow> string \<Rightarrow> nat \<Rightarrow> nat \<Rightarrow> io_error + string list" where
  "read_lines_from_segment fs log idx start n =
     (if n = 0 then Inr []
      else
        (case index_open (fs_open idx fs) of
           Inr (Some idx_reader) \<Rightarrow>
             (case index_read_range idx_reader start n of
                Inl e \<Rightarrow> Inl e
              | Inr [] \<Rightarrow> Inr []
              | Inr (r # rs) \<Rightarrow>
                  (case fs_open log fs of
                     Inl e \<Rightarrow> Inl e
                   | Inr file \<Rightarrow>
                       Inr (read_n_lines (length (r # rs)) (drop (unat (ix_byte_offset r)) file))))
         | _ \<Rightarrow>
             (case fs_open log fs of
                Inl e \<Rightarrow> Inl e
              | Inr file \<Rightarrow> Inr (take n (drop start (file_lines file))))))"

fun read_lines_from ::
  "fs \<Rightarrow> nat \<Rightarrow> segment list \<Rightarrow> nat \<Rightarrow> nat \<Rightarrow> io_error + string list" where
  "read_lines_from fs cumulative [] start n = Inr []"
| "read_lines_from fs cumulative (seg # segs) start n =
     (let seg_end = cumulative + sg_line_count seg;
          window_end = start + n
      in if seg_end \<le> start \<or> cumulative \<ge> window_end then read_lines_from fs seg_end segs start n
         else
           (let read_start = max start cumulative - cumulative;
                read_end = min window_end seg_end - cumulative
            in (case read_lines_from_segment fs (sg_log_path seg) (sg_idx_path seg)
                       read_start (read_end - read_start) of
                  Inl e \<Rightarrow> Inl e
                | Inr lines \<Rightarrow>
                    (case read_lines_from fs seg_end segs start n of
                       Inl e \<Rightarrow> Inl e
                     | Inr rest \<Rightarrow> Inr (lines @ rest)))))"

definition read_lines_from_segments ::
  "fs \<Rightarrow> segment list \<Rightarrow> nat \<Rightarrow> nat \<Rightarrow> io_error + string list" where
  "read_lines_from_segments fs segs start n = read_lines_from fs 0 segs start n"

fun read_single_from :: "fs \<Rightarrow> nat \<Rightarrow> segment list \<Rightarrow> nat \<Rightarrow> io_error + string" where
  "read_single_from fs cumulative [] line =
     Inl (io_err KInvalidInput (''line '' @ dec_nat line @ '' out of range (total: ''
       @ dec_nat cumulative @ '')''))"
| "read_single_from fs cumulative (seg # segs) line =
     (if line < cumulative + sg_line_count seg then
        (case read_lines_from_segment fs (sg_log_path seg) (sg_idx_path seg) (line - cumulative) 1 of
           Inl e \<Rightarrow> Inl e
         | Inr [] \<Rightarrow> Inl (io_err KUnexpectedEof ''line not found in segment'')
         | Inr (l # _) \<Rightarrow> Inr l)
      else read_single_from fs (cumulative + sg_line_count seg) segs line)"

definition read_single_line_from :: "fs \<Rightarrow> segment list \<Rightarrow> nat \<Rightarrow> io_error + string" where
  "read_single_line_from fs segs line = read_single_from fs 0 segs line"

section \<open>Finding the segments\<close>

definition idx_line_count :: "fs \<Rightarrow> string \<Rightarrow> nat option" where
  "idx_line_count fs idx =
     (case line_count_from_metadata (fs_open idx fs) of Inl _ \<Rightarrow> None | Inr n \<Rightarrow> Some n)"

definition count_lines_in_file :: "fs \<Rightarrow> string \<Rightarrow> io_error + nat" where
  "count_lines_in_file fs path =
     (case fs_open path fs of Inl e \<Rightarrow> Inl e | Inr file \<Rightarrow> Inr (length (file_lines file)))"

definition segment_at :: "fs \<Rightarrow> string \<Rightarrow> segment" where
  "segment_at fs path =
     \<lparr>sg_log_path = path, sg_idx_path = idx_path_for path,
      sg_line_count =
        (case idx_line_count fs (idx_path_for path) of
           Some n \<Rightarrow> n
         | None \<Rightarrow> (case count_lines_in_file fs path of Inr n \<Rightarrow> n | Inl _ \<Rightarrow> 0))\<rparr>"

definition source_ext :: "line_source \<Rightarrow> string" where
  "source_ext source = (case source of SrcStdout \<Rightarrow> ''stdout'' | SrcStderr \<Rightarrow> ''stderr'')"

text \<open>The loop over \<open>1u32..\<close>: \<open>left\<close> is how many numbers the range still holds.\<close>

fun rotated_segments :: "fs \<Rightarrow> string \<Rightarrow> string \<Rightarrow> nat \<Rightarrow> nat \<Rightarrow> segment list" where
  "rotated_segments fs base ext n left =
     (if left = 0 then []
      else
        (let log = with_extension base (ext @ ''.'' @ dec_nat n)
         in if \<not> fs_exists log fs then []
            else segment_at fs log # rotated_segments fs base ext (n + 1) (left - 1)))"

declare rotated_segments.simps [simp del]

definition ROTATED_LIMIT :: nat where
  "ROTATED_LIMIT = 4294967295"

definition discover_segments :: "fs \<Rightarrow> string \<Rightarrow> string \<Rightarrow> line_source \<Rightarrow> segment list" where
  "discover_segments fs dir process source =
     (let ext = source_ext source;
          base = path_join dir (process @ ''.'' @ ext)
      in rev (rotated_segments fs base ext 1 ROTATED_LIMIT)
           @ (if fs_exists base fs then [segment_at fs base] else []))"

section \<open>The reader's operations\<close>

definition discover_cache :: "view \<Rightarrow> disk_log_reader \<Rightarrow> segment_cache" where
  "discover_cache vw r =
     \<lparr>sc_stdout = discover_segments (vw_fs vw) (dr_log_dir r) (dr_process r) SrcStdout,
      sc_stderr = discover_segments (vw_fs vw) (dr_log_dir r) (dr_process r) SrcStderr,
      sc_refreshed_at = vw_now vw\<rparr>"

definition segments :: "view \<Rightarrow> line_source \<Rightarrow> disk_log_reader \<Rightarrow> segment list \<times> disk_log_reader" where
  "segments vw source r =
     (let stale = (case dr_cache r of
                     None \<Rightarrow> True
                   | Some c \<Rightarrow> vw_now vw - sc_refreshed_at c > SEGMENT_CACHE_TTL_MS);
          r = (if stale then r\<lparr>dr_cache := Some (discover_cache vw r)\<rparr> else r);
          cache = the (dr_cache r)
      in (case source of SrcStdout \<Rightarrow> sc_stdout cache | SrcStderr \<Rightarrow> sc_stderr cache, r))"

definition line_count :: "view \<Rightarrow> line_source \<Rightarrow> disk_log_reader \<Rightarrow> nat \<times> disk_log_reader" where
  "line_count vw source r =
     (let (segs, r) = segments vw source r in (sum_list (map sg_line_count segs), r))"

definition line_count_both :: "view \<Rightarrow> disk_log_reader \<Rightarrow> nat \<times> disk_log_reader" where
  "line_count_both vw r =
     (let (outs, r) = segments vw SrcStdout r;
          (errs, r) = segments vw SrcStderr r
      in (sum_list (map sg_line_count outs) + sum_list (map sg_line_count errs), r))"

definition read_lines ::
  "view \<Rightarrow> line_source \<Rightarrow> nat \<Rightarrow> nat \<Rightarrow> disk_log_reader \<Rightarrow> (io_error + string list) \<times> disk_log_reader" where
  "read_lines vw source start n r =
     (let (segs, r) = segments vw source r in (read_lines_from_segments (vw_fs vw) segs start n, r))"

text \<open>The merged index: the entries of one stream's segments, then the stable sort by sequence
  number (\<open>sort_by_key\<close>).\<close>

fun merged_entries ::
  "fs \<Rightarrow> line_source \<Rightarrow> nat \<Rightarrow> segment list \<Rightarrow> io_error + (u64 \<times> line_source \<times> nat) list" where
  "merged_entries fs source line_offset [] = Inr []"
| "merged_entries fs source line_offset (seg # segs) =
     (case (case index_open (fs_open (sg_idx_path seg) fs) of
              Inr (Some reader) \<Rightarrow>
                (case index_read_range reader 0 (sg_line_count seg) of
                   Inl e \<Rightarrow> Inl e
                 | Inr records \<Rightarrow>
                     Inr (map (\<lambda>(i, rec). (ix_seq rec, source, line_offset + i)) (enumerate 0 records)))
            | _ \<Rightarrow> Inr (map (\<lambda>i. (- 1, source, line_offset + i)) [0..<sg_line_count seg])) of
        Inl e \<Rightarrow> Inl e
      | Inr entries \<Rightarrow>
          (case merged_entries fs source (line_offset + sg_line_count seg) segs of
             Inl e \<Rightarrow> Inl e
           | Inr rest \<Rightarrow> Inr (entries @ rest)))"

definition build_merged_index ::
  "view \<Rightarrow> disk_log_reader \<Rightarrow> (io_error + (line_source \<times> nat) list) \<times> disk_log_reader" where
  "build_merged_index vw r =
     (let (outs, r) = segments vw SrcStdout r
      in (case merged_entries (vw_fs vw) SrcStdout 0 outs of
            Inl e \<Rightarrow> (Inl e, r)
          | Inr entries \<Rightarrow>
              (let (errs, r) = segments vw SrcStderr r
               in (case merged_entries (vw_fs vw) SrcStderr 0 errs of
                     Inl e \<Rightarrow> (Inl e, r)
                   | Inr entries' \<Rightarrow> (Inr (map snd (sort_key fst (entries @ entries'))), r)))))"

text \<open>One batch of single-line reads into the result.\<close>

fun fill_lines ::
  "view \<Rightarrow> line_source \<Rightarrow> (nat \<times> nat) list \<Rightarrow> (line_source \<times> string) list \<Rightarrow> disk_log_reader
     \<Rightarrow> (io_error + (line_source \<times> string) list) \<times> disk_log_reader" where
  "fill_lines vw source [] result r = (Inr result, r)"
| "fill_lines vw source ((i, stream_line) # needed) result r =
     (let (segs, r) = segments vw source r
      in (case read_single_line_from (vw_fs vw) segs stream_line of
            Inl e \<Rightarrow> (Inl e, r)
          | Inr line \<Rightarrow> fill_lines vw source needed (result[i := (source, line)]) r))"

definition needed_lines :: "line_source \<Rightarrow> (line_source \<times> nat) list \<Rightarrow> (nat \<times> nat) list" where
  "needed_lines source window =
     map (\<lambda>(i, src, line). (i, line)) (filter (\<lambda>(i, src, line). src = source) (enumerate 0 window))"

text \<open>As in \<open>index_read_range\<close>, that \<open>start + count\<close> fits a \<open>usize\<close> is left to the caller.\<close>

definition read_interleaved ::
  "view \<Rightarrow> nat \<Rightarrow> nat \<Rightarrow> disk_log_reader \<Rightarrow> (io_error + (line_source \<times> string) list) \<times> disk_log_reader" where
  "read_interleaved vw start n r =
     (let (merged, r) = build_merged_index vw r
      in (case merged of
            Inl e \<Rightarrow> (Inl e, r)
          | Inr merged \<Rightarrow>
              (let end = min (start + n) (length merged)
               in if start \<ge> end then (Inr [], r)
                  else
                    (let window = take (end - start) (drop start merged);
                         result = replicate (end - start) (SrcStdout, []);
                         (filled, r) = fill_lines vw SrcStdout (needed_lines SrcStdout window) result r
                     in (case filled of
                           Inl e \<Rightarrow> (Inl e, r)
                         | Inr result \<Rightarrow>
                             fill_lines vw SrcStderr (needed_lines SrcStderr window) result r)))))"

section \<open>Searching\<close>

definition CHUNK :: nat where
  "CHUNK = 1000"

text \<open>One pass of the chunked scan: \<open>read\<close> is \<open>read_lines\<close> or \<open>read_interleaved\<close>; a chunk that
  cannot be read is skipped.\<close>

function scan_chunks ::
  "(nat \<Rightarrow> nat \<Rightarrow> disk_log_reader \<Rightarrow> ('e + string list) \<times> disk_log_reader) \<Rightarrow> string \<Rightarrow> nat \<Rightarrow> nat
     \<Rightarrow> disk_log_reader \<Rightarrow> nat list \<times> disk_log_reader" where
  "scan_chunks read pat cnt offset r =
     (if offset < cnt then
        (let n = min CHUNK (cnt - offset);
             (lines, r) = read offset n r;
             found = (case lines of
                        Inl _ \<Rightarrow> []
                      | Inr lines \<Rightarrow>
                          map (\<lambda>(i, line). offset + i) (filter (\<lambda>(i, line). str_contains pat line) (enumerate 0 lines)));
             (rest, r) = scan_chunks read pat cnt (offset + n) r
         in (found @ rest, r))
      else ([], r))"
  by auto
termination by (relation "measure (\<lambda>(read, pat, cnt, offset, r). cnt - offset)") (auto simp: CHUNK_def)

declare scan_chunks.simps [simp del]

definition scan_single_stream ::
  "view \<Rightarrow> string \<Rightarrow> line_source \<Rightarrow> nat \<Rightarrow> disk_log_reader \<Rightarrow> nat list \<times> disk_log_reader" where
  "scan_single_stream vw pat source start_from r =
     (let (cnt, r) = line_count vw source r
      in if cnt \<le> start_from then ([], r)
         else scan_chunks (read_lines vw source) pat cnt start_from r)"

definition interleaved_texts ::
  "view \<Rightarrow> nat \<Rightarrow> nat \<Rightarrow> disk_log_reader \<Rightarrow> (io_error + string list) \<times> disk_log_reader" where
  "interleaved_texts vw start n r =
     (let (lines, r) = read_interleaved vw start n r
      in (case lines of Inl e \<Rightarrow> Inl e | Inr lines \<Rightarrow> Inr (map snd lines), r))"

definition scan_interleaved ::
  "view \<Rightarrow> string \<Rightarrow> nat \<Rightarrow> disk_log_reader \<Rightarrow> nat list \<times> disk_log_reader" where
  "scan_interleaved vw pat start_from r =
     (let (cnt, r) = line_count_both vw r
      in if cnt \<le> start_from then ([], r)
         else scan_chunks (interleaved_texts vw) pat cnt start_from r)"

definition scan_matching_lines_from ::
  "view \<Rightarrow> string \<Rightarrow> stream_mode \<Rightarrow> nat \<Rightarrow> disk_log_reader \<Rightarrow> nat list \<times> disk_log_reader" where
  "scan_matching_lines_from vw pat mode start_from r =
     (case mode of
        ModeStdout \<Rightarrow> scan_single_stream vw pat SrcStdout start_from r
      | ModeStderr \<Rightarrow> scan_single_stream vw pat SrcStderr start_from r
      | ModeBoth \<Rightarrow> scan_interleaved vw pat start_from r)"

definition scan_matching_lines ::
  "view \<Rightarrow> string \<Rightarrow> stream_mode \<Rightarrow> disk_log_reader \<Rightarrow> nat list \<times> disk_log_reader" where
  "scan_matching_lines vw pat mode r = scan_matching_lines_from vw pat mode 0 r"

text \<open>Lines by number; one that cannot be read is empty.\<close>

definition scattered_one ::
  "view \<Rightarrow> stream_mode \<Rightarrow> nat \<Rightarrow> disk_log_reader \<Rightarrow> (line_source \<times> string) \<times> disk_log_reader" where
  "scattered_one vw mode ln r =
     (case mode of
        ModeBoth \<Rightarrow>
          (let (lines, r) = read_interleaved vw ln 1 r
           in (case lines of Inr (entry # _) \<Rightarrow> entry | _ \<Rightarrow> (SrcStdout, []), r))
      | _ \<Rightarrow>
          (let source = (if mode = ModeStdout then SrcStdout else SrcStderr);
               (lines, r) = read_lines vw source ln 1 r
           in (case lines of Inr (line # _) \<Rightarrow> (source, line) | _ \<Rightarrow> (source, []), r)))"

fun read_scattered_lines ::
  "view \<Rightarrow> stream_mode \<Rightarrow> nat list \<Rightarrow> disk_log_reader \<Rightarrow> (line_source \<times> string) list \<times> disk_log_reader" where
  "read_scattered_lines vw mode [] r = ([], r)"
| "read_scattered_lines vw mode (ln # lns) r =
     (let (x, r) = scattered_one vw mode ln r;
          (xs, r) = read_scattered_lines vw mode lns r
      in (x # xs, r))"

end
