(* ===== verification/Log_Reading.thy ===== *)
theory Log_Reading
  imports Disk_Log_Reader
begin

text \<open>
  The disk reader against the writer: on the files of an abstract log (\<open>Log_History\<close>), each with an
  index that may lag behind its text, reading, counting, merging and searching are list functions of
  the lines the indexes cover.
\<close>

section \<open>Logs a reader may find\<close>

text \<open>A segment: what was written to it, and how many of its lines the index on disk covers.\<close>

type_synonym seg_view = "log_entry list \<times> nat"

definition seg_readable :: "string \<Rightarrow> fs \<Rightarrow> nat \<Rightarrow> seg_view \<Rightarrow> bool" where
  "seg_readable log fs n sv \<longleftrightarrow>
     fs (seg_path log n) = Some (seg_text (fst sv)) \<and>
     (\<exists>b. fs (idx_path_for (seg_path log n)) = Some (index_bytes b (take (snd sv) (seg_records 0 (fst sv)))))"

definition readable :: "string \<Rightarrow> fs \<Rightarrow> seg_view list \<Rightarrow> bool" where
  "readable log fs svs \<longleftrightarrow>
     (\<forall>n. if n < length svs then seg_readable log fs n (svs ! n) else fs (seg_path log n) = None)"

definition seg_visible :: "seg_view \<Rightarrow> log_entry list" where
  "seg_visible sv = take (snd sv) (fst sv)"

definition visible :: "seg_view list \<Rightarrow> log_entry list" where
  "visible svs = concat (rev (map seg_visible svs))"

text \<open>Lines without newlines, in a file whose length is a 64-bit offset.\<close>

definition plain :: "seg_view \<Rightarrow> bool" where
  "plain sv \<longleftrightarrow> list_all (\<lambda>e. CHR ''\<newline>'' \<notin> set (fst e)) (fst sv) \<and> length (seg_text (fst sv)) < 2 ^ 64"

lemma stored_readable:
  assumes "stored log fs segs"
  shows "readable log fs (map (\<lambda>es. (es, length es)) segs)"
proof -
  have "if n < length segs then seg_readable log fs n (segs ! n, length (segs ! n))
    else fs (seg_path log n) = None" for n
    using assms [unfolded stored_def, rule_format, of n]
    by (cases "n < length segs") (simp_all add: seg_on_disk_def seg_readable_def seg_absent_def)
  then show ?thesis by (simp add: readable_def)
qed

lemma visible_complete: "visible (map (\<lambda>es. (es, length es)) segs) = log_entries segs"
  by (simp add: visible_def log_entries_def seg_visible_def comp_def)

section \<open>Lines of a segment\<close>

lemma byte_newline: "of_nat (of_char c) = (10 :: byte) \<longleftrightarrow> c = CHR ''\<newline>''"
proof
  assume "of_nat (of_char c) = (10 :: byte)"
  then have "unat (of_nat (of_char c) :: byte) = 10" by simp
  moreover have "(of_char c :: nat) < 256" by simp
  ultimately have "(of_char c :: nat) = 10" by (simp add: unat_of_nat)
  then have "c = char_of (10 :: nat)" using char_of_char [of c, where 'a = nat] by metis
  also have "\<dots> = CHR ''\<newline>''" by code_simp
  finally show "c = CHR ''\<newline>''" .
qed simp

lemma no_newline_bytes: "CHR ''\<newline>'' \<notin> set l \<Longrightarrow> newline \<notin> set (bytes_of l)"
proof
  assume "CHR ''\<newline>'' \<notin> set l" and "newline \<in> set (bytes_of l)"
  then obtain c where "c \<in> set l" and c: "newline = of_nat (of_char c)"
    unfolding bytes_of_def set_map by blast
  from c have "c = CHR ''\<newline>''"
    unfolding newline_def byte_newline [symmetric] by (rule sym)
  with \<open>c \<in> set l\<close> \<open>CHR ''\<newline>'' \<notin> set l\<close> show False by simp
qed

lemma line_bytes_newline: "line_bytes l = bytes_of l @ [newline]"
  by (simp add: line_bytes_def bytes_of_def newline_def)

lemma read_line_bytes:
  assumes "CHR ''\<newline>'' \<notin> set l"
  shows "read_line (line_bytes l @ rest) = (line_bytes l, rest)"
    "chomp (line_bytes l) = bytes_of l"
proof -
  have "takeWhile (\<lambda>b. b \<noteq> newline) (line_bytes l @ rest) = bytes_of l"
    using no_newline_bytes [OF assms]
    by (auto simp: line_bytes_newline takeWhile_tail takeWhile_eq_all_conv)
  then show "read_line (line_bytes l @ rest) = (line_bytes l, rest)"
    by (simp add: read_line_def Let_def line_bytes_newline)
  show "chomp (line_bytes l) = bytes_of l"
    by (simp add: chomp_def line_bytes_newline)
qed

lemma read_n_lines_text:
  "\<lbrakk>list_all (\<lambda>e. CHR ''\<newline>'' \<notin> set (fst e)) es; n \<le> length es\<rbrakk>
    \<Longrightarrow> read_n_lines n (seg_text es) = map fst (take n es)"
proof (induction es arbitrary: n)
  case (Cons e es)
  then show ?case by (cases n) (simp_all add: read_line_bytes)
qed simp

text \<open>A line as a capture task writes it: no newline in it, no carriage return at its end.\<close>

definition log_line :: "string \<Rightarrow> bool" where
  "log_line l \<longleftrightarrow> CHR ''\<newline>'' \<notin> set l \<and> (l = [] \<or> last l \<noteq> CHR 0x0D)"

lemma byte_cr: "of_nat (of_char c) = (13 :: byte) \<longleftrightarrow> c = CHR 0x0D"
proof
  assume "of_nat (of_char c) = (13 :: byte)"
  then have "unat (of_nat (of_char c) :: byte) = 13" by simp
  moreover have "(of_char c :: nat) < 256" by simp
  ultimately have "(of_char c :: nat) = 13" by (simp add: unat_of_nat)
  then have "c = char_of (13 :: nat)" using char_of_char [of c, where 'a = nat] by metis
  also have "\<dots> = CHR 0x0D" by code_simp
  finally show "c = CHR 0x0D" .
qed simp

lemma chomp_crlf_line:
  assumes "log_line l"
  shows "chomp_crlf (line_bytes l) = bytes_of l"
proof (cases "l = []")
  case True
  then show ?thesis by (simp add: chomp_crlf_def line_bytes_newline bytes_of_def)
next
  case False
  then have "bytes_of l \<noteq> []" "last (bytes_of l) = of_nat (of_char (last l))"
    by (simp_all add: bytes_of_def last_map)
  moreover have "last l \<noteq> CHR 0x0D" using assms False by (simp add: log_line_def)
  ultimately have "last (bytes_of l) \<noteq> 13" using byte_cr [of "last l"] by metis
  then show ?thesis
    by (simp add: chomp_crlf_def line_bytes_newline Let_def)
qed

lemma file_lines_text: "list_all log_line ls \<Longrightarrow> file_lines (concat (map line_bytes ls)) = ls"
proof (induction ls)
  case (Cons l ls)
  have nl: "CHR ''\<newline>'' \<notin> set l" using Cons.prems by (simp add: log_line_def)
  have "line_bytes l @ concat (map line_bytes ls) \<noteq> []" by (simp add: line_bytes_def bytes_of_def)
  with Cons read_line_bytes(1) [OF nl] chomp_crlf_line [of l] show ?case
    by (subst file_lines.simps) simp
qed (simp add: file_lines.simps)

lemma take_seg_records: "take k (seg_records off es) = seg_records off (take k es)"
  by (induction es arbitrary: off k) (auto simp: take_Cons split: nat.split)

lemma drop_seg_records:
  "drop s (seg_records off es) = seg_records (off + length (seg_text (take s es))) (drop s es)"
proof (induction es arbitrary: off s)
  case (Cons e es)
  then show ?case by (cases s) (simp_all add: ac_simps)
qed simp

lemma seg_open:
  assumes "seg_readable log fs n sv"
  obtains b where "index_open (fs_open (idx_path_for (seg_path log n)) fs) =
      Inr (Some \<lparr>ir_file = index_bytes b (take (snd sv) (seg_records 0 (fst sv))),
                ir_line_count = length (seg_visible sv), ir_seq_base = b\<rparr>)"
    "line_count_from_metadata (fs_open (idx_path_for (seg_path log n)) fs) = Inr (length (seg_visible sv))"
proof -
  obtain b where "fs (idx_path_for (seg_path log n)) = Some (index_bytes b (take (snd sv) (seg_records 0 (fst sv))))"
    using assms by (auto simp: seg_readable_def)
  then show thesis
    by (intro that [of b])
      (simp_all add: fs_open_def index_open_bytes seg_visible_def line_count_from_metadata_def
        length_index_bytes RECORD_SIZE_def)
qed

lemma seg_read:
  assumes r: "seg_readable log fs n sv" and p: "plain sv"
  shows "read_lines_from_segment fs (seg_path log n) (idx_path_for (seg_path log n)) s c =
    Inr (take c (drop s (map fst (seg_visible sv))))"
proof (cases "c = 0")
  case False
  obtain b where opened: "index_open (fs_open (idx_path_for (seg_path log n)) fs) =
      Inr (Some \<lparr>ir_file = index_bytes b (take (snd sv) (seg_records 0 (fst sv))),
                ir_line_count = length (seg_visible sv), ir_seq_base = b\<rparr>)"
    using seg_open [OF r] by blast
  let ?reader = "\<lparr>ir_file = index_bytes b (take (snd sv) (seg_records 0 (fst sv))),
    ir_line_count = length (seg_visible sv), ir_seq_base = b\<rparr>"
  define vis where "vis = seg_visible sv"
  define want where "want = take c (drop s vis)"
  define off where "off = length (seg_text (take s vis))"
  have "index_read_range ?reader s c = Inr (take c (drop s (seg_records 0 vis)))"
    by (subst index_read_range_bytes [where rs = "take (snd sv) (seg_records 0 (fst sv))"])
      (simp_all add: vis_def seg_visible_def take_seg_records)
  then have range: "index_read_range ?reader s c = Inr (seg_records off want)"
    by (simp add: drop_seg_records take_seg_records off_def want_def)
  have split: "fst sv = take s vis @ drop s vis @ drop (snd sv) (fst sv)"
    using append_take_drop_id [of "snd sv" "fst sv"] append_take_drop_id [of s vis]
    unfolding vis_def seg_visible_def by (metis append.assoc)
  have content: "seg_text (fst sv) = seg_text (take s vis) @ seg_text (drop s vis @ drop (snd sv) (fst sv))"
    by (subst split) simp
  have "off \<le> length (seg_text (fst sv))" unfolding off_def content by simp
  then have "off < 2 ^ 64" using p by (simp add: plain_def)
  then have unat: "unat (of_nat off :: u64) = off" by (simp add: unat_of_nat)
  have plain: "list_all (\<lambda>e. CHR ''\<newline>'' \<notin> set (fst e)) (drop s vis @ drop (snd sv) (fst sv))"
    using p split unfolding plain_def by (metis list_all_append)
  have "read_n_lines (length want) (drop off (seg_text (fst sv))) = map fst want"
  proof -
    let ?rest = "drop s vis @ drop (snd sv) (fst sv)"
    have "drop off (seg_text (fst sv)) = seg_text ?rest" unfolding content off_def by simp
    moreover have "read_n_lines (length want) (seg_text ?rest) = map fst (take (length want) ?rest)"
      by (rule read_n_lines_text [OF plain]) (simp add: want_def)
    moreover have "take (length want) ?rest = want" by (auto simp: want_def min_def)
    ultimately show ?thesis by (simp only:)
  qed
  moreover have "fs_open (seg_path log n) fs = Inr (seg_text (fst sv))"
    using r by (simp add: fs_open_def seg_readable_def)
  moreover have "take c (drop s (map fst vis)) = map fst want"
    by (simp add: want_def take_map drop_map)
  ultimately show ?thesis
    using False unfolding vis_def [symmetric]
    by (cases want) (simp_all add: read_lines_from_segment_def opened range unat)
qed (simp add: read_lines_from_segment_def)

section \<open>Spans of segments\<close>

text \<open>A segment that serves the entries \<open>es\<close>.\<close>

definition serves :: "fs \<Rightarrow> segment \<Rightarrow> log_entry list \<Rightarrow> bool" where
  "serves fs sg es \<longleftrightarrow>
     sg_line_count sg = length es \<and>
     (\<forall>s c. read_lines_from_segment fs (sg_log_path sg) (sg_idx_path sg) s c
        = Inr (take c (drop s (map fst es)))) \<and>
     (\<exists>r recs. index_open (fs_open (sg_idx_path sg) fs) = Inr (Some r) \<and>
        index_read_range r 0 (length es) = Inr recs \<and> map ix_seq recs = map snd es)"

lemma map_seq_records: "map ix_seq (seg_records off es) = map snd es"
  by (induction es arbitrary: off) simp_all

lemma segment_at_serves:
  assumes "seg_readable log fs n sv" and "plain sv"
  shows "serves fs (segment_at fs (seg_path log n)) (seg_visible sv)"
proof -
  obtain b where b: "index_open (fs_open (idx_path_for (seg_path log n)) fs) =
      Inr (Some \<lparr>ir_file = index_bytes b (take (snd sv) (seg_records 0 (fst sv))),
                ir_line_count = length (seg_visible sv), ir_seq_base = b\<rparr>)"
    and len: "line_count_from_metadata (fs_open (idx_path_for (seg_path log n)) fs) = Inr (length (seg_visible sv))"
    using seg_open [OF assms(1)] by blast
  have "index_read_range \<lparr>ir_file = index_bytes b (take (snd sv) (seg_records 0 (fst sv))),
      ir_line_count = length (seg_visible sv), ir_seq_base = b\<rparr> 0 (length (seg_visible sv))
    = Inr (seg_records 0 (seg_visible sv))"
    by (subst index_read_range_bytes [where rs = "take (snd sv) (seg_records 0 (fst sv))"])
      (simp_all add: seg_visible_def take_seg_records, auto simp: min_def)
  with b len seg_read [OF assms] map_seq_records show ?thesis
    by (simp add: serves_def segment_at_def idx_line_count_def)
qed

lemma read_lines_from_serves:
  assumes "list_all2 (serves fs) segs parts"
  shows "read_lines_from fs cum segs start n =
    Inr (take (start + n - cum - (start - cum)) (drop (start - cum) (map fst (concat parts))))"
  using assms
proof (induction segs parts arbitrary: cum rule: list_all2_induct)
  case (Cons sg segs es parts)
  let ?L = "length es"
  have count: "sg_line_count sg = ?L"
    and read: "read_lines_from_segment fs (sg_log_path sg) (sg_idx_path sg) s c
      = Inr (take c (drop s (map fst es)))" for s c
    using Cons.hyps(1) by (auto simp: serves_def)
  note IH = Cons.IH [of "cum + ?L"]
  show ?case
  proof (cases "cum + ?L \<le> start \<or> cum \<ge> start + n")
    case True
    then show ?thesis using IH by (auto simp: count)
  next
    case False
    define s where "s = start - cum"
    define k where "k = start + n - cum - s"
    have s: "max start cum - cum = s"
      "min (start + n) (cum + ?L) - cum - s = min k (?L - s)"
      "s - ?L = 0" "k - (?L - s) = start + n - (cum + ?L)" "start - (cum + ?L) = 0"
      using False by (auto simp: s_def k_def)
    have take: "take (min k (?L - s)) (drop s (map fst es)) = take k (drop s (map fst es))"
      by (auto simp: min_def)
    have "read_lines_from fs cum (sg # segs) start n =
        Inr (take k (drop s (map fst es)) @ take (start + n - (cum + ?L)) (map fst (concat parts)))"
      using False IH unfolding read_lines_from.simps count Let_def s read take by simp
    also have "\<dots> = Inr (take k (drop s (map fst (concat (es # parts)))))"
      using s(3,4) by simp
    finally show ?thesis unfolding s_def k_def .
  qed
qed simp

lemma read_single_from_serves:
  assumes "list_all2 (serves fs) segs parts" and "cum \<le> line" and "line < cum + length (concat parts)"
  shows "read_single_from fs cum segs line = Inr (fst (concat parts ! (line - cum)))"
  using assms
proof (induction segs parts arbitrary: cum rule: list_all2_induct)
  case (Cons sg segs es parts)
  have count: "sg_line_count sg = length es"
    and read: "read_lines_from_segment fs (sg_log_path sg) (sg_idx_path sg) s c
      = Inr (take c (drop s (map fst es)))" for s c
    using Cons.hyps(1) by (auto simp: serves_def)
  show ?case
  proof (cases "line < cum + length es")
    case True
    with Cons.prems have "take 1 (drop (line - cum) (map fst es)) = [fst (es ! (line - cum))]"
      by (simp add: take_Suc_conv_app_nth [of 0, simplified] less_diff_conv2)
    with True Cons.prems show ?thesis by (simp add: count read nth_append less_diff_conv2)
  next
    case False
    with Cons.IH [of "cum + length es"] Cons.prems show ?thesis
      by (simp add: count nth_append less_diff_conv2)
  qed
qed simp

lemma merged_entries_serves:
  assumes "list_all2 (serves fs) segs parts"
  shows "merged_entries fs source off segs =
    Inr (map (\<lambda>(i, e). (snd e, source, i)) (enumerate off (concat parts)))"
  using assms
proof (induction segs parts arbitrary: off rule: list_all2_induct)
  case (Cons sg segs es parts)
  obtain r recs where r: "index_open (fs_open (sg_idx_path sg) fs) = Inr (Some r)"
    "index_read_range r 0 (length es) = Inr recs" "map ix_seq recs = map snd es"
    and count: "sg_line_count sg = length es"
    using Cons.hyps(1) by (auto simp: serves_def)
  have len: "length recs = length es" using arg_cong [where f = length, OF r(3)] by simp
  have "map (\<lambda>(i, rec). (ix_seq rec, source, off + i)) (enumerate 0 recs)
      = map (\<lambda>(i, e). (snd e, source, i)) (enumerate off es)"
  proof (rule nth_equalityI)
    fix i
    assume "i < length (map (\<lambda>(i, rec). (ix_seq rec, source, off + i)) (enumerate 0 recs))"
    moreover then have "map ix_seq recs ! i = map snd es ! i" using r(3) by simp
    ultimately show "map (\<lambda>(i, rec). (ix_seq rec, source, off + i)) (enumerate 0 recs) ! i
        = map (\<lambda>(i, e). (snd e, source, i)) (enumerate off es) ! i"
      by (simp add: nth_enumerate_eq len)
  qed (simp add: len)
  with r count Cons.IH show ?case by (simp add: enumerate_append_eq)
qed simp

section \<open>Finding the segments\<close>

lemma rotated_segments_readable:
  assumes log: "is_log_path log ext" and r: "readable log fs svs" and n: "0 < n" "n + left \<ge> length svs"
  shows "rotated_segments fs log ext n left = map (segment_at fs \<circ> seg_path log) [n..<length svs]"
  using n
proof (induction left arbitrary: n)
  case 0
  then show ?case by (simp add: rotated_segments.simps)
next
  case (Suc left)
  have path: "with_extension log (ext @ CHR ''.'' # dec_nat n) = seg_path log n"
    using rotated_seg_path [OF log Suc.prems(1)] by (simp add: rotated_path_def)
  have there: "fs_exists (seg_path log n) fs \<longleftrightarrow> n < length svs"
    using r [unfolded readable_def, rule_format, of n] by (auto simp: fs_exists_def seg_readable_def split: if_splits)
  show ?case
  proof (cases "n < length svs")
    case True
    with Suc.IH [of "n + 1"] Suc.prems show ?thesis
      by (simp add: rotated_segments.simps [of _ _ _ n] Let_def path there upt_conv_Cons)
  qed (simp add: rotated_segments.simps [of _ _ _ n] Let_def path there)
qed

lemma discover_serves:
  assumes log: "is_log_path (path_join dir (process @ ''.'' @ source_ext source)) (source_ext source)"
    and r: "readable (path_join dir (process @ ''.'' @ source_ext source)) fs svs"
    and p: "list_all plain svs" and n: "length svs \<le> ROTATED_LIMIT"
  shows "list_all2 (serves fs) (discover_segments fs dir process source) (rev (map seg_visible svs))"
proof -
  let ?log = "path_join dir (process @ ''.'' @ source_ext source)"
  have "fs_exists ?log fs \<longleftrightarrow> 0 < length svs"
    using r [unfolded readable_def, rule_format, of 0] by (auto simp: fs_exists_def seg_readable_def split: if_splits)
  moreover have "rotated_segments fs ?log (source_ext source) 1 ROTATED_LIMIT
      = map (segment_at fs \<circ> seg_path ?log) [1..<length svs]"
    by (rule rotated_segments_readable [OF log r]) (use n in simp_all)
  ultimately have "discover_segments fs dir process source
      = rev (map (segment_at fs \<circ> seg_path ?log) [0..<length svs])"
    by (simp add: discover_segments_def Let_def upt_conv_Cons [of 0] del: upt_Suc)
  moreover have "list_all2 (serves fs) (map (segment_at fs \<circ> seg_path ?log) [0..<length svs]) (map seg_visible svs)"
  proof (rule list_all2_all_nthI)
    fix i
    assume "i < length (map (segment_at fs \<circ> seg_path ?log) [0..<length svs])"
    then have i: "i < length svs" by simp
    then have "seg_readable ?log fs i (svs ! i)" using r by (simp add: readable_def)
    moreover have "plain (svs ! i)" using p i by (simp add: list_all_length)
    ultimately show "serves fs (map (segment_at fs \<circ> seg_path ?log) [0..<length svs] ! i) (map seg_visible svs ! i)"
      using segment_at_serves i by simp
  qed simp
  ultimately show ?thesis by (simp add: list_all2_rev)
qed

text \<open>What a reader sees: its segments, cached or discovered now, serve these lines.\<close>

definition sees :: "view \<Rightarrow> (line_source \<Rightarrow> log_entry list) \<Rightarrow> disk_log_reader \<Rightarrow> bool" where
  "sees vw L r \<longleftrightarrow>
     (\<forall>source. \<exists>parts. list_all2 (serves (vw_fs vw)) (fst (segments vw source r)) parts \<and>
        concat parts = L source)"

lemma segments_again:
  "segments vw s (snd (segments vw s' r)) = (fst (segments vw s r), snd (segments vw s' r))"
  by (cases s; cases s') (auto simp: segments_def Let_def discover_cache_def split: option.splits)

lemma sees_segments [intro]: "sees vw L r \<Longrightarrow> sees vw L (snd (segments vw s r))"
  by (simp add: sees_def segments_again)

lemma new_reader_sees:
  assumes "\<And>source. is_log_path (path_join dir (process @ ''.'' @ source_ext source)) (source_ext source)"
    and "\<And>source. readable (path_join dir (process @ ''.'' @ source_ext source)) (vw_fs vw) (svs source)"
    and "\<And>source. list_all plain (svs source) \<and> length (svs source) \<le> ROTATED_LIMIT"
  shows "sees vw (visible \<circ> svs) (disk_log_reader_new dir process)"
  unfolding sees_def
proof
  fix source
  have "fst (segments vw source (disk_log_reader_new dir process))
      = discover_segments (vw_fs vw) dir process source"
    by (cases source) (simp_all add: segments_def disk_log_reader_new_def discover_cache_def)
  then show "\<exists>parts. list_all2 (serves (vw_fs vw)) (fst (segments vw source (disk_log_reader_new dir process))) parts \<and>
      concat parts = (visible \<circ> svs) source"
    using discover_serves [OF assms(1,2)] assms(3) [of source]
    by (auto simp: visible_def intro!: exI [of _ "rev (map seg_visible (svs source))"])
qed

lemma line_count_sees:
  assumes "sees vw L r"
  shows "fst (line_count vw s r) = length (L s)" "sees vw L (snd (line_count vw s r))"
    "fst (line_count_both vw r) = length (L SrcStdout) + length (L SrcStderr)"
    "sees vw L (snd (line_count_both vw r))"
proof -
  have sum: "sum_list (map sg_line_count (fst (segments vw s r))) = length (L s)" for s
  proof -
    obtain parts where "list_all2 (serves (vw_fs vw)) (fst (segments vw s r)) parts" "concat parts = L s"
      using assms by (auto simp: sees_def)
    moreover have "sum_list (map sg_line_count segs) = length (concat parts)"
      if "list_all2 (serves (vw_fs vw)) segs parts" for segs parts
      using that by (induction rule: list_all2_induct) (simp_all add: serves_def)
    ultimately show ?thesis by simp
  qed
  show "fst (line_count vw s r) = length (L s)" "sees vw L (snd (line_count vw s r))"
    using sum sees_segments [OF assms] by (simp_all add: line_count_def case_prod_unfold)
  show "fst (line_count_both vw r) = length (L SrcStdout) + length (L SrcStderr)"
    "sees vw L (snd (line_count_both vw r))"
    using sum sees_segments [OF assms]
    by (simp_all add: line_count_both_def case_prod_unfold segments_again)
qed

lemma read_lines_sees:
  assumes "sees vw L r"
  shows "fst (read_lines vw s start n r) = Inr (take n (drop start (map fst (L s))))"
    "sees vw L (snd (read_lines vw s start n r))"
proof -
  obtain parts where "list_all2 (serves (vw_fs vw)) (fst (segments vw s r)) parts" "concat parts = L s"
    using assms by (auto simp: sees_def)
  with read_lines_from_serves [OF this(1), of 0 start n]
  show "fst (read_lines vw s start n r) = Inr (take n (drop start (map fst (L s))))"
    by (simp add: read_lines_def read_lines_from_segments_def case_prod_unfold)
  show "sees vw L (snd (read_lines vw s start n r))"
    using sees_segments [OF assms] by (simp add: read_lines_def case_prod_unfold Let_def)
qed

section \<open>The merged view\<close>

definition tagged :: "line_source \<Rightarrow> log_entry list \<Rightarrow> (u64 \<times> line_source \<times> string) list" where
  "tagged source es = map (\<lambda>e. (snd e, source, fst e)) es"

definition merged_view :: "(line_source \<Rightarrow> log_entry list) \<Rightarrow> (line_source \<times> string) list" where
  "merged_view L = map snd (sort_key fst (tagged SrcStdout (L SrcStdout) @ tagged SrcStderr (L SrcStderr)))"

definition numbered_lines :: "(line_source \<Rightarrow> log_entry list) \<Rightarrow> line_source \<Rightarrow> (u64 \<times> line_source \<times> nat) list" where
  "numbered_lines L source = map (\<lambda>(i, e). (snd e, source, i)) (enumerate 0 (L source))"

definition line_at :: "(line_source \<Rightarrow> log_entry list) \<Rightarrow> line_source \<times> nat \<Rightarrow> line_source \<times> string" where
  "line_at L p = (fst p, fst (L (fst p) ! snd p))"

lemma insort_key_map:
  "(\<And>x. k (f x) = k' x) \<Longrightarrow> insort_key k (f a) (map f xs) = map f (insort_key k' a xs)"
  by (induction xs) simp_all

lemma sort_key_map: "(\<And>x. k (f x) = k' x) \<Longrightarrow> sort_key k (map f xs) = map f (sort_key k' xs)"
  by (induction xs) (simp_all add: insort_key_map [of k f k'])

lemma numbered_lines_tagged:
  "map (\<lambda>(q, p). (q, line_at L p)) (numbered_lines L source) = tagged source (L source)"
  by (rule nth_equalityI) (simp_all add: numbered_lines_def tagged_def line_at_def nth_enumerate_eq)

lemma numbered_lines_valid:
  "(q, s, i) \<in> set (numbered_lines L source) \<Longrightarrow> s = source \<and> i < length (L s)"
  by (auto simp: numbered_lines_def in_set_enumerate_eq)

lemma build_merged_index_sees:
  assumes "sees vw L r"
  obtains W where "fst (build_merged_index vw r) = Inr W" "sees vw L (snd (build_merged_index vw r))"
    "map (line_at L) W = merged_view L" "\<forall>(s, i) \<in> set W. i < length (L s)"
proof -
  define W where "W = map snd (sort_key fst (numbered_lines L SrcStdout @ numbered_lines L SrcStderr))"
  have entries: "merged_entries (vw_fs vw) s 0 (fst (segments vw s r)) = Inr (numbered_lines L s)" for s
  proof -
    obtain parts where "list_all2 (serves (vw_fs vw)) (fst (segments vw s r)) parts" "concat parts = L s"
      using assms by (auto simp: sees_def)
    with merged_entries_serves [OF this(1)] show ?thesis by (simp add: numbered_lines_def)
  qed
  have "fst (build_merged_index vw r) = Inr W \<and> sees vw L (snd (build_merged_index vw r))"
    using sees_segments [OF assms]
    by (simp add: build_merged_index_def case_prod_unfold Let_def segments_again entries W_def)
  moreover have "map (line_at L) W = merged_view L"
  proof -
    let ?g = "\<lambda>(q, p). (q, line_at L p)"
    have "merged_view L = map snd (sort_key fst (map ?g (numbered_lines L SrcStdout @ numbered_lines L SrcStderr)))"
      by (simp add: merged_view_def numbered_lines_tagged)
    also have "\<dots> = map snd (map ?g (sort_key fst (numbered_lines L SrcStdout @ numbered_lines L SrcStderr)))"
      by (subst sort_key_map [where k' = fst]) auto
    finally show ?thesis by (simp add: W_def comp_def case_prod_unfold)
  qed
  moreover have "\<forall>(s, i) \<in> set W. i < length (L s)"
    using numbered_lines_valid by (fastforce simp: W_def)
  ultimately show thesis using that by blast
qed

text \<open>Filling a result from the lines one stream needs.\<close>

lemma fill_lines_sees:
  assumes "sees vw L r" and "\<forall>(i, ln) \<in> set needed. ln < length (L s)"
  shows "fst (fill_lines vw s needed res r) =
      Inr (fold (\<lambda>(i, ln) res. res[i := line_at L (s, ln)]) needed res)"
    "sees vw L (snd (fill_lines vw s needed res r))"
proof -
  have "fst (fill_lines vw s needed res r) =
      Inr (fold (\<lambda>(i, ln) res. res[i := line_at L (s, ln)]) needed res) \<and>
    sees vw L (snd (fill_lines vw s needed res r))"
    using assms
  proof (induction needed arbitrary: res r)
    case (Cons x needed)
    obtain i ln where x: "x = (i, ln)" by fastforce
    obtain parts where "list_all2 (serves (vw_fs vw)) (fst (segments vw s r)) parts" "concat parts = L s"
      using Cons.prems(1) by (auto simp: sees_def)
    with read_single_from_serves [OF this(1), of 0 ln] Cons.prems(2)
    have "read_single_line_from (vw_fs vw) (fst (segments vw s r)) ln = Inr (fst (L s ! ln))"
      by (simp add: read_single_line_from_def x)
    with Cons.IH [OF sees_segments [OF Cons.prems(1), of s]] Cons.prems(2) show ?case
      by (simp add: x case_prod_unfold Let_def line_at_def)
  qed simp
  then show "fst (fill_lines vw s needed res r) =
      Inr (fold (\<lambda>(i, ln) res. res[i := line_at L (s, ln)]) needed res)"
    "sees vw L (snd (fill_lines vw s needed res r))" by blast+
qed

lemma fold_update_nth:
  assumes "distinct (map fst xs)" "j < length res"
  shows "fold (\<lambda>(i, y) res. res[i := f y]) xs res ! j
    = (case map_of xs j of None \<Rightarrow> res ! j | Some y \<Rightarrow> f y)"
    "length (fold (\<lambda>(i, y) res. res[i := f y]) xs res) = length res"
  using assms
  by (induction xs arbitrary: res)
    (auto simp: map_of_eq_None_iff nth_list_update split: option.split, force+)

lemma needed_lines_facts:
  "distinct (map fst (needed_lines s W))"
  "map_of (needed_lines s W) j = (if j < length W \<and> fst (W ! j) = s then Some (snd (W ! j)) else None)"
proof -
  have "sorted_wrt (<) (map fst (needed_lines s (W :: (line_source \<times> nat) list)))" for W
  proof -
    have "sorted_wrt (<) (map fst (filter P (enumerate 0 W)))" for P
      by (rule sorted_wrt_map [THEN iffD2], rule sorted_wrt_filter)
        (simp flip: sorted_wrt_map)
    then show ?thesis by (simp add: needed_lines_def comp_def case_prod_unfold)
  qed
  then show d: "distinct (map fst (needed_lines s W))" by (simp add: strict_sorted_iff)
  show "map_of (needed_lines s W) j = (if j < length W \<and> fst (W ! j) = s then Some (snd (W ! j)) else None)"
  proof (cases "j < length W \<and> fst (W ! j) = s")
    case True
    then have "(j, W ! j) \<in> set (filter (\<lambda>(i, src, line). src = s) (enumerate 0 W))"
      by (auto simp: in_set_enumerate_eq)
    then have "(j, snd (W ! j)) \<in> set (needed_lines s W)"
      unfolding needed_lines_def set_map by (rule rev_image_eqI) (simp add: case_prod_unfold)
    with d True show ?thesis by simp
  next
    case False
    then have "j \<notin> fst ` set (needed_lines s W)"
      by (auto simp: needed_lines_def in_set_enumerate_eq)
    with False show ?thesis by (auto simp: map_of_eq_None_iff)
  qed
qed

lemma fill_length [simp]: "length (fold (\<lambda>(i, y) res. res[i := f y]) xs res) = length res"
  by (induction xs arbitrary: res) auto

lemma fill_nth:
  "j < length res \<Longrightarrow> fold (\<lambda>(i, y) res. res[i := f y]) (needed_lines s W) res ! j =
    (if j < length W \<and> fst (W ! j) = s then f (snd (W ! j)) else res ! j)"
  by (simp add: fold_update_nth(1) [OF needed_lines_facts(1)] needed_lines_facts(2))

lemma needed_lines_sub: "(i, ln) \<in> set (needed_lines s W) \<Longrightarrow> (s, ln) \<in> set W"
proof -
  assume "(i, ln) \<in> set (needed_lines s W)"
  then have "i < length W" "W ! i = (s, ln)"
    by (auto simp: needed_lines_def in_set_enumerate_eq)
  then show "(s, ln) \<in> set W" using nth_mem by metis
qed

lemma read_interleaved_sees:
  assumes "sees vw L r"
  shows "fst (read_interleaved vw start n r) = Inr (take n (drop start (merged_view L)))"
    "sees vw L (snd (read_interleaved vw start n r))"
proof -
  obtain W where W: "fst (build_merged_index vw r) = Inr W" "sees vw L (snd (build_merged_index vw r))"
    and map: "map (line_at L) W = merged_view L" and valid: "\<forall>(s, i) \<in> set W. i < length (L s)"
    using build_merged_index_sees [OF assms] by blast
  define fin where "fin = min (start + n) (length W)"
  have "fst (read_interleaved vw start n r) = Inr (map (line_at L) (take n (drop start W))) \<and>
    sees vw L (snd (read_interleaved vw start n r))"
  proof (cases "start \<ge> fin")
    case True
    then have none: "take n (drop start W) = []" by (auto simp: fin_def)
    show ?thesis
      using True W unfolding fin_def none
      by (simp add: read_interleaved_def case_prod_unfold Let_def)
  next
    case False
    define win where "win = take (fin - start) (drop start W)"
    have win: "win = take n (drop start W)" "length win = fin - start"
      using False by (auto simp: win_def fin_def min_def)
    have ok: "\<forall>(i, ln) \<in> set (needed_lines s win). ln < length (L s)" for s
    proof -
      have "(s, ln) \<in> set W" if "(i, ln) \<in> set (needed_lines s win)" for i ln
        using needed_lines_sub [OF that] unfolding win_def by (blast dest: in_set_takeD in_set_dropD)
      with valid show ?thesis by fastforce
    qed
    let ?upd = "\<lambda>s. fold (\<lambda>(i, ln) res. res[i := line_at L (s, ln)]) (needed_lines s win)"
    let ?res = "replicate (fin - start) (SrcStdout, [])"
    note fill1 = fill_lines_sees [OF W(2) ok, of SrcStdout ?res]
    note fill2 = fill_lines_sees [OF fill1(2) ok, of SrcStderr "?upd SrcStdout ?res"]
    have "?upd SrcStderr (?upd SrcStdout ?res) = map (line_at L) win"
    proof (rule nth_equalityI)
      show "length (?upd SrcStderr (?upd SrcStdout ?res)) = length (map (line_at L) win)"
        by (simp add: win(2))
      fix j
      assume "j < length (?upd SrcStderr (?upd SrcStdout ?res))"
      then have "j < length win" by (simp add: win(2))
      then show "?upd SrcStderr (?upd SrcStdout ?res) ! j = map (line_at L) win ! j"
        by (cases "fst (win ! j)") (simp_all add: fill_nth win(2) line_at_def)
    qed
    then have "fst (read_interleaved vw start n r) = Inr (map (line_at L) win)"
      "sees vw L (snd (read_interleaved vw start n r))"
      using False W(1) fill1 fill2 unfolding fin_def [symmetric] win_def
      by (simp_all add: read_interleaved_def case_prod_unfold Let_def flip: fin_def)
    then show ?thesis by (simp add: win(1))
  qed
  then show "fst (read_interleaved vw start n r) = Inr (take n (drop start (merged_view L)))"
    "sees vw L (snd (read_interleaved vw start n r))"
    by (simp_all add: take_map drop_map flip: map)
qed

section \<open>Searching\<close>

text \<open>The contract of a windowed reader, and what its clients (the chunked search, single lines) get
  from it.\<close>

locale line_reader =
  fixes read :: "nat \<Rightarrow> nat \<Rightarrow> disk_log_reader \<Rightarrow> ('e + string list) \<times> disk_log_reader"
    and inv :: "disk_log_reader \<Rightarrow> bool"
    and ls :: "string list"
  assumes read_window: "inv r \<Longrightarrow> fst (read start n r) = Inr (take n (drop start ls))"
    and read_inv: "inv r \<Longrightarrow> inv (snd (read start n r))"
begin

lemma scan_filter:
  assumes "inv r"
  shows "fst (scan_chunks read pat (length ls) off r)
      = filter (\<lambda>i. str_contains pat (ls ! i)) [off..<length ls] \<and>
    inv (snd (scan_chunks read pat (length ls) off r))"
  using assms
proof (induction "length ls - off" arbitrary: off r rule: less_induct)
  case less
  show ?case
  proof (cases "off < length ls")
    case False
    with less.prems show ?thesis by (simp add: scan_chunks.simps)
  next
    case True
    define n where "n = min CHUNK (length ls - off)"
    have n: "0 < n" "off + n \<le> length ls" using True by (auto simp: n_def CHUNK_def)
    have "map (\<lambda>(i, line). off + i) (filter (\<lambda>(i, line). str_contains pat line) (enumerate 0 (take n (drop off ls))))
      = filter (\<lambda>i. str_contains pat (ls ! i)) [off..<off + n]"
    proof -
      have "enumerate 0 (take n (drop off ls)) = map (\<lambda>i. (i - off, ls ! i)) [off..<off + n]"
        by (rule nth_equalityI) (use n in \<open>simp_all add: nth_enumerate_eq\<close>)
      then show ?thesis by (auto simp: filter_map comp_def intro!: map_idI)
    qed
    moreover have "[off..<length ls] = [off..<off + n] @ [off + n..<length ls]"
      using n(2) by (metis le_add1 le_Suc_ex upt_add_eq_append)
    moreover have "length ls - (off + n) < length ls - off" using n True by simp
    note less.hyps [OF this read_inv [OF less.prems, of off n]]
    ultimately show ?thesis
      using True less.prems
      by (subst (1 2) scan_chunks.simps)
        (simp add: Let_def case_prod_unfold read_window flip: n_def)
  qed
qed

lemma read_one: "\<lbrakk>inv r; i < length ls\<rbrakk> \<Longrightarrow> fst (read i 1 r) = Inr [ls ! i]"
  by (simp add: read_window Cons_nth_drop_Suc [symmetric])

end

interpretation single: line_reader "read_lines vw source" "sees vw L" "map fst (L source)"
  for vw source L
  by unfold_locales (simp_all add: read_lines_sees)

interpretation merged: line_reader "interleaved_texts vw" "sees vw L" "map snd (merged_view L)"
  for vw L
  by unfold_locales
    (simp_all add: interleaved_texts_def case_prod_unfold Let_def read_interleaved_sees take_map drop_map)

text \<open>The lines of a mode's address space.\<close>

definition mode_lines :: "(line_source \<Rightarrow> log_entry list) \<Rightarrow> stream_mode \<Rightarrow> (line_source \<times> string) list" where
  "mode_lines L mode =
     (case mode of
        ModeStdout \<Rightarrow> map (\<lambda>e. (SrcStdout, fst e)) (L SrcStdout)
      | ModeStderr \<Rightarrow> map (\<lambda>e. (SrcStderr, fst e)) (L SrcStderr)
      | ModeBoth \<Rightarrow> merged_view L)"

lemma length_merged_view [simp]:
  "length (merged_view L) = length (L SrcStdout) + length (L SrcStderr)"
  by (simp add: merged_view_def tagged_def)

lemma scan_single_sees:
  assumes "sees vw L r"
  shows "fst (scan_single_stream vw pat s from r)
      = filter (\<lambda>i. str_contains pat (fst (L s ! i))) [from..<length (L s)]"
    "sees vw L (snd (scan_single_stream vw pat s from r))"
  using single.scan_filter [OF line_count_sees(2) [OF assms, of s], of s pat "from"]
    line_count_sees(1,2) [OF assms, of s]
  by (auto simp: scan_single_stream_def case_prod_unfold Let_def intro!: filter_cong)

lemma scan_interleaved_sees:
  assumes "sees vw L r"
  shows "fst (scan_interleaved vw pat from r)
      = filter (\<lambda>i. str_contains pat (snd (merged_view L ! i))) [from..<length (merged_view L)]"
    "sees vw L (snd (scan_interleaved vw pat from r))"
  using merged.scan_filter [OF line_count_sees(4) [OF assms], of pat "from"] line_count_sees [OF assms]
  by (auto simp: scan_interleaved_def case_prod_unfold Let_def intro!: filter_cong)

lemma scan_sees:
  assumes "sees vw L r"
  shows "fst (scan_matching_lines_from vw pat mode from r)
      = filter (\<lambda>i. str_contains pat (snd (mode_lines L mode ! i))) [from..<length (mode_lines L mode)]"
    "sees vw L (snd (scan_matching_lines_from vw pat mode from r))"
  using scan_single_sees [OF assms] scan_interleaved_sees [OF assms]
  by (auto simp: scan_matching_lines_from_def mode_lines_def split: stream_mode.split intro!: filter_cong)

lemma scattered_sees:
  assumes "sees vw L r" and "\<forall>i \<in> set lns. i < length (mode_lines L mode)"
  shows "fst (read_scattered_lines vw mode lns r) = map (\<lambda>i. mode_lines L mode ! i) lns \<and>
    sees vw L (snd (read_scattered_lines vw mode lns r))"
  using assms
proof (induction lns arbitrary: r)
  case (Cons i lns)
  have "fst (scattered_one vw mode i r) = mode_lines L mode ! i \<and> sees vw L (snd (scattered_one vw mode i r))"
  proof (cases mode)
    case ModeBoth
    have "take 1 (drop i (merged_view L)) = [merged_view L ! i]"
      using Cons.prems(2) ModeBoth by (simp add: mode_lines_def Cons_nth_drop_Suc [symmetric])
    then show ?thesis
      using read_interleaved_sees [OF Cons.prems(1), of i 1] ModeBoth
      by (simp add: scattered_one_def case_prod_unfold Let_def mode_lines_def)
  qed (use Cons.prems single.read_one [OF Cons.prems(1)] read_lines_sees(2) [OF Cons.prems(1)] in
      \<open>simp_all add: scattered_one_def case_prod_unfold Let_def mode_lines_def\<close>)
  with Cons.IH [of "snd (scattered_one vw mode i r)"] Cons.prems(2) show ?case
    by (simp add: case_prod_unfold Let_def)
qed simp

section \<open>Properties\<close>

text \<open>The files of a process's two logs: segments whose text is complete and whose indexes cover a
  prefix of it.\<close>

definition logs_found :: "string \<Rightarrow> string \<Rightarrow> fs \<Rightarrow> (line_source \<Rightarrow> seg_view list) \<Rightarrow> bool" where
  "logs_found dir process fs svs \<longleftrightarrow>
     (\<forall>source. is_log_path (path_join dir (process @ ''.'' @ source_ext source)) (source_ext source) \<and>
        readable (path_join dir (process @ ''.'' @ source_ext source)) fs (svs source) \<and>
        list_all plain (svs source) \<and> length (svs source) \<le> ROTATED_LIMIT)"

lemma logs_found_sees:
  "logs_found dir process (vw_fs vw) svs \<Longrightarrow> sees vw (visible \<circ> svs) (disk_log_reader_new dir process)"
  by (rule new_reader_sees) (simp_all add: logs_found_def)

text \<open>C19: the disk reader returns exactly the logged lines. Over any number of rotated files, with
  indexes that may lag behind, a window of a stream is that window of the lines the indexes cover,
  oldest first; the counts are their numbers; and a window of both streams is that window of all
  of them in sequence order. No window is an error.\<close>

theorem disk_reader_exact:
  assumes "logs_found dir process (vw_fs vw) svs"
  shows "fst (read_lines vw source start n (disk_log_reader_new dir process))
      = Inr (take n (drop start (map fst (visible (svs source))))) \<and>
    fst (line_count vw source (disk_log_reader_new dir process)) = length (visible (svs source)) \<and>
    fst (read_interleaved vw start n (disk_log_reader_new dir process))
      = Inr (take n (drop start (merged_view (visible \<circ> svs)))) \<and>
    fst (line_count_both vw (disk_log_reader_new dir process)) = length (merged_view (visible \<circ> svs))"
  using logs_found_sees [OF assms]
  by (simp add: read_lines_sees read_interleaved_sees line_count_sees)

definition example_segments :: "line_source \<Rightarrow> seg_view list" where
  "example_segments source =
     (case source of
        SrcStdout \<Rightarrow> [([(''up'', 2), (''ready'', 3)], 1), ([(''boot'', 0)], 1)]
      | SrcStderr \<Rightarrow> [([(''warn'', 1)], 1)])"

definition example_files :: fs where
  "example_files =
     [''/logs/web.stdout'' \<mapsto> seg_text [(''up'', 2), (''ready'', 3)],
      ''/logs/web.stdout.idx'' \<mapsto> index_bytes 2 (seg_records 0 [(''up'', 2)]),
      ''/logs/web.stdout.1'' \<mapsto> seg_text [(''boot'', 0)],
      ''/logs/web.stdout.1.idx'' \<mapsto> index_bytes 0 (seg_records 0 [(''boot'', 0)]),
      ''/logs/web.stderr'' \<mapsto> seg_text [(''warn'', 1)],
      ''/logs/web.stderr.idx'' \<mapsto> index_bytes 0 (seg_records 0 [(''warn'', 1)])]"

lemma example_paths:
  "path_join ''/logs'' ''web.stdout'' = ''/logs/web.stdout''"
  "path_join ''/logs'' ''web.stderr'' = ''/logs/web.stderr''"
  by (simp_all add: path_join_def str_starts_with_def)

lemma dec_nat_1: "dec_nat (Suc 0) = ''1''"
  by code_simp

lemma dec_nat_is_1: "dec_nat n = ''1'' \<longleftrightarrow> n = Suc 0"
  using dec_nat_inject [of n "Suc 0"] by (simp add: dec_nat_1)

lemma dec_nat_not_idx: "dec_nat n \<noteq> ''idx''" "dec_nat n \<noteq> ''1.idx''"
proof -
  have "last (dec_nat n) \<noteq> CHR ''x''" using last_dec_nat [of n] dec_digit_not_x by metis
  then show "dec_nat n \<noteq> ''idx''" "dec_nat n \<noteq> ''1.idx''" by auto
qed

lemma example_logs_found: "logs_found ''/logs'' ''web'' example_files example_segments"
  unfolding logs_found_def
proof
  fix source
  have "is_log_path ''/logs/web.stdout'' ''stdout''" "is_log_path ''/logs/web.stderr'' ''stderr''"
    unfolding is_log_path_def
    by (intro conjI disjI1 disjI2 exI [of _ "''/logs''"] exI [of _ "''web''"]; simp)+
  moreover have "readable ''/logs/web.stdout'' example_files (example_segments SrcStdout)"
    by (auto simp: readable_def seg_readable_def example_files_def example_segments_def seg_path_def
        idx_path_for_def nth_Cons less_Suc_eq dec_nat_1 dec_nat_is_1 dec_nat_not_idx split: nat.split)
  moreover have "readable ''/logs/web.stderr'' example_files (example_segments SrcStderr)"
    by (auto simp: readable_def seg_readable_def example_files_def example_segments_def seg_path_def
        idx_path_for_def dec_nat_not_idx split: nat.split)
  ultimately show "is_log_path (path_join ''/logs'' (''web'' @ ''.'' @ source_ext source)) (source_ext source) \<and>
      readable (path_join ''/logs'' (''web'' @ ''.'' @ source_ext source)) example_files (example_segments source) \<and>
      list_all plain (example_segments source) \<and> length (example_segments source) \<le> ROTATED_LIMIT"
    by (cases source)
      (simp_all add: example_paths source_ext_def example_segments_def plain_def ROTATED_LIMIT_def)
qed

definition example_view :: view where
  "example_view = \<lparr>vw_fs = example_files, vw_now = 0\<rparr>"

lemma example_merged:
  "merged_view (visible \<circ> example_segments) = [(SrcStdout, ''boot''), (SrcStderr, ''warn''), (SrcStdout, ''up'')]"
  by code_simp

theorem disk_reader_exact_witness:
  "fst (read_lines example_view SrcStdout 0 5 (disk_log_reader_new ''/logs'' ''web'')) = Inr [''boot'', ''up''] \<and>
   fst (read_interleaved example_view 1 5 (disk_log_reader_new ''/logs'' ''web''))
     = Inr [(SrcStderr, ''warn''), (SrcStdout, ''up'')]"
  using disk_reader_exact [of "''/logs''" "''web''" example_view example_segments SrcStdout 0 5]
    disk_reader_exact [of "''/logs''" "''web''" example_view example_segments SrcStdout 1 5]
    example_logs_found
  by (simp add: example_view_def example_merged)
    (simp add: visible_def seg_visible_def example_segments_def)

text \<open>C20: a search finds exactly the matching lines. The chunked scan of a mode returns, in order,
  the positions of the lines that contain the pattern, and reading the lines at those positions
  gives exactly the matching lines.\<close>

theorem search_is_filter:
  assumes "logs_found dir process (vw_fs vw) svs"
  shows "let L = visible \<circ> svs;
             (found, r) = scan_matching_lines vw pat mode (disk_log_reader_new dir process)
         in found = filter (\<lambda>i. str_contains pat (snd (mode_lines L mode ! i))) [0..<length (mode_lines L mode)] \<and>
            fst (read_scattered_lines vw mode found r)
              = filter (\<lambda>(source, line). str_contains pat line) (mode_lines L mode)"
proof -
  define xs where "xs = mode_lines (visible \<circ> svs) mode"
  note scan = scan_sees [OF logs_found_sees [OF assms], of pat mode 0, folded scan_matching_lines_def, folded xs_def]
  have valid: "\<forall>i \<in> set (filter (\<lambda>i. str_contains pat (snd (xs ! i))) [0..<length xs]). i < length xs" by simp
  have pick: "map ((!) xs) (filter (\<lambda>i. P (xs ! i)) [0..<length xs]) = filter P xs" for P
  proof -
    have "filter P xs = filter P (map ((!) xs) [0..<length xs])" by (simp only: map_nth)
    then show ?thesis by (simp add: filter_map comp_def)
  qed
  have "fst (read_scattered_lines vw mode (fst (scan_matching_lines vw pat mode (disk_log_reader_new dir process)))
      (snd (scan_matching_lines vw pat mode (disk_log_reader_new dir process))))
    = filter (\<lambda>p. str_contains pat (snd p)) xs"
    using scattered_sees [OF scan(2), of _ mode, folded xs_def, OF valid] scan(1) pick by simp
  with scan(1) show ?thesis
    unfolding Let_def case_prod_unfold xs_def [symmetric] by simp
qed

theorem search_is_filter_witness:
  "let (found, r) = scan_matching_lines example_view ''u'' ModeBoth (disk_log_reader_new ''/logs'' ''web'')
   in found = [2] \<and> fst (read_scattered_lines example_view ModeBoth found r) = [(SrcStdout, ''up'')]"
proof -
  have m: "mode_lines (visible \<circ> example_segments) ModeBoth
      = [(SrcStdout, ''boot''), (SrcStderr, ''warn''), (SrcStdout, ''up'')]"
    by (simp add: mode_lines_def example_merged)
  have "logs_found ''/logs'' ''web'' (vw_fs example_view) example_segments"
    using example_logs_found by (simp add: example_view_def)
  from search_is_filter [OF this, of "''u''" ModeBoth] show ?thesis
    unfolding m Let_def by (simp add: case_prod_unfold upt_rec del: read_scattered_lines.simps
        add: numeral_2_eq_2 cong: conj_cong)
qed

end
