(* ===== verification/Two_Streams.thy ===== *)
theory Two_Streams
  imports Log_Reading
begin

text \<open>
  The writers of a process's two streams together, and the reader of both: the two capture tasks
  write their own files and share the sequence counter. A run is the list of the lines written, in
  the order in which they take their sequence numbers; what the tasks do between touches different
  files. The merged view of the disk reader is then the order of writing.
\<close>

section \<open>A writer touches its own files only\<close>

definition log_files :: "string \<Rightarrow> string set" where
  "log_files log = range (seg_path log) \<union> range (\<lambda>n. idx_path_for (seg_path log n))"

lemma log_files_in [simp, intro]:
  "seg_path log n \<in> log_files log" "idx_path_for (seg_path log n) \<in> log_files log"
  "log \<in> log_files log" "idx_path_for log \<in> log_files log"
proof -
  show *: "seg_path log n \<in> log_files log" "idx_path_for (seg_path log n) \<in> log_files log" for n
    by (auto simp: log_files_def)
  show "log \<in> log_files log" "idx_path_for log \<in> log_files log"
    using * [of 0] by simp_all
qed

lemma rename_seg_other:
  "x \<notin> log_files log \<Longrightarrow> rename_with_index (seg_path log i) (seg_path log j) fs x = fs x"
  by (simp add: rename_with_index_def) (metis log_files_in(1,2) rename_other)

lemma rotate_other:
  assumes "is_log_path log ext" and x: "x \<notin> log_files log"
  shows "rotate_log_files log m fs x = fs x"
proof -
  have "fold (\<lambda>i. rename_with_index (seg_path log i) (seg_path log (Suc i))) is fs x = fs x" for "is"
    by (induction "is" arbitrary: fs) (simp_all add: rename_seg_other [OF x])
  moreover have "x \<noteq> seg_path log n" "x \<noteq> idx_path_for (seg_path log n)" for n
    using x by auto
  ultimately show ?thesis
    by (simp add: rotate_log_files_seg [OF assms(1)] fs_remove_def rename_seg_other [OF x] del: seg_path_0)
qed

lemma flush_index_other:
  "x \<notin> log_files (lw_log_path st) \<Longrightarrow> wd_fs (snd (flush_index st wd)) x = wd_fs wd x"
  by (auto simp: flush_index_def put_index_def Let_def)

lemma append_line_other:
  "x \<notin> log_files (lw_log_path st) \<Longrightarrow> wd_fs (snd (append_line line st wd)) x = wd_fs wd x"
  by (auto simp: append_line_def put_index_def Let_def case_prod_unfold flush_index_other)

lemma write_line_other:
  assumes rep: "log_rep ext segs st wd" and x: "x \<notin> log_files (lw_log_path st)"
  shows "wd_fs (snd (write_line (\<lambda>_. None) line st wd)) x = wd_fs wd x"
proof -
  have path: "lw_log_path (fst (flush_index st wd)) = lw_log_path st"
    using flush_index_frame(1) [of st wd] by (simp add: writer_config_def)
  have log: "is_log_path (lw_log_path st) ext" using rep by (simp add: log_rep_def)
  obtain ok st' wd' where rot: "rotate_for_line (\<lambda>_. None) st wd = (ok, st', wd')"
    by (cases "rotate_for_line (\<lambda>_. None) st wd")
  have "x \<noteq> lw_log_path st" "x \<noteq> idx_path_for (lw_log_path st)" using x by auto
  with rot have "wd_fs wd' x = wd_fs wd x" "lw_log_path st' = lw_log_path st"
    using flush_index_other [OF x, of wd] rotate_other [OF log x] path
    by (auto simp: rotate_for_line_def Let_def case_prod_unfold put_index_def)
  with append_line_other [of x st' line wd'] append_line_other [OF x, of line wd] x rot show ?thesis
    by (simp add: write_line_def Let_def)
qed

text \<open>A writer's files are all its abstract log depends on.\<close>

lemma log_rep_cong:
  assumes "log_rep ext segs st wd" and "\<And>x. x \<in> log_files (lw_log_path st) \<Longrightarrow> wd_fs wd' x = wd_fs wd x"
  shows "log_rep ext segs st wd'"
  using assms unfolding log_rep_def rotated_on_disk_def seg_on_disk_def seg_absent_def by simp

lemma stored_cong:
  assumes "stored log fs segs" and "\<And>x. x \<in> log_files log \<Longrightarrow> fs' x = fs x"
  shows "stored log fs' segs"
  using assms unfolding stored_def seg_on_disk_def seg_absent_def by simp

lemma log_files_suffix: "x \<in> log_files log \<Longrightarrow> \<exists>sfx. x = log @ sfx"
  by (auto simp: log_files_def seg_path_def idx_path_for_def)

lemma stream_files_disjoint: "log_files (p @ ''stdout'') \<inter> log_files (p @ ''stderr'') = {}"
  by (auto dest!: log_files_suffix)

section \<open>Runs of both writers\<close>

fun write_both ::
  "(line_source \<times> string) list \<Rightarrow> log_state \<times> log_state \<times> log_world \<Rightarrow> log_state \<times> log_state \<times> log_world" where
  "write_both [] s = s"
| "write_both ((SrcStdout, line) # ws) (out, err, wd) =
     (let (out, wd) = write_line (\<lambda>_. None) line out wd in write_both ws (out, err, wd))"
| "write_both ((SrcStderr, line) # ws) (out, err, wd) =
     (let (err, wd) = write_line (\<lambda>_. None) line err wd in write_both ws (out, err, wd))"

definition close_both :: "log_state \<times> log_state \<times> log_world \<Rightarrow> log_world" where
  "close_both s = (let (out, err, wd) = s in snd (flush_index err (snd (flush_index out wd))))"

text \<open>The lines with their sequence numbers, and those of one stream.\<close>

fun stamp :: "u64 \<Rightarrow> (line_source \<times> string) list \<Rightarrow> (line_source \<times> log_entry) list" where
  "stamp q [] = []"
| "stamp q ((s, line) # ws) = (s, line, q) # stamp (q + 1) ws"

definition of_source :: "line_source \<Rightarrow> (line_source \<times> 'a) list \<Rightarrow> 'a list" where
  "of_source s xs = map snd (filter (\<lambda>p. fst p = s) xs)"

lemma of_source_simps [simp]:
  "of_source s [] = []"
  "of_source s ((s', x) # xs) = (if s' = s then x # of_source s xs else of_source s xs)"
  by (simp_all add: of_source_def)

definition limits :: "log_state \<Rightarrow> log_entry \<Rightarrow> log_entry list list \<Rightarrow> log_entry list list" where
  "limits st = log_write (lw_max_bytes st) (lw_max_rotated_files st)"

definition both_rep ::
  "string \<Rightarrow> log_entry list list \<Rightarrow> log_entry list list \<Rightarrow> log_state \<times> log_state \<times> log_world \<Rightarrow> bool" where
  "both_rep p outs errs s \<longleftrightarrow>
     (case s of (out, err, wd) \<Rightarrow>
        log_rep ''stdout'' outs out wd \<and> log_rep ''stderr'' errs err wd \<and>
        lw_log_path out = p @ ''stdout'' \<and> lw_log_path err = p @ ''stderr'')"

lemma write_both_rep:
  assumes "both_rep p outs errs (out, err, wd)"
  shows "both_rep p (fold (limits out) (of_source SrcStdout (stamp (wd_seq wd) ws)) outs)
      (fold (limits err) (of_source SrcStderr (stamp (wd_seq wd) ws)) errs) (write_both ws (out, err, wd))"
  using assms
proof (induction ws arbitrary: outs errs out err wd)
  case (Cons w ws)
  obtain s line where w: "w = (s, line)" by fastforce
  have paths: "lw_log_path out = p @ ''stdout''" "lw_log_path err = p @ ''stderr''"
    and reps: "log_rep ''stdout'' outs out wd" "log_rep ''stderr'' errs err wd"
    using Cons.prems by (simp_all add: both_rep_def)
  have disj: "x \<in> log_files (lw_log_path err) \<Longrightarrow> x \<notin> log_files (lw_log_path out)" for x
    using stream_files_disjoint [of p] by (auto simp: paths)
  show ?case
  proof (cases s)
    case SrcStdout
    obtain out' wd' where step: "write_line (\<lambda>_. None) line out wd = (out', wd')" by fastforce
    note rep = write_line_rep [OF reps(1), of line, unfolded step fst_conv snd_conv]
    then have config: "lw_log_path out' = lw_log_path out" "limits out' = limits out"
      by (simp_all add: writer_config_def limits_def)
    have "log_rep ''stderr'' errs err wd'"
      using log_rep_cong [OF reps(2)] write_line_other [OF reps(1)] disj step by (metis snd_conv)
    with rep config paths have "both_rep p (limits out (line, wd_seq wd) outs) errs (out', err, wd')"
      by (simp add: both_rep_def limits_def)
    from Cons.IH [OF this] rep show ?thesis by (simp add: w SrcStdout step config)
  next
    case SrcStderr
    obtain err' wd' where step: "write_line (\<lambda>_. None) line err wd = (err', wd')" by fastforce
    note rep = write_line_rep [OF reps(2), of line, unfolded step fst_conv snd_conv]
    then have config: "lw_log_path err' = lw_log_path err" "limits err' = limits err"
      by (simp_all add: writer_config_def limits_def)
    have "log_rep ''stdout'' outs out wd'"
      using log_rep_cong [OF reps(1)] write_line_other [OF reps(2)] disj step by (metis snd_conv)
    with rep config paths have "both_rep p outs (limits err (line, wd_seq wd) errs) (out, err', wd')"
      by (simp add: both_rep_def limits_def)
    from Cons.IH [OF this] rep show ?thesis by (simp add: w SrcStderr step config)
  qed
qed simp

lemma close_both_stored:
  assumes "both_rep p outs errs s"
  shows "stored (p @ ''stdout'') (wd_fs (close_both s)) outs" "stored (p @ ''stderr'') (wd_fs (close_both s)) errs"
proof -
  obtain out err wd where s: "s = (out, err, wd)" by (cases s) auto
  have paths: "lw_log_path out = p @ ''stdout''" "lw_log_path err = p @ ''stderr''"
    and reps: "log_rep ''stdout'' outs out wd" "log_rep ''stderr'' errs err wd"
    using assms by (simp_all add: both_rep_def s)
  let ?wd = "snd (flush_index out wd)"
  have disj: "x \<in> log_files (p @ ''stderr'') \<Longrightarrow> x \<notin> log_files (p @ ''stdout'')" for x
    using stream_files_disjoint [of p] by auto
  have "log_rep ''stderr'' errs err ?wd"
    by (rule log_rep_cong [OF reps(2)]) (use disj paths flush_index_other in metis)
  from log_rep_stored [OF this] show "stored (p @ ''stderr'') (wd_fs (close_both s)) errs"
    by (simp add: close_both_def s paths)
  have "stored (p @ ''stdout'') (wd_fs ?wd) outs"
    using log_rep_stored [OF reps(1)] by (simp add: paths)
  then have "stored (p @ ''stdout'') (wd_fs (snd (flush_index err ?wd))) outs"
    by (rule stored_cong) (use disj paths flush_index_other in metis)
  then show "stored (p @ ''stdout'') (wd_fs (close_both s)) outs"
    by (simp add: close_both_def s)
qed

section \<open>The merged view is the order of writing\<close>

text \<open>A run without the oldest \<open>k s\<close> lines of each stream \<open>s\<close>.\<close>

fun drop_oldest :: "(line_source \<Rightarrow> nat) \<Rightarrow> (line_source \<times> 'a) list \<Rightarrow> (line_source \<times> 'a) list" where
  "drop_oldest k [] = []"
| "drop_oldest k ((s, x) # xs) =
     (if 0 < k s then drop_oldest (k(s := k s - 1)) xs else (s, x) # drop_oldest k xs)"

lemma drop_oldest_0 [simp]: "drop_oldest (\<lambda>_. 0) xs = xs"
  by (induction "\<lambda>_ :: line_source. 0 :: nat" xs rule: drop_oldest.induct) simp_all

lemma of_source_drop_oldest: "of_source s (drop_oldest k xs) = drop (k s) (of_source s xs)"
  by (induction k xs rule: drop_oldest.induct) (auto simp: fun_upd_def drop_Cons split: nat.split)

lemma set_drop_oldest: "set (drop_oldest k xs) \<subseteq> set xs"
  by (induction k xs rule: drop_oldest.induct) (auto simp: fun_upd_def split: if_splits)

lemma map_drop_oldest: "map (apsnd f) (drop_oldest k xs) = drop_oldest k (map (apsnd f) xs)"
  by (induction k xs rule: drop_oldest.induct) (simp_all add: fun_upd_def)

lemma sorted_drop_oldest:
  "sorted_wrt (\<lambda>x y. g x < g y) xs \<Longrightarrow> sorted_wrt (\<lambda>x y. g x < g y) (drop_oldest k xs)"
proof (induction k xs rule: drop_oldest.induct)
  case (2 k s x xs)
  then show ?case using set_drop_oldest [of k xs] by (cases "0 < k s") (auto simp: fun_upd_def)
qed simp

lemma stamp_lines [simp]: "map (apsnd fst) (stamp q ws) = ws" "length (stamp q ws) = length ws"
  by (induction q ws rule: stamp.induct) simp_all

lemma stamp_sorted:
  "unat q + length ws < 2 ^ 64 \<Longrightarrow> sorted_wrt (\<lambda>x y. snd (snd x) < snd (snd y)) (stamp q ws) \<and>
    (\<forall>x \<in> set (stamp q ws). unat q \<le> unat (snd (snd x)))"
proof (induction q ws rule: stamp.induct)
  case (2 q s line ws)
  have step: "unat (q + 1) = unat q + 1"
    using "2.prems" by (subst unat_add_lem [THEN iffD1]) simp_all
  note IH = "2.IH" [unfolded step]
  have "\<forall>x \<in> set (stamp (q + 1) ws). q < snd (snd x)"
    using IH "2.prems" by (fastforce simp: word_less_nat_alt)
  with IH "2.prems" show ?case by fastforce
qed simp

text \<open>Merging the two streams of a run gives the run back.\<close>

lemma merged_of_sources:
  assumes "sorted_wrt (\<lambda>x y. snd (snd x) < snd (snd y)) xs"
  shows "merged_view (\<lambda>s. of_source s xs) = map (apsnd fst) xs"
proof -
  let ?f = "\<lambda>x :: line_source \<times> log_entry. (snd (snd x), fst x, fst (snd x))"
  let ?g = "\<lambda>s. map ?f (filter (\<lambda>p. fst p = s) xs)"
  have tag: "tagged s (of_source s xs) = ?g s" for s
    by (auto simp: tagged_def of_source_def)
  have same: "mset (?g SrcStdout @ ?g SrcStderr) = mset (map ?f xs)"
  proof -
    have "filter (\<lambda>p. fst p = SrcStderr) xs = filter (\<lambda>p. fst p \<noteq> SrcStdout) xs"
      by (rule filter_cong) (auto intro: line_source.exhaust)
    then have "mset (filter (\<lambda>p. fst p = SrcStdout) xs @ filter (\<lambda>p. fst p = SrcStderr) xs) = mset xs"
      by (simp add: multiset_partition [symmetric])
    moreover have "mset (?g SrcStdout @ ?g SrcStderr) = image_mset ?f
        (mset (filter (\<lambda>p. fst p = SrcStdout) xs @ filter (\<lambda>p. fst p = SrcStderr) xs))" by simp
    ultimately show ?thesis by (simp only: mset_map)
  qed
  have "sorted_wrt (<) (map fst (map ?f xs))"
    using assms by (simp add: sorted_wrt_map)
  then have "sorted (map fst (map ?f xs))" "distinct (map fst (map ?f xs))"
    by (simp_all only: strict_sorted_iff)
  moreover from this(2) have "inj_on fst (set (?g SrcStdout @ ?g SrcStderr))"
    unfolding mset_eq_setD [OF same] by (simp only: distinct_map)
  ultimately have "sort_key fst (?g SrcStdout @ ?g SrcStderr) = map ?f xs"
    using sort_key_inj_key_eq [OF same] by blast
  moreover have "map snd (map ?f xs) = map (apsnd fst) xs" by (auto simp: apsnd_def map_prod_def)
  ultimately show ?thesis unfolding merged_view_def tag by simp
qed

lemma of_source_stamp: "map fst (of_source s (stamp q ws)) = of_source s ws"
  by (induction q ws rule: stamp.induct) simp_all

lemma length_drop_oldest: "length (drop_oldest k xs) \<le> length xs"
  by (induction k xs rule: drop_oldest.induct) (simp_all add: fun_upd_def le_SucI)

text \<open>What a stream's files keep of what was written to it.\<close>

lemma log_writes_unlimited: "segs \<noteq> [] \<Longrightarrow> log_entries (fold (log_write 0 m) es segs) = log_entries segs @ es"
proof (induction es arbitrary: segs)
  case (Cons e es)
  have "log_write 0 m e segs \<noteq> []" "log_entries (log_write 0 m e segs) = log_entries segs @ [e]"
    using Cons.prems by (cases segs; simp add: log_write_def log_entries_def)+
  with Cons.IH show ?case by simp
qed simp

lemma seg_text_member: "es \<in> set segs \<Longrightarrow> length (seg_text es) \<le> length (seg_text (log_entries segs))"
  by (induction segs) (auto simp: log_entries_def)

lemma seg_text_drop: "length (seg_text (drop k es)) \<le> length (seg_text es)"
proof -
  have "seg_text es = seg_text (take k es) @ seg_text (drop k es)"
    by (simp flip: seg_text_simps(3))
  then show ?thesis by simp
qed

lemma seg_text_of_source:
  "length (seg_text (of_source s (stamp q ws))) \<le> sum_list (map (\<lambda>w. length (snd w) + 1) ws)"
  by (induction q ws rule: stamp.induct) auto

text \<open>How many of a stream's lines its files have lost: the lines that the abstract log of
  \<open>Log_History\<close> forgets when it writes them one after the other. The sequence numbers have no part
  in it.\<close>

definition lost_lines :: "nat \<Rightarrow> nat \<Rightarrow> string list \<Rightarrow> nat" where
  "lost_lines mb mr ls =
     length ls - length (log_entries (fold (log_write mb mr) (map (\<lambda>l. (l, 0)) ls) [[]]))"

lemma seg_text_apsnd [simp]: "seg_text (map (apsnd f) es) = seg_text es"
  by (induction es) simp_all

lemma log_entries_map: "log_entries (map (map f) segs) = map f (log_entries segs)"
  by (simp add: log_entries_def map_concat rev_map)

lemma log_writes_apsnd:
  assumes "segs \<noteq> []"
  shows "fold (log_write mb mr) (map (apsnd f) es) (map (map (apsnd f)) segs)
    = map (map (apsnd f)) (fold (log_write mb mr) es segs)"
  using assms
proof (induction es arbitrary: segs)
  case (Cons e es)
  have "log_write mb mr (apsnd f e) (map (map (apsnd f)) segs) = map (map (apsnd f)) (log_write mb mr e segs)"
    using Cons.prems by (cases segs; cases mr) (simp_all add: log_write_def take_map)
  moreover have "log_write mb mr e segs \<noteq> []" using Cons.prems by (simp add: log_write_def)
  ultimately show ?case using Cons.IH by simp
qed simp

lemma length_kept:
  "length (log_entries (fold (log_write mb mr) es [[]]))
     = length (log_entries (fold (log_write mb mr) (map (\<lambda>l. (l, 0)) (map fst es)) [[]]))"
proof -
  have zero: "map (\<lambda>l. (l, 0)) (map fst es) = map (apsnd (\<lambda>_. 0)) es"
    by (simp add: apsnd_def map_prod_def case_prod_unfold)
  show ?thesis
    unfolding zero using log_writes_apsnd [of "[[]]" mb mr "\<lambda>_. 0" es] by (simp add: log_entries_map)
qed

text \<open>A log loses lines only when it has as many segments as it may have, and two neighbouring segments
  are together longer than the limit.\<close>

fun spread :: "nat \<Rightarrow> log_entry list list \<Rightarrow> bool" where
  "spread mb (s1 # s2 # segs) \<longleftrightarrow> mb < length (seg_text s1) + length (seg_text s2) \<and> spread mb (s2 # segs)"
| "spread mb _ \<longleftrightarrow> True"

lemma spread_tail: "spread mb (seg # segs) \<Longrightarrow> spread mb segs"
  by (cases segs) simp_all

lemma spread_take: "spread mb segs \<Longrightarrow> spread mb (take n segs)"
proof (induction mb segs arbitrary: n rule: spread.induct)
  case (1 mb s1 s2 segs)
  from "1.IH" [of "n - 1"] "1.prems" show ?case by (cases n; cases "n - 1") (simp_all add: take_Cons')
qed (simp_all add: take_Cons')

lemma spread_bytes:
  "spread mb segs \<Longrightarrow> mb * (length segs div 2) \<le> length (seg_text (log_entries segs))"
proof (induction segs rule: induct_list012)
  case (3 s1 s2 segs)
  from "3.prems" have "mb < length (seg_text s1) + length (seg_text s2)" "spread mb segs"
    by (auto dest: spread_tail)
  with "3.IH"(1) show ?case by (simp add: log_entries_def)
qed simp_all

lemma log_writes_spread:
  assumes "segs \<noteq> []" "length segs \<le> Suc m" "mb = 0 \<or> spread mb segs"
  shows "(mb = 0 \<or> spread mb (fold (log_write mb m) es segs)) \<and>
    (length (fold (log_write mb m) es segs) = Suc m \<or>
     length segs < Suc m \<and> length (log_entries (fold (log_write mb m) es segs)) = length (log_entries segs) + length es)"
  using assms
proof (induction es arbitrary: segs)
  case (Cons e es)
  obtain seg old where segs: "segs = seg # old" using Cons.prems(1) by (cases segs) auto
  let ?segs = "log_write mb m e segs"
  note facts = log_write_facts(1,2) [OF Cons.prems(1,2), of mb e]
  have step: "spread mb ?segs" if "mb \<noteq> 0"
  proof (cases "mb < length (seg_text seg) + length (line_bytes (fst e))")
    case True
    then have "spread mb ([e] # segs)" using Cons.prems(3) that by (simp add: segs)
    from spread_take [OF this, of "Suc m"] True that show ?thesis by (simp add: log_write_def segs)
  next
    case False
    with Cons.prems(3) that show ?thesis by (cases old) (auto simp: log_write_def segs)
  qed
  have "length ?segs = Suc m \<or> length ?segs < Suc m \<and> length segs < Suc m \<and>
      length (log_entries ?segs) = Suc (length (log_entries segs))"
    using Cons.prems(2) by (auto simp: log_write_def segs log_entries_def)
  moreover have "mb = 0 \<or> spread mb ?segs" using step by blast
  note Cons.IH [OF facts this]
  ultimately show ?case unfolding fold_simps(2) list.size(4) by linarith
qed auto

text \<open>What a limited log keeps when it has lost something: half of the segments, each full.\<close>

lemma lost_lines_bound:
  assumes "0 < lost_lines mb mr ls"
  shows "0 < mb" "mb * (Suc mr div 2) \<le> sum_list (map (\<lambda>l. length l + 1) (drop (lost_lines mb mr ls) ls))"
proof -
  let ?es = "map (\<lambda>l. (l, 0)) ls :: log_entry list"
  define segs where "segs = fold (log_write mb mr) ?es [[]]"
  have bytes: "length (seg_text es) = sum_list (map (\<lambda>l. length l + 1) (map fst es))" for es
    by (induction es) simp_all
  have none: "log_entries [[]] = []" by (simp add: log_entries_def)
  have lost: "length (log_entries segs) < length ls"
    using assms by (simp add: lost_lines_def segs_def)
  have "suffix (log_entries segs) ?es"
    using log_writes_facts [of "[[]]" mr mb ?es] by (simp add: segs_def none)
  then obtain old where "?es = old @ log_entries segs" by (auto simp: suffix_def)
  then have "map fst ?es = map fst old @ map fst (log_entries segs)" by simp
  then have ls: "ls = map fst old @ map fst (log_entries segs)" by (simp add: comp_def)
  have "lost_lines mb mr ls = length old"
    using arg_cong [where f = length, OF ls] by (simp add: lost_lines_def flip: segs_def)
  with arg_cong [where f = "drop (length old)", OF ls] have kept: "drop (lost_lines mb mr ls) ls = map fst (log_entries segs)" by simp
  show "0 < mb"
    using log_writes_unlimited [of "[[]]" mr ?es] lost by (cases mb) (auto simp: segs_def none)
  with log_writes_spread [of "[[]]" mr mb ?es] lost
  have "spread mb segs" "length segs = Suc mr" by (auto simp: segs_def none)
  with spread_bytes [of mb segs] show "mb * (Suc mr div 2) \<le>
      sum_list (map (\<lambda>l. length l + 1) (drop (lost_lines mb mr ls) ls))"
    by (simp add: kept bytes)
qed

lemma kept_lines:
  assumes segs: "segs = fold (log_write mb mr) (of_source s (stamp q ws)) [[]]"
    and plain: "list_all (\<lambda>w. CHR ''\<newline>'' \<notin> set (snd w)) ws"
    and bytes: "sum_list (map (\<lambda>w. length (snd w) + 1) ws) < 2 ^ 64"
  shows "log_entries segs = drop (lost_lines mb mr (of_source s ws)) (of_source s (stamp q ws))"
    "list_all Log_Reading.plain (map (\<lambda>es. (es, length es)) segs)"
proof -
  let ?all = "of_source s (stamp q ws)"
  have "suffix (log_entries segs) (log_entries [[]] @ ?all)"
    using log_writes_facts [of "[[]]" mr mb ?all] by (simp add: segs)
  then obtain dropped where all: "?all = dropped @ log_entries segs"
    by (auto simp: suffix_def log_entries_def)
  then have drop: "log_entries segs = drop (length dropped) ?all" by simp
  have "length (of_source s ws) = length ?all"
    using arg_cong [where f = length, OF of_source_stamp [of s q ws]] by simp
  then have "lost_lines mb mr (of_source s ws) = length ?all - length (log_entries segs)"
    by (simp add: lost_lines_def segs length_kept [of mb mr ?all] of_source_stamp)
  also have "\<dots> = length dropped" by (subst all) simp
  finally show "log_entries segs = drop (lost_lines mb mr (of_source s ws)) ?all" using drop by simp
  have "plain (es, length es)" if "es \<in> set segs" for es
  proof -
    have "length (seg_text es) < 2 ^ 64"
      using seg_text_member [OF that] seg_text_drop [of "length dropped" ?all]
        seg_text_of_source [of s q ws] bytes unfolding drop [symmetric] by linarith
    moreover have "set (map fst es) \<subseteq> set (map fst ?all)"
      using that by (subst all) (auto simp: log_entries_def)
    then have "set (map fst es) \<subseteq> snd ` set ws"
      unfolding of_source_stamp by (auto simp: of_source_def)
    then have "list_all (\<lambda>e. CHR ''\<newline>'' \<notin> set (fst e)) es"
      using plain by (fastforce simp: list_all_iff)
    ultimately show ?thesis by (simp add: plain_def)
  qed
  then show "list_all Log_Reading.plain (map (\<lambda>es. (es, length es)) segs)" by (auto simp: list_all_iff)
qed

text \<open>The lines that the two streams of a process have lost.\<close>

definition lost :: "log_state \<Rightarrow> log_state \<Rightarrow> (line_source \<times> string) list \<Rightarrow> line_source \<Rightarrow> nat" where
  "lost out err ws s = (let st = (case s of SrcStdout \<Rightarrow> out | SrcStderr \<Rightarrow> err) in
     lost_lines (lw_max_bytes st) (lw_max_rotated_files st) (of_source s ws))"

lemma lost_unlimited:
  assumes "lw_max_bytes out = 0" and "lw_max_bytes err = 0"
  shows "lost out err ws = (\<lambda>_. 0)"
proof
  fix s
  show "lost out err ws s = 0"
    using assms lost_lines_bound(1) [of "lw_max_bytes (case s of SrcStdout \<Rightarrow> out | SrcStderr \<Rightarrow> err)"]
    by (cases s) (fastforce simp: lost_def Let_def)+
qed

lemma path_join_ext: "path_join dir (process @ ''.'' @ ext) = path_join dir (process @ ''.'') @ ext"
  by (cases process) (simp_all add: path_join_def str_starts_with_def)

lemma length_limited: "length (fold (limits st) es [[]]) \<le> Suc (lw_max_rotated_files st)"
  using log_writes_facts [of "[[]]" "lw_max_rotated_files st" "lw_max_bytes st" es] by (simp add: limits_def)

lemma merged_of_kept:
  assumes "unat q + length ws < 2 ^ 64"
  shows "merged_view (\<lambda>s. of_source s (drop_oldest k (stamp q ws))) = drop_oldest k ws"
proof -
  have "merged_view (\<lambda>s. of_source s (drop_oldest k (stamp q ws))) = map (apsnd fst) (drop_oldest k (stamp q ws))"
    by (intro merged_of_sources sorted_drop_oldest conjunct1 [OF stamp_sorted [OF assms]])
  also have "\<dots> = drop_oldest k ws" by (simp add: map_drop_oldest)
  finally show ?thesis .
qed

lemma written_logs_seen:
  assumes fresh: "both_rep (path_join dir (process @ ''.'')) [[]] [[]] (out, err, wd)"
    and plain: "list_all (\<lambda>w. CHR ''\<newline>'' \<notin> set (snd w)) ws"
    and bytes: "sum_list (map (\<lambda>w. length (snd w) + 1) ws) < 2 ^ 64"
    and files: "lw_max_rotated_files out < ROTATED_LIMIT" "lw_max_rotated_files err < ROTATED_LIMIT"
    and vw: "vw_fs vw = wd_fs (close_both (write_both ws (out, err, wd)))"
  shows "sees vw (\<lambda>s. of_source s (drop_oldest (lost out err ws) (stamp (wd_seq wd) ws)))
    (disk_log_reader_new dir process)"
proof -
  let ?p = "path_join dir (process @ ''.'')"
  define X where "X = stamp (wd_seq wd) ws"
  define outs where "outs = fold (limits out) (of_source SrcStdout X) [[]]"
  define errs where "errs = fold (limits err) (of_source SrcStderr X) [[]]"
  have rep: "both_rep ?p outs errs (write_both ws (out, err, wd))"
    using write_both_rep [OF fresh, of ws] by (simp add: outs_def errs_def X_def)
  have logs: "log_rep ''stdout'' [[]] out wd" "log_rep ''stderr'' [[]] err wd"
    "lw_log_path out = ?p @ ''stdout''" "lw_log_path err = ?p @ ''stderr''"
    using fresh by (simp_all add: both_rep_def)
  note stored = close_both_stored [OF rep, folded vw]
  note ko = kept_lines [OF outs_def [unfolded limits_def X_def] plain bytes, folded X_def]
    and ke = kept_lines [OF errs_def [unfolded limits_def X_def] plain bytes, folded X_def]
  define svs where "svs = (\<lambda>s. map (\<lambda>es. (es, length es)) (case s of SrcStdout \<Rightarrow> outs | SrcStderr \<Rightarrow> errs))"
  have len: "length outs \<le> ROTATED_LIMIT" "length errs \<le> ROTATED_LIMIT"
    using length_limited [of out "of_source SrcStdout X"] length_limited [of err "of_source SrcStderr X"] files
    unfolding outs_def errs_def by linarith+
  have "logs_found dir process (vw_fs vw) svs"
    unfolding logs_found_def path_join_ext
  proof
    fix s
    show "is_log_path (?p @ source_ext s) (source_ext s) \<and> readable (?p @ source_ext s) (vw_fs vw) (svs s) \<and>
        list_all Log_Reading.plain (svs s) \<and> length (svs s) \<le> ROTATED_LIMIT"
      using stored_readable [OF stored(1)] stored_readable [OF stored(2)] logs ko(2) ke(2) len
      by (cases s) (simp_all add: svs_def source_ext_def log_rep_def)
  qed
  from logs_found_sees [OF this] have sees: "sees vw (visible \<circ> svs) (disk_log_reader_new dir process)" .
  have "(visible \<circ> svs) s = of_source s (drop_oldest (lost out err ws) X)" for s
    by (cases s) (simp_all add: svs_def visible_complete of_source_drop_oldest lost_def ko(1) ke(1))
  then have "visible \<circ> svs = (\<lambda>s. of_source s (drop_oldest (lost out err ws) X))" by (rule ext)
  with sees show ?thesis by (simp add: X_def)
qed

text \<open>C21: the merged view is the order of writing. Two capture tasks write any lines to fresh logs of
  a process, interleaved in any way, then both finish. The disk reader's interleaved view of the
  whole log is exactly the lines in the order in which they were written, across both streams and
  all rotated files, without the oldest lines of each stream that its files have lost: those that
  rotation has removed, no more and no fewer. A stream whose log has no size limit loses none, and
  one that has lost any keeps at least the limit's bytes for every two of its files.\<close>

theorem merged_view_is_write_order:
  assumes fresh: "both_rep (path_join dir (process @ ''.'')) [[]] [[]] (out, err, wd)"
    and seq: "unat (wd_seq wd) + length ws < 2 ^ 64"
    and plain: "list_all (\<lambda>w. CHR ''\<newline>'' \<notin> set (snd w)) ws"
    and bytes: "sum_list (map (\<lambda>w. length (snd w) + 1) ws) < 2 ^ 64"
    and files: "lw_max_rotated_files out < ROTATED_LIMIT" "lw_max_rotated_files err < ROTATED_LIMIT"
    and vw: "vw_fs vw = wd_fs (close_both (write_both ws (out, err, wd)))"
  shows "fst (read_interleaved vw 0 (length ws) (disk_log_reader_new dir process))
      = Inr (drop_oldest (lost out err ws) ws) \<and>
    (\<forall>(s, st) \<in> {(SrcStdout, out), (SrcStderr, err)}. lost out err ws s = 0 \<or>
      0 < lw_max_bytes st \<and> lw_max_bytes st * (Suc (lw_max_rotated_files st) div 2) \<le>
        sum_list (map (\<lambda>l. length l + 1) (of_source s (drop_oldest (lost out err ws) ws))))"
proof
  note sees = written_logs_seen [OF fresh plain bytes files vw]
  have "merged_view (\<lambda>s. of_source s (drop_oldest (lost out err ws) (stamp (wd_seq wd) ws)))
      = drop_oldest (lost out err ws) ws"
    by (rule merged_of_kept [OF seq])
  then show "fst (read_interleaved vw 0 (length ws) (disk_log_reader_new dir process))
      = Inr (drop_oldest (lost out err ws) ws)"
    using length_drop_oldest [of "lost out err ws" ws] by (simp add: read_interleaved_sees(1) [OF sees])
  show "\<forall>(s, st) \<in> {(SrcStdout, out), (SrcStderr, err)}. lost out err ws s = 0 \<or>
      0 < lw_max_bytes st \<and> lw_max_bytes st * (Suc (lw_max_rotated_files st) div 2) \<le>
        sum_list (map (\<lambda>l. length l + 1) (of_source s (drop_oldest (lost out err ws) ws)))"
    using lost_lines_bound [of "lw_max_bytes out" "lw_max_rotated_files out" "of_source SrcStdout ws"]
      lost_lines_bound [of "lw_max_bytes err" "lw_max_rotated_files err" "of_source SrcStderr ws"]
    by (auto simp: of_source_drop_oldest lost_def)
qed

definition example_out :: log_state where
  "example_out = log_state_new ''/logs/web.stdout'' ''web'' Stdout 0 5 0"

definition example_err :: log_state where
  "example_err = log_state_new ''/logs/web.stderr'' ''web'' Stderr 0 5 0"

definition example_shared :: log_world where
  "example_shared =
     \<lparr>wd_fs = [''/logs/web.stdout'' \<mapsto> [], ''/logs/web.stdout.idx'' \<mapsto> header_bytes 0,
               ''/logs/web.stderr'' \<mapsto> [], ''/logs/web.stderr.idx'' \<mapsto> header_bytes 0],
      wd_seq = 0, wd_sent = []\<rparr>"

lemma example_both: "both_rep (path_join ''/logs'' (''web'' @ ''.'')) [[]] [[]] (example_out, example_err, example_shared)"
proof -
  have p: "path_join ''/logs'' (''web'' @ ''.'') = ''/logs/web.''"
    by (simp add: path_join_def str_starts_with_def)
  have logs: "is_log_path ''/logs/web.stdout'' ''stdout''" "is_log_path ''/logs/web.stderr'' ''stderr''"
    unfolding is_log_path_def
    by (intro conjI disjI1 disjI2 exI [of _ "''/logs''"] exI [of _ "''web''"]; simp)+
  have "rotated_on_disk ''/logs/web.stdout'' (wd_fs example_shared) []"
    "rotated_on_disk ''/logs/web.stderr'' (wd_fs example_shared) []"
    by (simp_all add: rotated_on_disk_def seg_absent_def example_shared_def seg_path_def idx_path_for_def
        dec_nat_not_idx)
  then have "log_rep ''stdout'' [[]] example_out example_shared" "log_rep ''stderr'' [[]] example_err example_shared"
    using logs log_rep_opened [of "''/logs/web.stdout''" "''stdout''" 5 "[]" example_shared 0 "''web''" Stdout 0]
      log_rep_opened [of "''/logs/web.stderr''" "''stderr''" 5 "[]" example_shared 0 "''web''" Stderr 0]
    by (simp_all add: example_shared_def idx_path_for_def example_out_def example_err_def)
  then show ?thesis
    unfolding p by (simp add: both_rep_def example_out_def example_err_def log_state_new_def)
qed

lemma example_rotated: "lw_max_rotated_files example_err < ROTATED_LIMIT"
  by (simp add: example_err_def log_state_new_def ROTATED_LIMIT_def)

text \<open>The same files, with a standard output limited to four bytes in each of two files.\<close>

definition example_small :: log_state where
  "example_small = log_state_new ''/logs/web.stdout'' ''web'' Stdout 4 1 0"

definition example_long :: "(line_source \<times> string) list" where
  "example_long = [(SrcStdout, ''boot''), (SrcStderr, ''warn''), (SrcStdout, ''one''), (SrcStdout, ''two''),
     (SrcStdout, ''six'')]"

lemma example_both_small:
  "both_rep (path_join ''/logs'' (''web'' @ ''.'')) [[]] [[]] (example_small, example_err, example_shared)"
proof -
  have "path_join ''/logs'' (''web'' @ ''.'') = ''/logs/web.''"
    by (simp add: path_join_def str_starts_with_def)
  with example_both show ?thesis
    by (simp add: both_rep_def log_rep_def example_small_def example_out_def example_err_def log_state_new_def)
qed

lemma example_small_lost: "lost example_small example_err example_long = (\<lambda>s. if s = SrcStdout then 2 else 0)"
proof
  fix s
  show "lost example_small example_err example_long s = (if s = SrcStdout then 2 else 0)"
    by (cases s) (simp_all add: lost_def lost_lines_def example_small_def example_err_def log_state_new_def
      example_long_def log_write_def log_entries_def)
qed

definition example_after_long :: view where
  "example_after_long =
     \<lparr>vw_fs = wd_fs (close_both (write_both example_long (example_small, example_err, example_shared))), vw_now = 0\<rparr>"

theorem merged_view_is_write_order_witness:
  "fst (read_interleaved example_after_long 0 5 (disk_log_reader_new ''/logs'' ''web''))
     = Inr [(SrcStderr, ''warn''), (SrcStdout, ''two''), (SrcStdout, ''six'')]"
proof -
  have config: "lw_max_rotated_files example_small < ROTATED_LIMIT"
    by (simp add: example_small_def log_state_new_def ROTATED_LIMIT_def)
  have run: "unat (wd_seq example_shared) + length example_long < 2 ^ 64"
    "list_all (\<lambda>w. CHR ''\<newline>'' \<notin> set (snd w)) example_long"
    "sum_list (map (\<lambda>w. length (snd w) + 1) example_long) < 2 ^ 64" "length example_long = 5"
    by (simp_all add: example_long_def example_shared_def)
  have vw: "vw_fs example_after_long
      = wd_fs (close_both (write_both example_long (example_small, example_err, example_shared)))"
    by (simp add: example_after_long_def)
  from merged_view_is_write_order [OF example_both_small run(1-3) config example_rotated vw]
  have "fst (read_interleaved example_after_long 0 5 (disk_log_reader_new ''/logs'' ''web''))
      = Inr (drop_oldest (\<lambda>s. if s = SrcStdout then 2 else 0) example_long)"
    by (simp only: example_small_lost run(4))
  then show ?thesis by (simp add: example_long_def)
qed

end
