(* ===== verification/Config.thy ===== *)
theory Config
  imports Errors Files
begin

text \<open>
  \<open>src/config.rs\<close>: the project file, its discovery, the session name and the startup order by
  Kahn's algorithm. The YAML parser is a parameter of \<open>load_config\<close>. A \<open>HashMap\<close> is an association
  list whose order stands for the map's iteration order. Paths are normalised (no trailing slash).
\<close>

section \<open>The project file\<close>

definition DEFAULT_SESSION :: string where
  "DEFAULT_SESSION = ''default''"

record process_def =
  pd_cmd :: string
  pd_cwd :: "string option"
  pd_env :: "(string, string) hashmap"
  pd_ready :: "string option"
  pd_depends_on :: "string list"
  pd_port :: "u16 option"
  pd_autorestart :: "string option"
  pd_max_restarts :: "u32 option"
  pd_restart_delay :: "u64 option"
  pd_watch :: "string list option"
  pd_watch_ignore :: "string list option"

record project_config =
  pc_session :: "string option"
  pc_processes :: "(string, process_def) hashmap"
  pc_proxy :: "bool option"
  pc_proxy_port :: "u16 option"

section \<open>Startup order\<close>

text \<open>The two maps the edges go to: \<open>in_degree\<close> and \<open>dependents\<close>.\<close>

type_synonym dep_graph = "(string, nat) hashmap \<times> (string, string list) hashmap"

definition in_degree_init :: "(string, process_def) hashmap \<Rightarrow> (string, nat) hashmap" where
  "in_degree_init ps =
     fold (\<lambda>name m. if hm_contains m name then m else hm_insert name 0 m) (hm_keys ps) []"

definition add_edge :: "string \<Rightarrow> string \<Rightarrow> dep_graph \<Rightarrow> dep_graph" where
  "add_edge name dep g =
     (let (in_degree, dependents) = g
      in (hm_insert name ((case hm_get in_degree name of None \<Rightarrow> 0 | Some n \<Rightarrow> n) + 1) in_degree,
          hm_insert dep ((case hm_get dependents dep of None \<Rightarrow> [] | Some ns \<Rightarrow> ns) @ [name]) dependents))"

fun add_deps ::
  "(string, process_def) hashmap \<Rightarrow> string \<Rightarrow> string list \<Rightarrow> dep_graph \<Rightarrow> config_error + dep_graph" where
  "add_deps ps name [] g = Inr g"
| "add_deps ps name (dep # ds) g =
     (if \<not> hm_contains ps dep then Inl (UnknownDep name dep)
      else add_deps ps name ds (add_edge name dep g))"

fun add_edges ::
  "(string, process_def) hashmap \<Rightarrow> (string \<times> process_def) list \<Rightarrow> dep_graph \<Rightarrow> config_error + dep_graph" where
  "add_edges ps [] g = Inr g"
| "add_edges ps ((name, d) # rest) g =
     (case add_deps ps name (pd_depends_on d) g of
        Inl e \<Rightarrow> Inl e
      | Inr g \<Rightarrow> add_edges ps rest g)"

text \<open>One name of a round leaves: each dependent still waiting loses one. The degree is positive
  there (\<open>released_degree\<close> below), so the code's \<open>-= 1\<close> does not underflow.\<close>

definition decrement :: "string \<Rightarrow> (string, nat) hashmap \<Rightarrow> (string, nat) hashmap" where
  "decrement dep remaining =
     (case hm_get remaining dep of
        None \<Rightarrow> remaining
      | Some deg \<Rightarrow> hm_insert dep (deg - 1) remaining)"

definition release :: "(string, string list) hashmap \<Rightarrow> string \<Rightarrow> (string, nat) hashmap \<Rightarrow> (string, nat) hashmap" where
  "release dependents name remaining =
     (let remaining = hm_remove name remaining
      in (case hm_get dependents name of
            None \<Rightarrow> remaining
          | Some ds \<Rightarrow> fold decrement ds remaining))"

definition ready_names :: "(string, nat) hashmap \<Rightarrow> string list" where
  "ready_names remaining = map fst (filter (\<lambda>(name, deg). deg = 0) remaining)"

lemma length_decrement [simp]: "length (decrement d m) = length m"
proof (cases "hm_get m d")
  case (Some k)
  then have "d \<in> fst ` set m" by (auto dest: map_of_SomeD intro: rev_image_eqI)
  then have "map fst (hm_insert d (k - 1) m) = map fst m" by simp
  from arg_cong [where f = length, OF this] show ?thesis by (simp add: decrement_def Some)
qed (simp add: decrement_def)

lemma length_decrements [simp]: "length (fold decrement ds m) = length m"
  by (induction ds arbitrary: m) simp_all

lemma length_release: "length (release dependents name m) = length (hm_remove name m)"
  by (simp add: release_def Let_def split: option.split)

lemma length_releases: "length (fold (release dependents) names m) \<le> length m"
proof (induction names arbitrary: m)
  case (Cons n names)
  have "length (release dependents n m) \<le> length m"
    by (simp add: length_release AList.length_delete_le)
  with Cons [of "release dependents n m"] show ?case by simp
qed simp

function start_rounds ::
  "(string, string list) hashmap \<Rightarrow> (string, nat) hashmap \<Rightarrow> config_error + string list list" where
  "start_rounds dependents remaining =
     (let ready = ready_names remaining
      in if ready = [] then (if remaining = [] then Inr [] else Inl CycleDetected)
         else
           (case start_rounds dependents (fold (release dependents) ready remaining) of
              Inl e \<Rightarrow> Inl e
            | Inr groups \<Rightarrow> Inr (sort ready # groups)))"
  by auto
termination
proof (relation "measure (length \<circ> snd)")
  fix dependents :: "(string, string list) hashmap" and m :: "(string, nat) hashmap" and ready
  assume ready: "ready = ready_names m" "ready \<noteq> []"
  then obtain n names where names: "ready_names m = n # names" by (cases "ready_names m") auto
  then have "n \<in> set (ready_names m)" by simp
  then have "n \<in> fst ` set m" by (auto simp: ready_names_def)
  then have "length (hm_remove n m) < length m"
    by (auto simp: AList.delete_eq intro: length_filter_less)
  then have "length (fold (release dependents) (n # names) m) < length m"
    using length_releases [of dependents names "release dependents n m"] by (simp add: length_release)
  then show "((dependents, fold (release dependents) ready m), dependents, m) \<in> measure (length \<circ> snd)"
    using ready names by simp
qed simp

declare start_rounds.simps [simp del]

definition startup_order :: "project_config \<Rightarrow> config_error + string list list" where
  "startup_order cfg =
     (case add_edges (pc_processes cfg) (pc_processes cfg) (in_degree_init (pc_processes cfg), []) of
        Inl e \<Rightarrow> Inl e
      | Inr (in_degree, dependents) \<Rightarrow> start_rounds dependents in_degree)"

section \<open>Finding and loading the file\<close>

text \<open>\<open>PathBuf::pop\<close>.\<close>

definition path_parent :: "string \<Rightarrow> string option" where
  "path_parent path =
     (if path = [] \<or> path = ''/'' then None
      else (case rsplit_at CHR ''/'' path of
              None \<Rightarrow> Some []
            | Some (d, _) \<Rightarrow> Some (if d = [] then ''/'' else d)))"

lemma rsplit_at_Some:
  assumes "rsplit_at c s = Some (d, e)"
  shows "s = d @ c # e" "c \<notin> set e"
proof -
  define r where "r = takeWhile (\<lambda>x. x \<noteq> c) (rev s)"
  have s: "rev s = r @ dropWhile (\<lambda>x. x \<noteq> c) (rev s)" by (simp add: r_def)
  have e: "e = rev r" "length (rev r) \<noteq> length s" "d = take (length s - length (rev r) - 1) s"
    using assms by (auto simp: rsplit_at_def Let_def r_def split: if_splits)
  have "dropWhile (\<lambda>x. x \<noteq> c) (rev s) \<noteq> []"
  proof
    assume "dropWhile (\<lambda>x. x \<noteq> c) (rev s) = []"
    with s have "rev s = r" by simp
    with e(2) show False by (metis length_rev)
  qed
  then obtain t where t: "dropWhile (\<lambda>x. x \<noteq> c) (rev s) = c # t"
    by (metis (mono_tags, lifting) dropWhile_eq_Cons_conv list.exhaust)
  with s have "s = rev (r @ c # t)" by (metis rev_rev_ident)
  then have "s = rev t @ c # e" by (simp add: e(1))
  moreover from this e have "d = rev t" by simp
  ultimately show "s = d @ c # e" by simp
  show "c \<notin> set e" unfolding e(1) r_def using set_takeWhileD by fastforce
qed

lemma length_path_parent: "path_parent path = Some d \<Longrightarrow> length d < length path"
  by (auto simp: path_parent_def split: if_splits option.splits dest!: rsplit_at_Some(1))

function discover_config :: "fs \<Rightarrow> string \<Rightarrow> string option" where
  "discover_config fs dir =
     (let candidate = path_join dir ''agent-procs.yaml''
      in if fs_exists candidate fs then Some candidate
         else (case path_parent dir of None \<Rightarrow> None | Some parent \<Rightarrow> discover_config fs parent))"
  by auto
termination by (relation "measure (length \<circ> snd)") (simp_all add: length_path_parent)

declare discover_config.simps [simp del]

text \<open>\<open>cwd\<close> is what \<open>current_dir\<close> returns, \<open>parse\<close> the YAML parser.\<close>

definition load_config ::
  "fs \<Rightarrow> io_error + string \<Rightarrow> (string \<Rightarrow> string + project_config) \<Rightarrow> string option
     \<Rightarrow> config_error + (string \<times> project_config)" where
  "load_config fs cwd parse config_path =
     (case (case config_path of
              Some p \<Rightarrow> Inr p
            | None \<Rightarrow>
                (case cwd of
                   Inl e \<Rightarrow> Inl (Cwd e)
                 | Inr dir \<Rightarrow>
                     (case discover_config fs dir of None \<Rightarrow> Inl ConfigNotFound | Some p \<Rightarrow> Inr p))) of
        Inl e \<Rightarrow> Inl e
      | Inr path \<Rightarrow>
          (case fs_open path fs of
             Inl e \<Rightarrow> Inl (ConfigRead e)
           | Inr content \<Rightarrow>
               (case parse (text_of content) of
                  Inl e \<Rightarrow> Inl (Parse e)
                | Inr cfg \<Rightarrow> Inr (path, cfg))))"

definition resolve_session :: "string option \<Rightarrow> string option \<Rightarrow> string" where
  "resolve_session cli_session config_session =
     (case cli_session of
        Some s \<Rightarrow> s
      | None \<Rightarrow> (case config_session of Some s \<Rightarrow> s | None \<Rightarrow> DEFAULT_SESSION))"

section \<open>The graph\<close>

definition deps_of :: "(string, process_def) hashmap \<Rightarrow> string \<Rightarrow> string list" where
  "deps_of ps n = (case hm_get ps n of None \<Rightarrow> [] | Some d \<Rightarrow> pd_depends_on d)"

lemma deps_of_simps [simp]:
  "deps_of [] n = []"
  "deps_of ((name, d) # ps) n = (if n = name then pd_depends_on d else deps_of ps n)"
  by (simp_all add: deps_of_def)

lemma deps_of_unknown: "n \<notin> fst ` set ps \<Longrightarrow> deps_of ps n = []"
  by (simp add: deps_of_def map_of_eq_None_iff [THEN iffD2])

definition degree_of :: "dep_graph \<Rightarrow> string \<Rightarrow> nat" where
  "degree_of g n = (case hm_get (fst g) n of None \<Rightarrow> 0 | Some k \<Rightarrow> k)"

definition dependents_of :: "(string, string list) hashmap \<Rightarrow> string \<Rightarrow> string list" where
  "dependents_of m d = (case hm_get m d of None \<Rightarrow> [] | Some ns \<Rightarrow> ns)"

lemma add_edge_facts:
  "degree_of (add_edge name dep g) n = degree_of g n + (if n = name then 1 else 0)"
  "dependents_of (snd (add_edge name dep g)) d
     = dependents_of (snd g) d @ (if d = dep then [name] else [])"
  "name \<in> fst ` set (fst g) \<Longrightarrow> map fst (fst (add_edge name dep g)) = map fst (fst g)"
  "fst ` set (fst (add_edge name dep g)) = insert name (fst ` set (fst g))"
  by (auto simp: dom_update simp: add_edge_def degree_of_def dependents_of_def case_prod_unfold split: option.splits)

lemma add_deps_facts:
  assumes "add_deps ps name ds g = Inr g'"
  shows "degree_of g' n = degree_of g n + (if n = name then length ds else 0)"
    "count_list (dependents_of (snd g') d) n
       = count_list (dependents_of (snd g) d) n + (if n = name then count_list ds d else 0)"
    "name \<in> fst ` set (fst g) \<Longrightarrow> map fst (fst g') = map fst (fst g)"
    "set ds \<subseteq> fst ` set ps"
  using assms
  by (induction ps name ds g rule: add_deps.induct)
    (auto simp: add_edge_facts hm_contains_iff split: if_splits)

lemma add_deps_error:
  "add_deps ps name ds g = Inl e \<Longrightarrow> \<exists>d \<in> set ds. d \<notin> fst ` set ps \<and> e = UnknownDep name d"
  by (induction ps name ds g rule: add_deps.induct) (auto simp: hm_contains_iff split: if_splits)

lemma add_edges_facts:
  assumes "add_edges ps qs g = Inr g'" and "distinct (hm_keys qs)" and "fst ` set qs \<subseteq> fst ` set (fst g)"
  shows "degree_of g' n = degree_of g n + length (deps_of qs n)"
    "count_list (dependents_of (snd g') d) n
       = count_list (dependents_of (snd g) d) n + count_list (deps_of qs n) d"
    "map fst (fst g') = map fst (fst g)"
    "\<forall>(m, def) \<in> set qs. set (pd_depends_on def) \<subseteq> fst ` set ps"
proof -
  have "degree_of g' n = degree_of g n + length (deps_of qs n) \<and>
    count_list (dependents_of (snd g') d) n
       = count_list (dependents_of (snd g) d) n + count_list (deps_of qs n) d \<and>
    map fst (fst g') = map fst (fst g) \<and>
    (\<forall>(m, def) \<in> set qs. set (pd_depends_on def) \<subseteq> fst ` set ps)"
    using assms
  proof (induction ps qs g rule: add_edges.induct)
    case (2 ps name df rest g)
    obtain g1 where g1: "add_deps ps name (pd_depends_on df) g = Inr g1"
      using "2.prems"(1) by (auto split: sum.splits)
    note facts = add_deps_facts [OF g1]
    have keys: "map fst (fst g1) = map fst (fst g)" using facts(3) "2.prems"(3) by auto
    have "fst ` set (fst g1) = fst ` set (fst g)"
      using arg_cong [where f = set, OF keys] unfolding list.set_map .
    then have "fst ` set rest \<subseteq> fst ` set (fst g1)"
      using "2.prems"(3) by simp
    with "2.IH" [OF g1] "2.prems" g1
    have IH: "degree_of g' n = degree_of g1 n + length (deps_of rest n)"
      "count_list (dependents_of (snd g') d) n
         = count_list (dependents_of (snd g1) d) n + count_list (deps_of rest n) d"
      "map fst (fst g') = map fst (fst g1)"
      "\<forall>(m, def) \<in> set rest. set (pd_depends_on def) \<subseteq> fst ` set ps"
      by auto
    have "deps_of rest name = []"
      using "2.prems"(2) by (simp add: deps_of_unknown)
    then show ?case
      using IH facts keys by auto
  qed simp
  then show "degree_of g' n = degree_of g n + length (deps_of qs n)"
    "count_list (dependents_of (snd g') d) n
       = count_list (dependents_of (snd g) d) n + count_list (deps_of qs n) d"
    "map fst (fst g') = map fst (fst g)"
    "\<forall>(m, def) \<in> set qs. set (pd_depends_on def) \<subseteq> fst ` set ps" by blast+
qed

lemma add_edges_error:
  "add_edges ps qs g = Inl e \<Longrightarrow>
     \<exists>(n, def) \<in> set qs. \<exists>d \<in> set (pd_depends_on def). d \<notin> fst ` set ps \<and> e = UnknownDep n d"
  by (induction ps qs g rule: add_edges.induct) (auto split: sum.splits dest!: add_deps_error)

section \<open>Rounds\<close>

lemma decrement_get: "hm_get (decrement d m) n = (if n = d then map_option (\<lambda>k. k - 1) (hm_get m n) else hm_get m n)"
  by (auto simp: decrement_def split: option.split)

lemma decrements_get: "hm_get (fold decrement ds m) n = map_option (\<lambda>k. k - count_list ds n) (hm_get m n)"
  by (induction ds arbitrary: m) (auto simp: decrement_get option.map_comp comp_def option.map_ident)

lemma keys_decrement [simp]: "map fst (fold decrement ds m) = map fst m"
proof (induction ds arbitrary: m)
  case (Cons d ds)
  have "map fst (decrement d m) = map fst m"
    by (cases "hm_get m d") (auto simp: decrement_def dest: map_of_SomeD intro!: keys_update_present rev_image_eqI)
  with Cons show ?case by simp
qed simp

lemma release_get:
  "hm_get (release g name m) n =
     (if n = name then None else map_option (\<lambda>k. k - count_list (dependents_of g name) n) (hm_get m n))"
  "map fst (release g name m) = removeAll name (map fst m)"
  by (auto simp: release_def dependents_of_def decrements_get Let_def delete_keys option.map_ident split: option.split)

text \<open>After the names \<open>R\<close> have started: exactly the others remain, each with the number of its
  dependencies that have not.\<close>

definition waiting :: "(string, process_def) hashmap \<Rightarrow> string set \<Rightarrow> (string, nat) hashmap \<Rightarrow> bool" where
  "waiting ps R m \<longleftrightarrow>
     distinct (hm_keys m) \<and>
     (\<forall>n. hm_get m n = (if n \<in> fst ` set ps \<and> n \<notin> R
        then Some (length (filter (\<lambda>d. d \<notin> R) (deps_of ps n))) else None))"

definition edges_ok :: "(string, process_def) hashmap \<Rightarrow> (string, string list) hashmap \<Rightarrow> bool" where
  "edges_ok ps g \<longleftrightarrow> (\<forall>d n. count_list (dependents_of g d) n = count_list (deps_of ps n) d)"

lemma filter_released:
  "name \<notin> R \<Longrightarrow> length (filter (\<lambda>d. d \<notin> R) ds) =
     length (filter (\<lambda>d. d \<notin> insert name R) ds) + count_list ds name"
  by (induction ds) auto

lemma released_degree:
  assumes "waiting ps R m" and "edges_ok ps g" and "name \<notin> R" and "hm_get m n = Some k"
  shows "count_list (dependents_of g name) n \<le> k"
  using assms filter_released [of name R "deps_of ps n"]
  by (auto simp: waiting_def edges_ok_def split: if_splits)

lemma release_waiting:
  assumes "waiting ps R m" and "edges_ok ps g" and "name \<notin> R"
  shows "waiting ps (insert name R) (release g name m)"
  unfolding waiting_def
proof (intro conjI allI)
  show "distinct (hm_keys (release g name m))"
    using assms(1) by (simp add: release_get waiting_def distinct_removeAll)
  fix n
  show "hm_get (release g name m) n = (if n \<in> fst ` set ps \<and> n \<notin> insert name R
      then Some (length (filter (\<lambda>d. d \<notin> insert name R) (deps_of ps n))) else None)"
    using assms filter_released [OF assms(3), of "deps_of ps n"]
    by (auto simp: release_get waiting_def edges_ok_def)
qed

lemma releases_waiting:
  "\<lbrakk>waiting ps R m; edges_ok ps g; distinct names; set names \<inter> R = {}\<rbrakk>
    \<Longrightarrow> waiting ps (R \<union> set names) (fold (release g) names m)"
proof (induction names arbitrary: R m)
  case (Cons n names)
  from Cons.prems Cons.IH [OF release_waiting [OF Cons.prems(1,2), of n]] show ?case
    by auto
qed simp

lemma ready_waiting:
  assumes "waiting ps R m"
  shows "distinct (ready_names m)"
    "set (ready_names m) = {n \<in> fst ` set ps - R. set (deps_of ps n) \<subseteq> R}"
    "fst ` set m = fst ` set ps - R"
proof -
  have d: "distinct (hm_keys m)" using assms by (simp add: waiting_def)
  then show "distinct (ready_names m)"
    unfolding ready_names_def by (rule distinct_map_filter)
  have get: "hm_get m n = (if n \<in> fst ` set ps \<and> n \<notin> R
      then Some (length (filter (\<lambda>d. d \<notin> R) (deps_of ps n))) else None)" for n
    using assms by (simp add: waiting_def)
  have "n \<in> fst ` set m \<longleftrightarrow> n \<in> fst ` set ps - R" for n
  proof -
    have "n \<in> fst ` set m \<longleftrightarrow> hm_get m n \<noteq> None" by (simp only: map_of_eq_None_iff not_not)
    then show ?thesis unfolding get by simp
  qed
  then show "fst ` set m = fst ` set ps - R" by blast
  have "\<And>n. n \<in> set (ready_names m) \<longleftrightarrow> hm_get m n = Some 0"
    using d by (auto simp: ready_names_def intro: rev_image_eqI)
  then show "set (ready_names m) = {n \<in> fst ` set ps - R. set (deps_of ps n) \<subseteq> R}"
  proof -
    have "(hm_get m n = Some 0) \<longleftrightarrow> n \<in> fst ` set ps - R \<and> set (deps_of ps n) \<subseteq> R" for n
      unfolding get by (auto simp: filter_empty_conv subset_iff)
    with \<open>\<And>n. n \<in> set (ready_names m) \<longleftrightarrow> hm_get m n = Some 0\<close> show ?thesis by blast
  qed
qed

text \<open>The groups from \<open>R\<close> on: each is, sorted, everything whose dependencies have started.\<close>

fun staged :: "(string, process_def) hashmap \<Rightarrow> string set \<Rightarrow> string list list \<Rightarrow> bool" where
  "staged ps R [] = (fst ` set ps \<subseteq> R)"
| "staged ps R (g # gs) =
     (g \<noteq> [] \<and> sorted g \<and> distinct g \<and>
      set g = {n \<in> fst ` set ps - R. set (deps_of ps n) \<subseteq> R} \<and> staged ps (R \<union> set g) gs)"

definition dep_rel :: "(string, process_def) hashmap \<Rightarrow> (string \<times> string) set" where
  "dep_rel ps = {(d, n). n \<in> fst ` set ps \<and> d \<in> set (deps_of ps n)}"

text \<open>A set of processes each of which waits for another of the set.\<close>

definition deadlocked :: "(string, process_def) hashmap \<Rightarrow> string set \<Rightarrow> bool" where
  "deadlocked ps C \<longleftrightarrow> C \<subseteq> fst ` set ps \<and> (\<forall>n \<in> C. \<exists>d \<in> set (deps_of ps n). d \<in> C)"

lemma start_rounds_waiting:
  assumes "waiting ps R m" and "edges_ok ps g" and "\<forall>n. set (deps_of ps n) \<subseteq> fst ` set ps"
  shows "case start_rounds g m of
      Inr gs \<Rightarrow> staged ps R gs
    | Inl e \<Rightarrow> e = CycleDetected \<and> (\<exists>C. C \<noteq> {} \<and> deadlocked ps C)"
  using assms
proof (induction g m arbitrary: R rule: start_rounds.induct)
  case (1 g m)
  note ready = ready_waiting [OF "1.prems"(1)]
  show ?case
  proof (cases "ready_names m = []")
    case True
    show ?thesis
    proof (cases "m = []")
      case True
      then show ?thesis using ready(3) by (simp add: start_rounds.simps ready_names_def)
    next
      case False
      have "deadlocked ps (fst ` set ps - R)"
      proof -
        have none: "\<not> set (deps_of ps n) \<subseteq> R" if "n \<in> fst ` set ps - R" for n
          using ready(2) \<open>ready_names m = []\<close> that by auto
        show ?thesis
          unfolding deadlocked_def using none "1.prems"(3) by blast
      qed
      moreover have "fst ` set m \<noteq> {}" using False by simp
      then have "fst ` set ps - R \<noteq> {}" unfolding ready(3) .
      ultimately have "\<exists>C. C \<noteq> {} \<and> deadlocked ps C"
        by (intro exI [of _ "fst ` set ps - R"] conjI)
      then show ?thesis using True False by (simp add: start_rounds.simps [of g m])
    qed
  next
    case False
    have "waiting ps (R \<union> set (ready_names m)) (fold (release g) (ready_names m) m)"
      by (rule releases_waiting [OF "1.prems"(1,2) ready(1)]) (use ready(2) in auto)
    moreover have "sort (ready_names m) \<noteq> []"
      using False by (metis length_0_conv length_sort)
    ultimately show ?thesis
      using False ready(1,2) "1.IH" [OF refl False _ "1.prems"(2,3)]
      by (subst start_rounds.simps) (auto simp: Let_def split: sum.splits)
  qed
qed

lemma staged_no_deadlock:
  "staged ps R gs \<Longrightarrow> deadlocked ps C \<Longrightarrow> C \<inter> R = {} \<Longrightarrow> C = {}"
proof (induction ps R gs rule: staged.induct)
  case (1 ps R)
  then show ?case unfolding deadlocked_def staged.simps by blast
next
  case (2 ps R g gs)
  have "C \<inter> set g = {}"
  proof (rule ccontr)
    assume "C \<inter> set g \<noteq> {}"
    then obtain n where n: "n \<in> C" "n \<in> set g" by auto
    then have "set (deps_of ps n) \<subseteq> R" using "2.prems"(1) by auto
    moreover obtain d where "d \<in> set (deps_of ps n)" "d \<in> C"
      using "2.prems"(2) n(1) unfolding deadlocked_def by blast
    ultimately show False using "2.prems"(3) by blast
  qed
  with "2.prems"(3) have "C \<inter> (R \<union> set g) = {}" by blast
  moreover have "staged ps (R \<union> set g) gs" using "2.prems"(1) unfolding staged.simps by (elim conjE)
  ultimately show ?case using "2.IH" "2.prems"(2) by blast
qed

lemma acyclic_iff_no_deadlock:
  assumes "\<forall>n. set (deps_of ps n) \<subseteq> fst ` set ps"
  shows "acyclic (dep_rel ps) \<longleftrightarrow> (\<forall>C. deadlocked ps C \<longrightarrow> C = {})"
proof
  assume acyclic: "acyclic (dep_rel ps)"
  have "finite (dep_rel ps)"
    by (rule finite_subset [of _ "fst ` set ps \<times> fst ` set ps"]) (use assms in \<open>auto simp: dep_rel_def\<close>)
  with acyclic have wf: "wf (dep_rel ps)" by (simp add: finite_acyclic_wf)
  show "\<forall>C. deadlocked ps C \<longrightarrow> C = {}"
  proof (intro allI impI)
    fix C
    assume C: "deadlocked ps C"
    show "C = {}"
    proof (rule ccontr)
      assume "C \<noteq> {}"
      then obtain n where "n \<in> C" "\<And>d. (d, n) \<in> dep_rel ps \<Longrightarrow> d \<notin> C"
        using wf by (metis ex_in_conv wfE_min)
      with C show False unfolding deadlocked_def dep_rel_def by blast
    qed
  qed
next
  assume none: "\<forall>C. deadlocked ps C \<longrightarrow> C = {}"
  let ?C = "{n. (n, n) \<in> (dep_rel ps)\<^sup>+}"
  have "deadlocked ps ?C"
    unfolding deadlocked_def
  proof (intro conjI ballI)
    show "?C \<subseteq> fst ` set ps"
      by (auto elim!: tranclE simp: dep_rel_def)
    fix n
    assume "n \<in> ?C"
    then obtain d where d: "(n, d) \<in> (dep_rel ps)\<^sup>*" "(d, n) \<in> dep_rel ps"
      by (auto dest: tranclD2)
    then have "(d, d) \<in> (dep_rel ps)\<^sup>+" by (rule rtrancl_into_trancl2 [rotated])
    with d(2) show "\<exists>d \<in> set (deps_of ps n). d \<in> ?C" by (auto simp: dep_rel_def)
  qed
  with none have "?C = {}" by blast
  then show "acyclic (dep_rel ps)" by (auto simp: acyclic_def)
qed

section \<open>The startup order\<close>

lemma in_degree_init_facts:
  "fst ` set (fold (\<lambda>name m. if hm_contains m name then m else hm_insert name 0 m) names m) = fst ` set m \<union> set names"
  "distinct (hm_keys m) \<Longrightarrow>
     distinct (hm_keys (fold (\<lambda>name m. if hm_contains m name then m else hm_insert name (0 :: nat) m) names m))"
  "\<forall>(k, v) \<in> set m. v = (0 :: nat) \<Longrightarrow>
     \<forall>(k, v) \<in> set (fold (\<lambda>name m. if hm_contains m name then m else hm_insert name 0 m) names m). v = 0"
proof -
  show "fst ` set (fold (\<lambda>name m. if hm_contains m name then m else hm_insert name 0 m) names m) = fst ` set m \<union> set names"
    by (induction names arbitrary: m) (auto simp: hm_contains_iff dom_update)
  show "distinct (hm_keys m) \<Longrightarrow>
     distinct (hm_keys (fold (\<lambda>name m. if hm_contains m name then m else hm_insert name (0 :: nat) m) names m))"
    by (induction names arbitrary: m) (auto simp: hm_contains_iff distinct_update)
  have zero: "\<forall>(k, v) \<in> set (hm_insert n (0 :: nat) m). v = 0" if "\<forall>(k, v) \<in> set m. v = 0" for n m
    using that by (induction m) auto
  show "\<forall>(k, v) \<in> set m. v = (0 :: nat) \<Longrightarrow>
     \<forall>(k, v) \<in> set (fold (\<lambda>name m. if hm_contains m name then m else hm_insert name 0 m) names m). v = 0"
  proof (induction names arbitrary: m)
    case (Cons n names)
    have "\<forall>(k, v) \<in> set (if hm_contains m n then m else hm_insert n 0 m). v = 0"
      using Cons.prems zero [OF Cons.prems, of n] by simp
    from Cons.IH [OF this] show ?case by simp
  qed simp
qed

lemma edges_waiting:
  assumes edges: "add_edges ps ps (in_degree_init ps, []) = Inr (in_degree, dependents)"
    and d: "distinct (hm_keys ps)"
  shows "waiting ps {} in_degree" "edges_ok ps dependents" "\<forall>n. set (deps_of ps n) \<subseteq> fst ` set ps"
proof -
  let ?g = "(in_degree_init ps, [] :: (string, string list) hashmap)"
  have keys: "fst ` set (fst ?g) = fst ` set ps"
    using in_degree_init_facts(1) [of "hm_keys ps" "[]"] by (simp add: in_degree_init_def)
  note facts = add_edges_facts [OF edges d, unfolded keys, OF subset_refl]
  have zero: "degree_of ?g n = 0" for n
    using in_degree_init_facts(3) [of "[]" "hm_keys ps"]
    by (auto simp: degree_of_def in_degree_init_def split: option.split dest!: map_of_SomeD)
  have same: "map fst in_degree = map fst (in_degree_init ps)" using facts(3) by simp
  have "fst ` set in_degree = fst ` set ps"
    using arg_cong [where f = set, OF same] keys unfolding list.set_map by simp
  moreover have "distinct (hm_keys in_degree)"
    unfolding same using in_degree_init_facts(2) [of "[]" "hm_keys ps"] by (simp add: in_degree_init_def)
  moreover have "hm_get in_degree n = Some (length (deps_of ps n))" if "n \<in> fst ` set in_degree" for n
    using facts(1) [of n] zero [of n] that
    by (cases "hm_get in_degree n") (auto simp: degree_of_def map_of_eq_None_iff)
  moreover have "hm_get in_degree n = None" if "n \<notin> fst ` set in_degree" for n
    by (rule map_of_eq_None_iff [THEN iffD2, OF that])
  ultimately show "waiting ps {} in_degree" by (simp add: waiting_def)
  show "edges_ok ps dependents"
    using facts(2) by (simp add: edges_ok_def dependents_of_def)
  show "\<forall>n. set (deps_of ps n) \<subseteq> fst ` set ps"
  proof
    fix n
    show "set (deps_of ps n) \<subseteq> fst ` set ps"
    proof (cases "hm_get ps n")
      case (Some df)
      then have "(n, df) \<in> set ps" by (rule map_of_SomeD)
      with facts(4) Some show ?thesis by (auto simp: deps_of_def)
    qed (simp add: deps_of_def)
  qed
qed

lemma staged_facts:
  "staged ps R gs \<Longrightarrow> distinct (concat gs) \<and> set (concat gs) = fst ` set ps - R"
  "\<lbrakk>staged ps R gs; i < length gs\<rbrakk> \<Longrightarrow> gs ! i \<noteq> [] \<and> sorted (gs ! i) \<and>
     set (gs ! i) = {n \<in> fst ` set ps - (R \<union> set (concat (take i gs))).
       set (deps_of ps n) \<subseteq> R \<union> set (concat (take i gs))}"
proof -
  show "staged ps R gs \<Longrightarrow> distinct (concat gs) \<and> set (concat gs) = fst ` set ps - R"
  proof (induction ps R gs rule: staged.induct)
    case (2 ps R g gs)
    then have IH: "distinct (concat gs)" "set (concat gs) = fst ` set ps - (R \<union> set g)"
      and g: "set g \<subseteq> fst ` set ps - R" "distinct g"
      unfolding staged.simps by blast+
    then have "set g \<inter> set (concat gs) = {}" by blast
    moreover have "set (concat (g # gs)) = fst ` set ps - R" using IH(2) g(1) by auto
    ultimately show ?case using IH(1) g(2) by simp
  qed auto
  show "\<lbrakk>staged ps R gs; i < length gs\<rbrakk> \<Longrightarrow> gs ! i \<noteq> [] \<and> sorted (gs ! i) \<and>
     set (gs ! i) = {n \<in> fst ` set ps - (R \<union> set (concat (take i gs))).
       set (deps_of ps n) \<subseteq> R \<union> set (concat (take i gs))}"
  proof (induction ps R gs arbitrary: i rule: staged.induct)
    case (2 ps R g gs)
    then have g: "g \<noteq> [] \<and> sorted g \<and> set g = {n \<in> fst ` set ps - R. set (deps_of ps n) \<subseteq> R}"
      and st: "staged ps (R \<union> set g) gs" unfolding staged.simps by blast+
    show ?case
    proof (cases i)
      case 0
      with g show ?thesis by simp
    next
      case (Suc j)
      with "2.IH" [OF st, of j] "2.prems"(2) show ?thesis by (simp add: Un_assoc)
    qed
  qed simp
qed

lemma startup_order_cases:
  assumes "distinct (hm_keys (pc_processes cfg))"
  shows "case startup_order cfg of
      Inr gs \<Rightarrow> staged (pc_processes cfg) {} gs \<and>
        (\<forall>n. set (deps_of (pc_processes cfg) n) \<subseteq> fst ` set (pc_processes cfg))
    | Inl e \<Rightarrow>
        (e = CycleDetected \<and> (\<exists>C. C \<noteq> {} \<and> deadlocked (pc_processes cfg) C) \<and>
           (\<forall>n. set (deps_of (pc_processes cfg) n) \<subseteq> fst ` set (pc_processes cfg))) \<or>
        (\<exists>n d. e = UnknownDep n d \<and> n \<in> fst ` set (pc_processes cfg) \<and>
           d \<in> set (deps_of (pc_processes cfg) n) \<and> d \<notin> fst ` set (pc_processes cfg))"
proof (cases "add_edges (pc_processes cfg) (pc_processes cfg) (in_degree_init (pc_processes cfg), [])")
  case (Inl e)
  obtain n d df where "(n, df) \<in> set (pc_processes cfg)" "d \<in> set (pd_depends_on df)"
    "d \<notin> fst ` set (pc_processes cfg)" "e = UnknownDep n d"
    using add_edges_error [OF Inl] by blast
  moreover from this(1) have "deps_of (pc_processes cfg) n = pd_depends_on df"
    using assms by (simp add: deps_of_def)
  ultimately show ?thesis
    using Inl by (auto simp: startup_order_def intro!: rev_image_eqI)
next
  case (Inr g)
  obtain in_degree dependents where g: "g = (in_degree, dependents)" by fastforce
  note w = edges_waiting [OF Inr [unfolded g] assms]
  have "startup_order cfg = start_rounds dependents in_degree"
    by (simp add: startup_order_def Inr g)
  with start_rounds_waiting [OF w] w(3) show ?thesis by (auto split: sum.splits)
qed

section \<open>Properties\<close>

text \<open>C23: the startup order is right and as early as possible. When an order is returned, its groups
  hold every process exactly once, each group is sorted and not empty, and it is exactly the set of
  the processes not yet started whose dependencies have all started in earlier groups.\<close>

theorem startup_order_groups:
  assumes "distinct (hm_keys (pc_processes cfg))" and "startup_order cfg = Inr groups"
  shows "mset (concat groups) = mset (hm_keys (pc_processes cfg)) \<and>
    (\<forall>i < length groups. groups ! i \<noteq> [] \<and> sorted (groups ! i) \<and>
       set (groups ! i) = {n \<in> fst ` set (pc_processes cfg). n \<notin> set (concat (take i groups)) \<and>
         set (deps_of (pc_processes cfg) n) \<subseteq> set (concat (take i groups))})"
proof -
  have st: "staged (pc_processes cfg) {} groups"
    using startup_order_cases [OF assms(1)] assms(2) by simp
  have "mset (concat groups) = mset (hm_keys (pc_processes cfg))"
  proof (rule set_eq_iff_mset_eq_distinct [THEN iffD1, OF _ assms(1)])
    show "distinct (concat groups)" "set (concat groups) = set (hm_keys (pc_processes cfg))"
      using staged_facts(1) [OF st] by simp_all
  qed
  moreover have "groups ! i \<noteq> [] \<and> sorted (groups ! i) \<and>
      set (groups ! i) = {n \<in> fst ` set (pc_processes cfg). n \<notin> set (concat (take i groups)) \<and>
        set (deps_of (pc_processes cfg) n) \<subseteq> set (concat (take i groups))}" if "i < length groups" for i
    using staged_facts(2) [OF st that] by auto
  ultimately show ?thesis by blast
qed

definition example_def :: "string list \<Rightarrow> process_def" where
  "example_def ds =
     \<lparr>pd_cmd = ''run'', pd_cwd = None, pd_env = [], pd_ready = None, pd_depends_on = ds, pd_port = None,
      pd_autorestart = None, pd_max_restarts = None, pd_restart_delay = None, pd_watch = None,
      pd_watch_ignore = None\<rparr>"

definition example_config :: project_config where
  "example_config =
     \<lparr>pc_session = None,
      pc_processes = [(''web'', example_def [''api'', ''db'']), (''db'', example_def []),
                      (''api'', example_def [''db'', ''db''])],
      pc_proxy = None, pc_proxy_port = None\<rparr>"

lemma example_order: "startup_order example_config = Inr [[''db''], [''api''], [''web'']]"
  by code_simp

theorem startup_order_groups_witness:
  "mset (concat [[''db''], [''api''], [''web'']]) = mset [''web'', ''db'', ''api''] \<and>
   {''web''} = {n \<in> {''web'', ''db'', ''api''}. n \<notin> {''db'', ''api''} \<and>
     set (deps_of (pc_processes example_config) n) \<subseteq> {''db'', ''api''}}"
proof -
  have d: "distinct (hm_keys (pc_processes example_config))" by (simp add: example_config_def)
  note facts = startup_order_groups [OF d example_order]
  have names: "hm_keys (pc_processes example_config) = [''web'', ''db'', ''api'']"
    by (simp add: example_config_def)
  then have "fst ` set (pc_processes example_config) = {''web'', ''db'', ''api''}"
    by (simp flip: list.set_map)
  with conjunct1 [OF facts] spec [OF conjunct2 [OF facts], of 2] show ?thesis
    by (simp add: names numeral_2_eq_2)
qed

text \<open>C24: the errors of the startup order are exact. With all dependencies known, an order is
  returned if and only if the dependency relation is acyclic, and otherwise the error is the cycle;
  an unknown dependency is reported with a process that has it; no other error occurs.\<close>

theorem startup_order_errors:
  assumes "distinct (hm_keys (pc_processes cfg))"
  shows "case startup_order cfg of
      Inr groups \<Rightarrow> acyclic (dep_rel (pc_processes cfg)) \<and>
        (\<forall>n. set (deps_of (pc_processes cfg) n) \<subseteq> fst ` set (pc_processes cfg))
    | Inl CycleDetected \<Rightarrow> \<not> acyclic (dep_rel (pc_processes cfg)) \<and>
        (\<forall>n. set (deps_of (pc_processes cfg) n) \<subseteq> fst ` set (pc_processes cfg))
    | Inl (UnknownDep n d) \<Rightarrow> n \<in> fst ` set (pc_processes cfg) \<and>
        d \<in> set (deps_of (pc_processes cfg) n) \<and> d \<notin> fst ` set (pc_processes cfg)
    | Inl _ \<Rightarrow> False"
proof (cases "startup_order cfg")
  case (Inr gs)
  with startup_order_cases [OF assms]
  have st: "staged (pc_processes cfg) {} gs"
    and known: "\<forall>n. set (deps_of (pc_processes cfg) n) \<subseteq> fst ` set (pc_processes cfg)" by simp_all
  from staged_no_deadlock [OF st] have "\<forall>C. deadlocked (pc_processes cfg) C \<longrightarrow> C = {}" by simp
  with Inr known acyclic_iff_no_deadlock [OF known] show ?thesis by simp
next
  case (Inl e)
  from startup_order_cases [OF assms, unfolded Inl sum.case] show ?thesis
  proof (elim disjE conjE exE)
    fix C
    assume cycle: "e = CycleDetected" "C \<noteq> {}" "deadlocked (pc_processes cfg) C"
      "\<forall>n. set (deps_of (pc_processes cfg) n) \<subseteq> fst ` set (pc_processes cfg)"
    with acyclic_iff_no_deadlock [OF cycle(4)] have "\<not> acyclic (dep_rel (pc_processes cfg))" by blast
    with Inl cycle(1,4) show ?thesis by simp
  qed (simp add: Inl)
qed

definition example_cyclic :: project_config where
  "example_cyclic = example_config\<lparr>pc_processes := [(''a'', example_def [''b'']), (''b'', example_def [''a''])]\<rparr>"

lemma example_cyclic_order: "startup_order example_cyclic = Inl CycleDetected"
  by code_simp

theorem startup_order_errors_witness:
  "\<not> acyclic (dep_rel (pc_processes example_cyclic)) \<and> acyclic (dep_rel (pc_processes example_config))"
proof -
  have d: "distinct (hm_keys (pc_processes example_cyclic))" "distinct (hm_keys (pc_processes example_config))"
    by (simp_all add: example_cyclic_def example_config_def)
  from startup_order_errors [OF d(1)] startup_order_errors [OF d(2)] show ?thesis
    unfolding example_cyclic_order example_order by simp
qed

end
