(* ===== verification/Proxy_Sync.thy ===== *)
theory Proxy_Sync
  imports Isolation Daemon_Properties
begin

text \<open>
  The proxy's routing map is the actor's copy of \<open>running_ports\<close> (a watch channel, here
  \<open>ac_proxy_state\<close>). Two views of it are kept by the daemon: it covers every live process
  (\<open>covers_live\<close>), and it agrees with the table (\<open>in_sync\<close>). What the handlers do to a view is proved
  once for both, in the locale \<open>proxy_view\<close>; the second has one exception, which is stated exactly.
\<close>

section \<open>The routes of a table\<close>

definition route :: "actor \<Rightarrow> string \<Rightarrow> u16 option" where
  "route a k =
     (case record_at k a of
        None \<Rightarrow> None
      | Some p \<Rightarrow> if leader_alive (mp_life p) then mp_port p else None)"

definition in_sync :: "actor \<Rightarrow> bool" where
  "in_sync a \<longleftrightarrow> distinct (hm_keys (ac_proxy_state a)) \<and> map_of (ac_proxy_state a) = route a"

lemma map_of_running_ports:
  assumes "distinct (hm_keys ps)"
  shows "map_of (List.map_filter (\<lambda>(name, p). map_option (Pair name) (mp_port p))
      (filter (\<lambda>(name, p). leader_alive (mp_life p)) ps)) k
    = (case map_of ps k of None \<Rightarrow> None | Some p \<Rightarrow> if leader_alive (mp_life p) then mp_port p else None)"
  using assms
proof (induction ps)
  case Nil
  then show ?case by (simp add: List.map_filter_simps)
next
  case (Cons e ps)
  obtain j p where e: "e = (j, p)" by force
  have "map_of ps j = None" using Cons.prems e by (simp add: map_of_eq_None_iff)
  with Cons e show ?case
    by (cases "mp_port p") (auto simp: List.map_filter_simps)
qed

lemma keys_running_ports:
  "distinct (hm_keys ps) \<Longrightarrow> distinct (hm_keys
     (List.map_filter (\<lambda>(name, p). map_option (Pair name) (mp_port p))
       (filter (\<lambda>(name, p). leader_alive (mp_life p)) ps)))"
proof (induction ps)
  case (Cons e ps)
  obtain j p where e: "e = (j, p)" by force
  have "j \<notin> fst ` set (List.map_filter (\<lambda>(name, p). map_option (Pair name) (mp_port p))
      (filter (\<lambda>(name, p). leader_alive (mp_life p)) ps))"
    using Cons.prems e by (force simp: List.map_filter_def)
  with Cons e show ?case
    by (cases "mp_port p") (auto simp: List.map_filter_simps)
qed (simp add: List.map_filter_simps)

lemma running_ports_route:
  assumes "distinct (hm_keys (pm_processes (ac_pm a)))"
  shows "map_of (running_ports (ac_pm a)) = route a" "distinct (hm_keys (running_ports (ac_pm a)))"
  using assms map_of_running_ports keys_running_ports
  by (auto simp: running_ports_def route_def record_at_def fun_eq_iff)

lemma route_cong:
  "(\<And>k. record_at k a' = record_at k a) \<Longrightarrow> route a' = route a"
  by (simp add: route_def fun_eq_iff)

text \<open>Publishing brings the map up to date, whatever it was.\<close>

lemma in_sync_publish_keys:
  assumes "distinct (hm_keys (pm_processes (ac_pm a)))" and "distinct (hm_keys (ac_proxy_state a))"
  shows "in_sync (publish_proxy_state a)"
proof -
  have r: "route (publish_proxy_state a) = route a" by (rule route_cong) simp
  note run = running_ports_route [OF assms(1)]
  show ?thesis
  proof (cases "hm_eq (ac_proxy_state a) (running_ports (ac_pm a))")
    case True
    from hm_eq_imp_map_of_eq [OF this assms(2) run(2)] run True assms(2) show ?thesis
      by (simp add: in_sync_def r) (simp add: publish_proxy_state_def Let_def)
  next
    case False
    with run show ?thesis by (simp add: in_sync_def r) (simp add: publish_proxy_state_def Let_def)
  qed
qed

lemma in_sync_cong:
  assumes "ac_proxy_state a' = ac_proxy_state a" and "route a' = route a"
  shows "in_sync a' = in_sync a"
  using assms by (simp add: in_sync_def)

text \<open>The map covers the live processes when every route of the table is in it.\<close>

definition covers_live :: "actor \<Rightarrow> bool" where
  "covers_live a \<longleftrightarrow> distinct (hm_keys (ac_proxy_state a)) \<and>
     (\<forall>k port. route a k = Some port \<longrightarrow> hm_get (ac_proxy_state a) k = Some port)"

lemma in_sync_covers: "in_sync a \<Longrightarrow> covers_live a"
  by (simp add: in_sync_def covers_live_def)

section \<open>Handlers that publish nothing\<close>

lemma route_set_proc:
  assumes "record_at k a = Some p" and "mp_port q = mp_port p"
    and "leader_alive (mp_life q) = leader_alive (mp_life p)"
  shows "route (on_pm (set_proc k q) a) = route a"
  using assms by (simp add: route_def fun_eq_iff)

lemma route_start_teardown:
  assumes "record_at k a = Some p"
  shows "route (start_teardown k thn w a) = route a"
proof -
  have "route (a\<lparr>ac_panicked := True\<rparr>) = route a" "route (emit es b) = route b" for es b
    by (rule route_cong, simp)+
  moreover have e: "find_entry (ac_pm a) k = Some (k, p)" using assms by (simp add: record_at_def)
  ultimately show ?thesis
    by (cases "mp_life p") (simp_all add: start_teardown_def route_set_proc [OF assms])
qed

text \<open>Looking at the exits only takes routes away, and does nothing when there is none to see.\<close>

lemma route_refresh: "route (refresh os a) k = Some port \<Longrightarrow> route a k = Some port"
proof -
  have "leader_alive (refresh_life w l) \<Longrightarrow> leader_alive l" for w l
    by (cases w l rule: refresh_life_cases) simp_all
  then show "route (refresh os a) k = Some port \<Longrightarrow> route a k = Some port"
    by (auto simp: route_def observed_def split: option.splits if_splits)
qed

lemma refresh_unobserved:
  assumes "\<not> fst (refresh_exit_states os (ac_pm a))"
  shows "refresh os a = a"
proof -
  have "map (\<lambda>(k, p). (k, p\<lparr>mp_life := refresh_life w (mp_life p)\<rparr>)) ps = ps"
    if "\<not> list_ex (\<lambda>(k, p). exit_observed w (mp_life p)) ps" for w ps
    using that
  proof (induction ps)
    case (Cons e ps)
    obtain k p where e: "e = (k, p)" by force
    with Cons show ?case
      by (cases w "mp_life p" rule: refresh_life_cases) auto
  qed simp
  from this [of "os_waitid os" "pm_processes (ac_pm a)"] assms
  show ?thesis by (simp add: refresh_def on_pm_def refresh_exit_states_def)
qed

lemma start_teardown_frame [simp]:
  "ac_proxy_state (start_teardown n t w a) = ac_proxy_state a"
  by (simp add: start_teardown_def split: option.split)

lemma stop_all_frame [simp]:
  "ac_proxy_state (fst (fold stop_all_one ns s)) = ac_proxy_state (fst s)"
proof (induction ns arbitrary: s)
  case (Cons n ns)
  have "ac_proxy_state (fst (stop_all_one n s)) = ac_proxy_state (fst s)"
    by (cases s) (simp add: stop_all_one_def split: option.split life.split)
  with Cons show ?case by simp
qed simp

lemma finish_stop_all_frame [simp]: "ac_proxy_state (finish_stop_all a) = ac_proxy_state a"
  by (simp add: finish_stop_all_def split: option.split)

text \<open>A stop and a restart look at the exits and then change no route and publish nothing.\<close>

lemma stop_routes:
  assumes inv: "pm_inv (ac_pm a)"
  shows "ac_proxy_state (handle_stop os target r a) = ac_proxy_state a \<and>
    route (handle_stop os target r a) = route (refresh os a)"
proof -
  define b where "b = refresh os a"
  have inv: "pm_inv (ac_pm b)" and state: "ac_proxy_state b = ac_proxy_state a"
    using refresh_starts [OF inv] by (simp_all add: starts_def b_def)
  have emit: "route (emit es x) = route x" for es x by (rule route_cong) simp
  show ?thesis
  proof (cases "find_entry (ac_pm b) target")
    case None
    then show ?thesis by (simp add: handle_stop_def Let_def reply_def emit flip: b_def) (simp add: state)
  next
    case (Some e)
    obtain k p where e: "e = (k, p)" by force
    note found = find_entry_inv [OF inv Some [unfolded e]]
    have p: "record_at k b = Some p" using found(1) by (simp add: record_at_def)
    have alive: "leader_alive (Stopping leader t ws) = leader_alive (Stopping leader t' ws')"
      for leader t ws t' ws' by (cases leader) simp_all
    show ?thesis
      using Some e found(2) route_set_proc [OF p] route_start_teardown [OF p] alive
      by (cases "mp_life p" rule: stop_cases)
        (auto simp: handle_stop_def Let_def reply_def emit state simp flip: b_def split: life.split option.split)
  qed
qed

lemma restart_routes:
  assumes inv: "pm_inv (ac_pm a)"
  shows "ac_proxy_state (handle_restart os target r a) = ac_proxy_state a \<and>
    (route (handle_restart os target r a) = route (refresh os a) \<or> route (handle_restart os target r a) = route a)"
proof -
  define b where "b = refresh os a"
  have inv: "pm_inv (ac_pm b)" and state: "ac_proxy_state b = ac_proxy_state a"
    using refresh_starts [OF inv] by (simp_all add: starts_def b_def)
  have emit: "route (emit es x) = route x" for es x by (rule route_cong) simp
  show ?thesis
  proof (cases "find_entry (ac_pm b) target")
    case None
    then show ?thesis by (auto simp: handle_restart_def Let_def reply_def emit state simp flip: b_def)
  next
    case (Some e)
    obtain k p where e: "e = (k, p)" by force
    note found = find_entry_inv [OF inv Some [unfolded e]]
    have p: "record_at k b = Some p" using found(1) by (simp add: record_at_def)
    have alive: "leader_alive (Stopping leader t ws) = leader_alive (Stopping leader t' ws')"
      for leader t ws t' ws' by (cases leader) simp_all
    show ?thesis
      using Some e found(2) route_set_proc [OF p] route_start_teardown [OF p] alive
      by (cases "mp_life p")
        (auto simp: handle_restart_def Let_def reply_def emit state simp flip: b_def)
  qed
qed

section \<open>Handlers that publish\<close>

lemma handle_spawn_publishes:
  assumes "ac_stop_all a = None"
  obtains es x where "handle_spawn os command nm cwd env port restart watch r a
      = emit es (publish_proxy_state x)" and "ac_proxy_state x = ac_proxy_state a"
proof -
  obtain resp child pm where run: "spawn_process os command nm cwd env port (ac_pm a) = (resp, child, pm)"
    using prod_cases3 by blast
  let ?a = "start_child child (a\<lparr>ac_pm := pm\<rparr>)"
  show thesis
  proof (cases "\<exists>n i pid prt url. resp = RespRunOk n i pid prt url")
    case False
    then have "handle_spawn os command nm cwd env port restart watch r a
        = emit [Reply r (RResponse resp)] (publish_proxy_state ?a)"
      using assms run by (cases resp) (auto simp: handle_spawn_def reply_def Let_def)
    then show thesis by (rule that) simp
  next
    case True
    then obtain n i pid prt url where resp: "resp = RespRunOk n i pid prt url" by blast
    let ?c = "configured os n restart watch ?a"
    have "ac_proxy_state ?c = ac_proxy_state a"
      using setup_watcher_frame(3) [of os n "on_pm (find_mut n (attach_configs restart watch)) ?a"]
      by (cases "setup_watcher os n (on_pm (find_mut n (attach_configs restart watch)) ?a)")
        (auto simp: configured_def Let_def split: option.split)
    moreover from handle_spawn_configured [OF assms run [unfolded resp]] obtain v where
      "handle_spawn os command nm cwd env port restart watch r a = emit [Reply r v] (publish_proxy_state ?c)" ..
    ultimately show thesis by (rule that [rotated])
  qed
qed

lemma emit_nil [simp]: "emit [] a = a"
  by (simp add: emit_def)

lemma handle_stop_all_publishes:
  assumes "ac_stop_all a = None"
  obtains x where "handle_stop_all os r a = publish_proxy_state x" and "ac_proxy_state x = ac_proxy_state a"
proof -
  obtain a1 rest where loop: "fold stop_all_one (pm_names (ac_pm (refresh os a))) (refresh os a, []) = (a1, rest)"
    by force
  let ?x = "a1\<lparr>ac_stop_all := Some \<lparr>sab_remaining = rest, sab_replies = [r]\<rparr>\<rparr>"
  have eq: "handle_stop_all os r a = publish_proxy_state (if rest = [] then finish_stop_all ?x else ?x)"
    unfolding handle_stop_all_def assms option.case Let_def loop prod.case ..
  have "ac_proxy_state a1 = ac_proxy_state a"
    using stop_all_frame [of "pm_names (ac_pm (refresh os a))" "(refresh os a, [])"]
    unfolding loop by simp
  then show thesis by (intro that [OF eq]) simp
qed

lemma finish_teardown_publishes:
  assumes e: "find_entry (ac_pm a) n = Some (n, p)" and g: "mp_generation p = g"
    and l: "mp_life p = Stopping leader thn ws"
  obtains x where "finish_teardown os n g code a = publish_proxy_state x"
    and "ac_proxy_state x = ac_proxy_state a"
proof -
  define a1 where "a1 = on_pm (set_proc n (p\<lparr>mp_life := Exited code ManualStop None False\<rparr>)) a"
  obtain resp a2 where run: "(case thn of
      Park \<Rightarrow> (actor_error ''restart superseded by stop'', a1)
    | Respawn reason \<Rightarrow> respawn os n reason code a1) = (resp, a2)" by force
  have "ac_proxy_state a2 = ac_proxy_state a"
    using run respawn_frame(2) by (auto simp: a1_def split: after_stop.splits)
  then show thesis
    by (intro that [OF finish_teardown_run [OF e g l run [unfolded a1_def] refl]])
      (simp add: Let_def split: option.split)
qed

lemma route_proxy_port [simp]: "route (a\<lparr>ac_proxy_port := pp\<rparr>) = route a"
  by (rule route_cong) (simp add: record_at_def)

lemma keys_fold_exhausted:
  "distinct (hm_keys (pm_processes (ac_pm a))) \<Longrightarrow>
     distinct (hm_keys (pm_processes (ac_pm (fold schedule_exhausted ks a))))"
proof (induction ks arbitrary: a)
  case (Cons k ks)
  have "distinct (hm_keys (pm_processes (ac_pm (schedule_exhausted k a))))"
    using Cons.prems
    by (simp add: schedule_exhausted_def Let_def mark_failed_def find_mut_def distinct_update
        split: option.split)
  then show ?case by (simp add: Cons.IH)
qed simp

section \<open>What every step keeps of a view\<close>

locale proxy_view =
  fixes view :: "actor \<Rightarrow> bool"
  assumes view_cong: "ac_proxy_state a' = ac_proxy_state a \<Longrightarrow> route a' = route a \<Longrightarrow> view a' = view a"
    and view_keys: "view a \<Longrightarrow> distinct (hm_keys (ac_proxy_state a))"
    and view_publish_keys: "distinct (hm_keys (pm_processes (ac_pm a))) \<Longrightarrow>
      distinct (hm_keys (ac_proxy_state a)) \<Longrightarrow> view (publish_proxy_state a)"
begin

lemma view_publish:
  "pm_inv (ac_pm a) \<Longrightarrow> distinct (hm_keys (ac_proxy_state a)) \<Longrightarrow> view (publish_proxy_state a)"
  by (intro view_publish_keys) (simp_all add: pm_inv_def)

lemma view_emit [simp]: "view (emit es a) = view a"
  by (rule view_cong, simp, rule route_cong, simp)

lemma view_set_proc:
  assumes "record_at k a = Some p" and "mp_port q = mp_port p"
    and "leader_alive (mp_life q) = leader_alive (mp_life p)"
  shows "view (on_pm (set_proc k q) a) = view a"
  using assms by (intro view_cong route_set_proc) simp_all

lemma view_start_teardown:
  assumes "record_at k a = Some p"
  shows "view (start_teardown k thn w a) = view a"
proof -
  have "view (a\<lparr>ac_panicked := True\<rparr>) = view a"
    by (rule view_cong, simp, rule route_cong, simp)
  moreover have e: "find_entry (ac_pm a) k = Some (k, p)" using assms by (simp add: record_at_def)
  ultimately show ?thesis
    by (cases "mp_life p") (simp_all add: start_teardown_def view_set_proc [OF assms])
qed

text \<open>Handlers that change no route.\<close>

lemma view_auto_restart:
  assumes inv: "pm_inv (ac_pm a)" and sync: "view a" and src: "sound_source (ac_pm a) (n, g)"
  shows "view (handle_auto_restart n g a)"
proof (cases "\<exists>k p. find_entry (ac_pm a) n = Some (k, p) \<and> mp_generation p = g")
  case True
  then obtain p where e: "find_entry (ac_pm a) n = Some (n, p)"
    using sound_entry [OF inv src] by blast
  have p: "record_at n a = Some p" using find_entry_inv(1) [OF inv e] by (simp add: record_at_def)
  let ?q = "p\<lparr>mp_restart_count := mp_restart_count p + 1\<rparr>"
  have "view (start_teardown n (Respawn Auto) None (on_pm (set_proc n ?q) a))"
    using sync view_start_teardown [of n "on_pm (set_proc n ?q) a" ?q] view_set_proc [OF p, of ?q]
    by simp
  with sync e show ?thesis
    by (auto simp: handle_auto_restart_def split: life.split exit_why.split bool.split)
next
  case False
  then have "handle_auto_restart n g a = a"
    by (auto simp: handle_auto_restart_def split: option.split life.split exit_why.split bool.split)
  with sync show ?thesis by simp
qed

lemma view_watch_restart:
  assumes inv: "pm_inv (ac_pm a)" and sync: "view a" and src: "sound_source (ac_pm a) (n, g)"
  shows "view (handle_watch_restart n g a)"
proof (cases "\<exists>k p. find_entry (ac_pm a) n = Some (k, p) \<and> mp_generation p = g")
  case True
  then obtain p where e: "find_entry (ac_pm a) n = Some (n, p)"
    using sound_entry [OF inv src] by blast
  have p: "record_at n a = Some p" using find_entry_inv(1) [OF inv e] by (simp add: record_at_def)
  let ?q = "p\<lparr>mp_restart_count := 0\<rparr>"
  have "view (start_teardown n (Respawn Watch) None (on_pm (set_proc n ?q) a))"
    using sync view_start_teardown [of n "on_pm (set_proc n ?q) a" ?q] view_set_proc [OF p, of ?q]
    by simp
  with sync e show ?thesis by (simp add: handle_watch_restart_def)
next
  case False
  then have "handle_watch_restart n g a = a"
    by (auto simp: handle_watch_restart_def split: option.split)
  with sync show ?thesis by simp
qed

text \<open>Handlers that publish.\<close>

lemma view_build_status:
  assumes "pm_inv (ac_pm a)" and "view a"
  shows "view (snd (build_status os a))"
  using assms refresh_starts [OF assms(1), of os] refresh_unobserved [of os a]
  by (auto simp: build_status_def Let_def starts_def view_keys intro!: view_publish)

text \<open>The final state of a handler that publishes last and then only sends.\<close>

lemma view_published:
  assumes "h = emit es (publish_proxy_state x)" and "pm_inv (ac_pm h)"
    and "ac_proxy_state x = ac_proxy_state a" and "view a"
  shows "view h"
  using assms view_keys [OF assms(4)] by (auto intro!: view_publish)

text \<open>The periodic check.\<close>

lemma view_supervisor_line [simp]: "view (supervisor_line n m a) = view a"
  by (simp add: supervisor_line_def split: option.split)

lemma view_schedule_exhausted:
  assumes "view a" and "record_at k a = Some p"
  shows "view (schedule_exhausted k a)"
proof -
  define a1 where "a1 = (case Option.bind (pm_find (ac_pm a) k)
      (\<lambda>p. Option.bind (mp_restart_policy p) rp_max_restarts) of
      None \<Rightarrow> a
    | Some m \<Rightarrow> supervisor_line k (''[agent-procs] Max restarts ('' @ dec_word m @ '') exhausted'') a)"
  have "view a1" using assms(1) by (simp add: a1_def split: option.split)
  moreover have p: "record_at k a1 = Some p" using assms(2) by (simp add: a1_def split: option.split)
  moreover have "schedule_exhausted k a = on_pm (set_proc k (p\<lparr>mp_life := fail_life (mp_life p)\<rparr>)) a1"
    using find_mut_on_pm [OF p [unfolded record_at_def]]
    by (simp add: schedule_exhausted_def a1_def Let_def mark_failed_def [abs_def])
  moreover have "leader_alive (fail_life l) = leader_alive l" for l by (cases l) (simp_all add: fail_life_def)
  ultimately show ?thesis by (simp add: view_set_proc)
qed

lemma view_schedule_restart:
  assumes "view a" and p: "record_at k a = Some p"
  shows "view (schedule_restart k a)"
proof -
  have e: "find_entry (ac_pm a) k = Some (k, p)" using p by (simp add: record_at_def)
  show ?thesis
    using assms(1) view_set_proc [OF p]
    by (cases "mp_life p") (simp_all add: schedule_restart_def e)
qed

lemma view_fold:
  assumes "distinct ks" and "\<forall>k \<in> set ks. \<exists>p. record_at k a = Some p" and "view a"
    and rec: "\<And>i j a q. record_at j a = Some q \<Longrightarrow> record_at i (f j a) = (if i = j then Some (h q) else record_at i a)"
    and step: "\<And>k a p. view a \<Longrightarrow> record_at k a = Some p \<Longrightarrow> view (f k a)"
  shows "view (fold f ks a)"
proof (rule fold_distinct_inv [where G = view and Q = "\<lambda>k a. \<exists>p. record_at k a = Some p"])
  show "\<exists>p. record_at k' (f k s) = Some p"
    if "\<exists>p. record_at k s = Some p" "k' \<noteq> k" "\<exists>p. record_at k' s = Some p" for k k' s
    using that rec by auto
qed (use assms in auto)

lemma view_tick:
  assumes inv: "pm_inv (ac_pm a)" and sync: "view a" and fine: "\<not> ac_panicked a"
  shows "view (tick os a)"
proof -
  define a1 where
    "a1 = (if fst (refresh_exit_states os (ac_pm a)) then publish_proxy_state (refresh os a) else refresh os a)"
  have inv_r: "pm_inv (ac_pm (refresh os a))" using refresh_starts [OF inv] by (simp add: starts_def)
  then have inv1: "pm_inv (ac_pm a1)" by (simp add: a1_def)
  have sync1: "view a1"
    using sync view_publish [OF inv_r] refresh_unobserved [of os a]
    view_keys [OF sync]
    by (auto simp: a1_def)
  have "view (schedule_restarts a1)"
  proof (cases "ac_stop_all a1")
    case (Some b)
    with sync1 show ?thesis by (simp add: schedule_restarts_def)
  next
    case None
    obtain restartable exhausted where
      c: "classify_restart_candidates (ac_pm a1) = (restartable, exhausted)" by force
    note names = classify_names [OF inv1 c]
    define a2 where "a2 = fold schedule_exhausted exhausted a1"
    define a3 where "a3 = (if exhausted = [] then a2 else publish_proxy_state a2)"
    have there: "\<forall>k \<in> set exhausted. \<exists>p. record_at k a1 = Some p"
      "\<forall>k \<in> set restartable. \<exists>p. record_at k a1 = Some p"
      using names(4,5) by (auto simp: record_at_def)
    have "view a2"
      unfolding a2_def
      by (rule view_fold [where h = "\<lambda>q. q\<lparr>mp_life := fail_life (mp_life q)\<rparr>", OF names(2) there(1) sync1
            record_at_schedule_exhausted view_schedule_exhausted])
    have "record_at k a2 = record_at k a1" if "k \<in> set restartable" for k
      unfolding a2_def
      using names(3) that
      by (intro record_at_fold [where h = "\<lambda>q. q\<lparr>mp_life := fail_life (mp_life q)\<rparr>", OF names(2) _ there(1)
            record_at_schedule_exhausted]) auto
    then have there3: "\<forall>k \<in> set restartable. \<exists>p. record_at k a3 = Some p"
      using there(2) by (auto simp: a3_def)
    have "distinct (hm_keys (pm_processes (ac_pm a2)))"
      unfolding a2_def using inv1 by (intro keys_fold_exhausted) (simp add: pm_inv_def)
    with \<open>view a2\<close> have "view a3"
      by (auto simp: a3_def view_keys intro: view_publish_keys)
    have "view (fold schedule_restart restartable a3)"
      by (rule view_fold [where h = "\<lambda>q. q\<lparr>mp_life := arm_timer (mp_life q)\<rparr>", OF names(1) there3 \<open>view a3\<close>
            record_at_schedule_restart view_schedule_restart])
    with None c show ?thesis
      by (cases "exhausted = []") (simp_all add: schedule_restarts_def a2_def a3_def Let_def)
  qed
  with fine show ?thesis by (simp add: tick_def a1_def Let_def)
qed

text \<open>Every handler that publishes leaves the map in agreement.\<close>

lemma view_spawn:
  assumes "view a" and "pm_inv (ac_pm (handle_spawn os command nm cwd env port restart watch r a))"
  shows "view (handle_spawn os command nm cwd env port restart watch r a)"
proof (cases "ac_stop_all a")
  case None
  then obtain es x where x: "handle_spawn os command nm cwd env port restart watch r a
      = emit es (publish_proxy_state x)" "ac_proxy_state x = ac_proxy_state a"
    by (rule handle_spawn_publishes)
  show ?thesis by (rule view_published [OF x(1) assms(2) x(2) assms(1)])
qed (use assms(1) in \<open>simp add: handle_spawn_def reply_def\<close>)

lemma view_stop_all:
  assumes "view a" and "pm_inv (ac_pm (handle_stop_all os r a))"
  shows "view (handle_stop_all os r a)"
proof (cases "ac_stop_all a")
  case None
  then obtain x where x: "handle_stop_all os r a = publish_proxy_state x" "ac_proxy_state x = ac_proxy_state a"
    by (rule handle_stop_all_publishes)
  show ?thesis by (rule view_published [where es = "[]", OF _ assms(2) x(2) assms(1)]) (simp add: x(1))
next
  case (Some b)
  have "view (a\<lparr>ac_stop_all := x\<rparr>) = view a" for x
    by (rule view_cong, simp, rule route_cong, simp)
  with Some assms(1) show ?thesis by (simp add: handle_stop_all_def)
qed

lemma view_status:
  "pm_inv (ac_pm a) \<Longrightarrow> view a \<Longrightarrow> view (handle_status os r a)"
  using view_build_status [of a os] by (cases "build_status os a") (simp add: handle_status_def reply_def)

lemma view_is_process_exited:
  assumes "view a" and "pm_inv (ac_pm (handle_is_process_exited os target r a))"
  shows "view (handle_is_process_exited os target r a)"
proof (rule view_published [OF _ assms(2) _ assms(1)])
  have "a\<lparr>ac_pm := snd (is_process_exited os target (ac_pm a))\<rparr> = refresh os a"
    by (simp add: is_process_exited_def refresh_def on_pm_def Let_def)
  then show "handle_is_process_exited os target r a
      = emit [Reply r (RExited (fst (is_process_exited os target (ac_pm a))))]
          (publish_proxy_state (refresh os a))"
    by (cases "is_process_exited os target (ac_pm a)") (simp add: handle_is_process_exited_def)
qed simp

lemma view_enable_proxy:
  assumes "view a" and "pm_inv (ac_pm (handle_enable_proxy port r a))"
  shows "view (handle_enable_proxy port r a)"
proof (cases "ac_proxy_port a")
  case None
  then have "handle_enable_proxy port r a = emit [Reply r (RPort None)]
      (publish_proxy_state (on_pm pm_enable_proxy (a\<lparr>ac_proxy_port := Some port\<rparr>)))"
    by (simp add: handle_enable_proxy_def)
  then show ?thesis by (rule view_published [OF _ assms(2) _ assms(1)]) simp
qed (use assms(1) in \<open>simp add: handle_enable_proxy_def\<close>)

lemma view_finish_teardown:
  assumes inv: "pm_inv (ac_pm a)" and task: "(n, g) \<in># pm_tasks (ac_pm a)" and sync: "view a"
    and inv': "pm_inv (ac_pm (finish_teardown os n g code a))"
  shows "view (finish_teardown os n g code a)"
proof -
  from task obtain p leader thn ws where "(n, p) \<in> set (pm_processes (ac_pm a))" and g: "mp_generation p = g"
    and l: "mp_life p = Stopping leader thn ws" by (rule pm_tasks_entry)
  then have e: "find_entry (ac_pm a) n = Some (n, p)" by (intro find_entry_key pm_inv_map_of [OF inv])
  obtain x where x: "finish_teardown os n g code a = publish_proxy_state x"
    "ac_proxy_state x = ac_proxy_state a" by (rule finish_teardown_publishes [OF e g l])
  show ?thesis by (rule view_published [where es = "[]", OF _ inv' x(2) sync]) (simp add: x(1))
qed

lemmas view_handlers = view_spawn view_stop_all view_status
  view_is_process_exited view_enable_proxy view_auto_restart view_watch_restart
  view_finish_teardown

lemma view_stop_restart:
  assumes "pm_inv (ac_pm a)" and "view a" and "view (refresh os a)"
  shows "view (handle_stop os target r a)" "view (handle_restart os target r a)"
  using view_cong [of "handle_stop os target r a" "refresh os a"]
    view_cong [of "handle_restart os target r a" "refresh os a"] view_cong [of "handle_restart os target r a" a]
    stop_routes [OF assms(1), of os target r] restart_routes [OF assms(1), of os target r] assms(2,3)
  by auto

lemma view_deliver:
  assumes inv: "daemon_inv s" and c: "cmd_tasks cmd \<subseteq># dm_tasks s" "cmd_sources cmd \<subseteq> dm_sources s"
    and sync: "view (dm_actor s)"
    and seen: "\<And>target r. cmd = CmdStop target r \<or> cmd = CmdRestart target r \<Longrightarrow> view (refresh os (dm_actor s))"
  shows "view (handle_command os cmd (dm_actor s))"
proof -
  note facts = daemon_inv_facts [OF inv]
  have "daemon_inv (deliver os cmd s)"
    using inv c unfolding daemon_inv_def by (rule daemon_inv_deliver)
  from daemon_inv_facts(1) [OF this] have "pm_inv (ac_pm (handle_command os cmd (dm_actor s)))"
    by (simp add: deliver_def absorb_def)
  then show ?thesis
    using facts(1,2,8) c sync seen
    by (cases cmd) (simp_all add: handle_command_def view_handlers view_stop_restart facts(3))
qed

lemma view_step:
  assumes inv: "daemon_inv s" and step: "daemon_step s t" and sync: "view (dm_actor s)"
    and seen: "\<And>os target r. t = deliver os (CmdStop target r) s \<or> t = deliver os (CmdRestart target r) s \<Longrightarrow>
      view (refresh os (dm_actor s))"
  shows "view (dm_actor t)"
proof -
  note facts = daemon_inv_facts [OF inv]
  have clear: "view (a\<lparr>ac_outbox := []\<rparr>) = view a" for a
    by (rule view_cong, simp, rule route_cong, simp add: record_at_def)
  from step show ?thesis
  proof (cases rule: daemon_step_cases)
    case (command cmd os)
    from view_deliver [OF inv command(2,3) sync, of os] seen [of os] command(1)
    have "view (handle_command os cmd (dm_actor s))" by blast
    with command(1) show ?thesis by (simp add: deliver_def absorb_def clear)
  next
    case (exit_refresh os)
    with view_tick [OF facts(1) sync facts(2), of os] show ?thesis
      by (simp add: absorb_def clear)
  qed
qed

end

section \<open>The two views\<close>

interpretation exact: proxy_view in_sync
  by unfold_locales (rule in_sync_cong; assumption | rule in_sync_publish_keys; assumption | simp add: in_sync_def)+

interpretation covered: proxy_view covers_live
  by unfold_locales (simp_all add: in_sync_covers in_sync_publish_keys, simp_all add: covers_live_def)

text \<open>That the live processes are covered is an invariant of the daemon, relative to the daemon's own.\<close>

lemma covers_refresh: "covers_live a \<Longrightarrow> covers_live (refresh os a)"
  by (auto simp: covers_live_def dest: route_refresh)

interpretation routed: invariant_system daemon_start daemon_step "\<lambda>s. daemon_inv s \<and> covers_live (dm_actor s)"
proof
  show "daemon_inv s \<and> covers_live (dm_actor s)" if "daemon_start s" for s
    using that daemon.inv_start [OF that]
    by (auto simp: daemon_start_def covers_live_def daemon_new_def actor_new_def route_def record_at_def pm_new_def)
  show "daemon_inv t \<and> covers_live (dm_actor t)"
    if "daemon_inv s \<and> covers_live (dm_actor s)" "daemon_step s t" for s t
    using that daemon.inv_step covered.view_step covers_refresh by blast
qed

lemma silent_command:
  assumes "daemon_inv s" and "t = deliver os (CmdStop target r) s \<or> t = deliver os (CmdRestart target r) s"
  shows "ac_proxy_state (dm_actor t) = ac_proxy_state (dm_actor s) \<and>
    (route (dm_actor t) = route (refresh os (dm_actor s)) \<or> route (dm_actor t) = route (dm_actor s))"
proof -
  note facts = daemon_inv_facts [OF assms(1)]
  have clear: "route (a\<lparr>ac_outbox := []\<rparr>) = route a" for a by (rule route_cong) (simp add: record_at_def)
  show ?thesis
    using assms(2) facts(2) stop_routes [OF facts(1), of os target r] restart_routes [OF facts(1), of os target r]
    by (auto simp: deliver_def absorb_def clear handle_command_def)
qed

text \<open>C14: the proxy's routes follow the table, over every step of the daemon. In every state after a
  step, each process whose leader is alive and that has a port is routed to that port. And if the
  routes agreed with the table before the step (a name is routed to a port exactly when its record's
  leader is alive and has that port), then they agree after it, with one exception: a stop or a
  restart that is the first to see some process's exit publishes nothing, so the routes are still
  those of before, while the table has lost exactly the routes of the exits it saw.\<close>

theorem proxy_routes_in_sync:
  assumes "reaches daemon_step (daemon_new session) s" and "daemon_step s t"
  shows "(\<forall>k p port. hm_get (pm_processes (ac_pm (dm_actor t))) k = Some p \<and> leader_alive (mp_life p) \<and>
        mp_port p = Some port \<longrightarrow> hm_get (ac_proxy_state (dm_actor t)) k = Some port) \<and>
    (in_sync (dm_actor s) \<longrightarrow> in_sync (dm_actor t) \<or>
      (\<exists>os target r. (t = deliver os (CmdStop target r) s \<or> t = deliver os (CmdRestart target r) s) \<and>
        fst (refresh_exit_states os (ac_pm (dm_actor s))) \<and>
        ac_proxy_state (dm_actor t) = ac_proxy_state (dm_actor s) \<and>
        route (dm_actor t) = route (refresh os (dm_actor s))))"
proof (intro conjI impI)
  note inv = reachable_inv [OF assms(1)]
  have "reaches daemon_step (daemon_new session) t" using assms by (rule reaches.there)
  from routed.inv_reachable [OF _ this] have "covers_live (dm_actor t)" by (auto simp: daemon_start_def)
  then show "\<forall>k p port. hm_get (pm_processes (ac_pm (dm_actor t))) k = Some p \<and> leader_alive (mp_life p) \<and>
        mp_port p = Some port \<longrightarrow> hm_get (ac_proxy_state (dm_actor t)) k = Some port"
    by (auto simp: covers_live_def route_def record_at_def)
  assume sync: "in_sync (dm_actor s)"
  show "in_sync (dm_actor t) \<or>
      (\<exists>os target r. (t = deliver os (CmdStop target r) s \<or> t = deliver os (CmdRestart target r) s) \<and>
        fst (refresh_exit_states os (ac_pm (dm_actor s))) \<and>
        ac_proxy_state (dm_actor t) = ac_proxy_state (dm_actor s) \<and>
        route (dm_actor t) = route (refresh os (dm_actor s)))"
  proof (cases "\<forall>os target r. t = deliver os (CmdStop target r) s \<or> t = deliver os (CmdRestart target r) s \<longrightarrow>
      \<not> fst (refresh_exit_states os (ac_pm (dm_actor s)))")
    case True
    then have "in_sync (dm_actor t)"
      by (intro exact.view_step [OF inv assms(2) sync]) (auto simp: refresh_unobserved sync)
    then show ?thesis by simp
  next
    case False
    then obtain os target r where t: "t = deliver os (CmdStop target r) s \<or> t = deliver os (CmdRestart target r) s"
      and seen: "fst (refresh_exit_states os (ac_pm (dm_actor s)))" by blast
    from silent_command [OF inv t] in_sync_cong [of "dm_actor t" "dm_actor s"] sync
    show ?thesis using t seen by blast
  qed
qed

theorem proxy_routes_in_sync_witness:
  "in_sync (dm_actor (absorb {#} {#} (tick example_os (dm_actor example_spawned)) example_spawned))"
proof -
  let ?t = "absorb {#} {#} (tick example_os (dm_actor example_spawned)) example_spawned"
  have "in_sync (dm_actor example_spawned)"
    by (simp add: example_spawned_eq example_actor_def example_web_def in_sync_def route_def
        record_at_def fun_eq_iff)
  moreover have "?t \<noteq> deliver os (CmdStop target r) example_spawned"
    "?t \<noteq> deliver os (CmdRestart target r) example_spawned" for os target r
    by (auto simp: absorb_def deliver_def dest!: arg_cong [where f = dm_asked])
  ultimately show ?thesis
    using proxy_routes_in_sync [OF example_spawned_reachable daemon_step.exit_refresh] by blast
qed

text \<open>The exception is real. A stop (even of a name that does not exist) that first sees that another
  process has exited records the exit and leaves the route to it in place, and the periodic check
  does not repair it, because it publishes only when it sees an exit itself.\<close>

definition routed_actor :: actor where
  "routed_actor = (example_actor (Running example_inc) None)
     \<lparr>ac_proxy_state := [(''web'', 80)],
      ac_pm := (ac_pm (example_actor (Running example_inc) None))
        \<lparr>pm_processes := [(''web'', (example_web (Running example_inc))\<lparr>mp_port := Some 80\<rparr>)]\<rparr>\<rparr>"

definition exited_os :: os_env where
  "exited_os = example_os\<lparr>os_waitid := (\<lambda>pgid. WaitInfo pgid 1 True)\<rparr>"

theorem stop_leaves_stale_route:
  "in_sync routed_actor \<and>
   (let a = tick exited_os (handle_command exited_os (CmdStop ''ghost'' 2) routed_actor)
    in hm_get (ac_proxy_state a) ''web'' = Some 80 \<and> route a ''web'' = None)"
proof
  show "in_sync routed_actor"
    by (simp add: routed_actor_def example_actor_def example_web_def in_sync_def route_def
        record_at_def fun_eq_iff)
  show "let a = tick exited_os (handle_command exited_os (CmdStop ''ghost'' 2) routed_actor)
    in hm_get (ac_proxy_state a) ''web'' = Some 80 \<and> route a ''web'' = None"
    by code_simp
qed

end
