(* ===== verification/Proxy_Server.thy ===== *)
theory Proxy_Server
  imports Proxy_Sync
begin

text \<open>
  \<open>src/daemon/proxy.rs\<close>: the process a Host header names, the request sent on to its port, the error
  pages and the status page. The HTTP client is the argument \<open>send\<close>, the answer of the backend or
  the text of the error. A message body is a value of any type; a text page is given by its text.
  A connection is a sequence of requests (accepted in \<open>Daemon_Lifecycle\<close>), each handled by
  \<open>handle_proxy_request\<close> against the routes published at that moment.
\<close>

section \<open>Messages\<close>

record 'b http_request =
  rq_method :: string
  rq_uri :: string
  rq_headers :: "(string \<times> string) list"
  rq_body :: 'b

record 'b http_response =
  rs_status :: nat
  rs_headers :: "(string \<times> string) list"
  rs_body :: 'b

datatype 'b proxy_reply = Relayed "'b http_response" | TextPage nat "(string \<times> string) list" string

section \<open>The Host header\<close>

text \<open>\<open>HeaderValue::to_str\<close>: the value if all of it is visible ASCII or a tab.\<close>

definition visible_ascii :: "char \<Rightarrow> bool" where
  "visible_ascii c \<longleftrightarrow> (32 \<le> (of_char c :: nat) \<and> (of_char c :: nat) < 127) \<or> (of_char c :: nat) = 9"

definition header_str :: "string \<Rightarrow> string option" where
  "header_str v = (if list_all visible_ascii v then Some v else None)"

definition request_host :: "'b http_request \<Rightarrow> string" where
  "request_host req =
     (case Option.bind (map_of (rq_headers req) ''host'') header_str of None \<Rightarrow> [] | Some h \<Rightarrow> h)"

definition extract_subdomain :: "string \<Rightarrow> string option" where
  "extract_subdomain host =
     (let hostname = hd (str_split CHR '':'' host);
          parts = str_split CHR ''.'' hostname
      in if length parts < 2 then None
         else
           (let second_to_last = parts ! (length parts - 2)
            in if last parts = ''localhost'' \<and> length parts \<ge> 2 then Some second_to_last else None))"

section \<open>Pages\<close>

definition status_line :: "u16 \<Rightarrow> process_info \<Rightarrow> string" where
  "status_line proxy_port p =
     (let state_str = process_state_display (pi_state p)
      in (case pi_port p of
            Some port \<Rightarrow>
              ''  http://'' @ pi_name p @ ''.localhost:'' @ dec_word proxy_port @ '' -> 127.0.0.1:''
                @ dec_word port @ '' ['' @ state_str @ '']'' @ ''\<newline>''
          | None \<Rightarrow> ''  '' @ pi_name p @ '' (no port) ['' @ state_str @ '']'' @ ''\<newline>''))"

definition status_page :: "response \<Rightarrow> u16 \<Rightarrow> 'b proxy_reply" where
  "status_page resp proxy_port =
     TextPage 200 [(''content-type'', ''text/plain'')]
       (''agent-procs proxy on port '' @ dec_word proxy_port @ ''\<newline>\<newline>''
        @ (case resp of
             RespStatus processes \<Rightarrow>
               (if processes = [] then ''No processes running.'' @ ''\<newline>''
                else ''Routes:'' @ ''\<newline>'' @ concat (map (status_line proxy_port) processes))
           | _ \<Rightarrow> []))"

definition no_route_page :: "string \<Rightarrow> u16 \<Rightarrow> 'b proxy_reply" where
  "no_route_page name proxy_port =
     TextPage 502 []
       (''502 Bad Gateway: no running process named '' @ [CHR 0x27] @ name @ [CHR 0x27]
        @ '' with a port. Visit http://localhost:'' @ dec_word proxy_port @ '' to see available routes.'')"

definition backend_error_page :: "string \<Rightarrow> u16 \<Rightarrow> string \<Rightarrow> 'b proxy_reply" where
  "backend_error_page name port e =
     TextPage 502 []
       (''502 Bad Gateway: failed to connect to backend '' @ [CHR 0x27] @ name @ [CHR 0x27]
        @ '' on port '' @ dec_word port @ '': '' @ e)"

section \<open>Forwarding\<close>

text \<open>\<open>path_and_query\<close> is what the URI parser finds in the request's URI.\<close>

definition forwarded ::
  "(string \<Rightarrow> string option) \<Rightarrow> u16 \<Rightarrow> 'b http_request \<Rightarrow> 'b http_request" where
  "forwarded path_and_query port req =
     \<lparr>rq_method = rq_method req,
      rq_uri = ''http://127.0.0.1:'' @ dec_word port
        @ (case path_and_query (rq_uri req) of None \<Rightarrow> ''/'' | Some pq \<Rightarrow> pq),
      rq_headers = map (\<lambda>(key, val). if key = ''host'' then (key, ''127.0.0.1:'' @ dec_word port) else (key, val))
        (rq_headers req),
      rq_body = rq_body req\<rparr>"

definition handle_proxy_request ::
  "(string \<Rightarrow> string option) \<Rightarrow> ('b http_request \<Rightarrow> string + 'b http_response) \<Rightarrow> response
     \<Rightarrow> (string, u16) hashmap \<Rightarrow> u16 \<Rightarrow> 'b http_request \<Rightarrow> 'b proxy_reply" where
  "handle_proxy_request path_and_query send snapshot port_map proxy_port req =
     (case extract_subdomain (request_host req) of
        None \<Rightarrow> status_page snapshot proxy_port
      | Some process_name \<Rightarrow>
          (case hm_get port_map process_name of
             None \<Rightarrow> no_route_page process_name proxy_port
           | Some backend_port \<Rightarrow>
               (case send (forwarded path_and_query backend_port req) of
                  Inr resp \<Rightarrow> Relayed resp
                | Inl e \<Rightarrow> backend_error_page process_name backend_port e)))"

section \<open>Names in hosts\<close>

lemma dns_char_plain: "is_dns_char c \<Longrightarrow> c \<noteq> CHR ''.'' \<and> c \<noteq> CHR '':''"
  by (auto simp: is_dns_char_def)

lemma dns_label_plain:
  "is_valid_dns_label n \<Longrightarrow> CHR ''.'' \<notin> set n \<and> CHR '':'' \<notin> set n \<and> n \<noteq> []"
  using dns_char_plain by (auto simp: is_valid_dns_label_def list_all_iff split: if_splits)

lemma extract_subdomain_host:
  assumes "CHR ''.'' \<notin> set n" and "CHR '':'' \<notin> set n" and "port = [] \<or> hd port = CHR '':''"
  shows "extract_subdomain (n @ ''.localhost'' @ port) = Some n"
proof -
  have no_colon: "CHR '':'' \<notin> set (n @ ''.localhost'')" using assms(2) by simp
  have "hd (str_split CHR '':'' (n @ ''.localhost'' @ port)) = n @ ''.localhost''"
  proof (cases port)
    case Nil
    then show ?thesis using str_split_no_sep [OF no_colon] by simp
  next
    case (Cons c cs)
    then show ?thesis using str_split_append [OF no_colon, of cs] assms(3) by simp
  qed
  moreover have "str_split CHR ''.'' (n @ ''.localhost'') = [n, ''localhost'']"
    using str_split_append [OF assms(1), of "''localhost''"] by (simp add: str_split_no_sep)
  ultimately show ?thesis by (simp add: extract_subdomain_def)
qed

lemma extract_subdomain_plain:
  "extract_subdomain host = Some n \<Longrightarrow> CHR ''.'' \<notin> set n \<and> CHR '':'' \<notin> set n"
proof -
  assume ex: "extract_subdomain host = Some n"
  define hostname where "hostname = hd (str_split CHR '':'' host)"
  have "hostname \<in> set (str_split CHR '':'' host)" by (simp add: hostname_def)
  then have colon: "CHR '':'' \<notin> set hostname" by (rule str_split_fields)
  have "n \<in> set (str_split CHR ''.'' hostname)"
    using ex by (auto simp: extract_subdomain_def hostname_def Let_def split: if_splits)
  moreover have "set f \<subseteq> set s" if "f \<in> set (str_split sep s)" for f sep and s :: string
    using that by (induction s arbitrary: f) (fastforce split: if_splits list.splits)+
  ultimately show ?thesis using str_split_fields colon by blast
qed

section \<open>Properties\<close>

text \<open>C25: the URL a process is given leads back to it. For every name the daemon accepts under the
  proxy, the proxy URL is \<open>http://\<close> and a host from which the proxy extracts that name.\<close>

theorem proxy_url_roundtrip:
  assumes "is_valid_dns_label n"
  shows "\<exists>host. process_url n port (Some proxy_port) = ''http://'' @ host \<and> extract_subdomain host = Some n"
proof (intro exI conjI)
  show "process_url n port (Some proxy_port) = ''http://'' @ (n @ ''.localhost'' @ '':'' @ dec_word proxy_port)"
    by (simp add: process_url_def)
  show "extract_subdomain (n @ ''.localhost'' @ '':'' @ dec_word proxy_port) = Some n"
    using dns_label_plain [OF assms] by (intro extract_subdomain_host) simp_all
qed

theorem proxy_url_roundtrip_witness:
  "\<exists>host. process_url ''api-2'' 3000 (Some 9090) = ''http://'' @ host \<and> extract_subdomain host = Some ''api-2''"
proof (rule proxy_url_roundtrip)
  show "is_valid_dns_label ''api-2''" by code_simp
qed

text \<open>C26: the proxy forwards to live processes only. When its routes agree with the process table, a
  request whose host names a process is sent on if and only if that process's leader is alive and
  has a port, to that port on the loopback address, with the method, the body and every other header
  unchanged and in order; the backend's answer is relayed, and everything else is a 502 page.\<close>

theorem proxy_forwards_to_live:
  assumes "in_sync a" and "extract_subdomain (request_host req) = Some n"
  shows "case record_at n a of
      Some p \<Rightarrow>
        (case (leader_alive (mp_life p), mp_port p) of
           (True, Some port) \<Rightarrow>
             (let fwd = forwarded pq port req
              in rq_method fwd = rq_method req \<and> rq_body fwd = rq_body req \<and>
                 filter (\<lambda>h. fst h \<noteq> ''host'') (rq_headers fwd) = filter (\<lambda>h. fst h \<noteq> ''host'') (rq_headers req) \<and>
                 list_all (\<lambda>h. fst h = ''host'' \<longrightarrow> snd h = ''127.0.0.1:'' @ dec_word port) (rq_headers fwd) \<and>
                 handle_proxy_request pq send snapshot (ac_proxy_state a) proxy_port req =
                   (case send fwd of Inr resp \<Rightarrow> Relayed resp | Inl e \<Rightarrow> backend_error_page n port e))
         | _ \<Rightarrow> handle_proxy_request pq send snapshot (ac_proxy_state a) proxy_port req = no_route_page n proxy_port)
    | None \<Rightarrow> handle_proxy_request pq send snapshot (ac_proxy_state a) proxy_port req = no_route_page n proxy_port"
proof -
  have get: "hm_get (ac_proxy_state a) n = route a n" using assms(1) by (simp add: in_sync_def)
  have others: "filter (\<lambda>h. fst h \<noteq> ''host'') (map (\<lambda>(key, val). if key = ''host'' then (key, h) else (key, val)) hs)
      = filter (\<lambda>h. fst h \<noteq> ''host'') hs" for h and hs :: "(string \<times> string) list"
    by (induction hs) (auto split: if_splits)
  show ?thesis
    by (auto simp: handle_proxy_request_def assms(2) get route_def forwarded_def others list_all_iff Let_def
        split: option.split bool.split)
qed

theorem proxy_forwards_to_live_witness:
  "handle_proxy_request Some (\<lambda>req. Inr \<lparr>rs_status = 200, rs_headers = [], rs_body = rq_uri req\<rparr>) (RespStatus [])
     (ac_proxy_state routed_actor) 9090
     \<lparr>rq_method = ''GET'', rq_uri = ''/x'', rq_headers = [(''host'', ''web.localhost:9090'')], rq_body = []\<rparr>
   = Relayed \<lparr>rs_status = 200, rs_headers = [], rs_body = ''http://127.0.0.1:'' @ dec_word (80 :: u16) @ ''/x''\<rparr>"
proof -
  have "in_sync routed_actor"
    by (simp add: routed_actor_def example_actor_def example_web_def in_sync_def route_def
        record_at_def fun_eq_iff)
  moreover have "extract_subdomain (request_host
      \<lparr>rq_method = ''GET'', rq_uri = ''/x'', rq_headers = [(''host'', ''web.localhost:9090'')], rq_body = [] :: string\<rparr>)
    = Some ''web''"
    by code_simp
  ultimately show ?thesis
    using proxy_forwards_to_live [of routed_actor _ "''web''" Some
        "\<lambda>req. Inr \<lparr>rs_status = 200, rs_headers = [], rs_body = rq_uri req\<rparr>" "RespStatus []" 9090]
    by (simp add: record_at_def routed_actor_def example_actor_def example_web_def
        forwarded_def Let_def)
qed

end
