(* ===== verification/Server.thy ===== *)
theory Server
  imports Actor Log_Reading
begin

text \<open>
  \<open>src/daemon/server.rs\<close> and \<open>src/daemon/wait_engine.rs\<close>, and \<open>PmHandle\<close> of \<open>src/daemon/actor.rs\<close>
  through which they reach the actor: the connection loop, the requests, waiting for output and
  following logs. What comes from outside is an argument: the actor's answers, the file system, the
  regular expression engine, the JSON parser, and the events of a wait or a follow in the order the
  task sees them.
\<close>

section \<open>The actor's handle\<close>

text \<open>\<open>ask\<close> sends a command and gives the actor's answer, \<open>None\<close> when the actor has stopped.\<close>

type_synonym ask = "(reply_id \<Rightarrow> pm_command) \<Rightarrow> reply_value option"

definition ask_response :: "ask \<Rightarrow> (reply_id \<Rightarrow> pm_command) \<Rightarrow> response" where
  "ask_response ask cmd =
     (case ask cmd of Some (RResponse resp) \<Rightarrow> resp | _ \<Rightarrow> actor_error ''actor stopped'')"

definition spawn_process_supervised ::
  "ask \<Rightarrow> string \<Rightarrow> string option \<Rightarrow> string option \<Rightarrow> (string, string) hashmap option \<Rightarrow> u16 option
     \<Rightarrow> restart_policy option \<Rightarrow> watch_config option \<Rightarrow> response" where
  "spawn_process_supervised ask command name cwd env port restart watch =
     ask_response ask (CmdSpawn command name cwd env port restart watch)"

definition handle_spawn_process ::
  "ask \<Rightarrow> string \<Rightarrow> string option \<Rightarrow> string option \<Rightarrow> (string, string) hashmap option \<Rightarrow> u16 option \<Rightarrow> response" where
  "handle_spawn_process ask command name cwd env port =
     spawn_process_supervised ask command name cwd env port None None"

definition handle_stop_process :: "ask \<Rightarrow> string \<Rightarrow> response" where
  "handle_stop_process ask target = ask_response ask (CmdStop target)"

definition handle_stop_all_processes :: "ask \<Rightarrow> response" where
  "handle_stop_all_processes ask = ask_response ask CmdStopAll"

definition handle_restart_process :: "ask \<Rightarrow> string \<Rightarrow> response" where
  "handle_restart_process ask target = ask_response ask (CmdRestart target)"

definition handle_status_request :: "ask \<Rightarrow> response" where
  "handle_status_request ask = ask_response ask CmdStatus"

definition handle_status_snapshot :: "ask \<Rightarrow> response" where
  "handle_status_snapshot ask = ask_response ask CmdStatusSnapshot"

definition handle_has_process :: "ask \<Rightarrow> string \<Rightarrow> bool" where
  "handle_has_process ask target =
     (case ask (CmdHasProcess target) of Some (RBool b) \<Rightarrow> b | _ \<Rightarrow> False)"

definition handle_session_name :: "ask \<Rightarrow> string" where
  "handle_session_name ask = (case ask CmdSessionName of Some (RString s) \<Rightarrow> s | _ \<Rightarrow> [])"

definition handle_process_exited :: "ask \<Rightarrow> string \<Rightarrow> i32 option option" where
  "handle_process_exited ask target =
     (case ask (CmdIsProcessExited target) of Some (RExited e) \<Rightarrow> e | _ \<Rightarrow> None)"

definition handle_enable_proxy_port :: "ask \<Rightarrow> u16 \<Rightarrow> u16 option" where
  "handle_enable_proxy_port ask port =
     (case ask (CmdEnableProxy port) of Some (RPort p) \<Rightarrow> p | _ \<Rightarrow> None)"

section \<open>Waiting for output\<close>

text \<open>What the wait loop sees: a line, a lag, the channel closing or a poll (with what
  \<open>is_process_exited\<close> answers then), and the timeout.\<close>

datatype wait_event =
    WaitLine output_line
  | WaitLagged
  | WaitClosed "i32 option option"
  | WaitPoll "i32 option option"
  | WaitTimedOut

type_synonym regex = "string \<Rightarrow> bool"

definition line_matches :: "regex option \<Rightarrow> string \<Rightarrow> string \<Rightarrow> bool" where
  "line_matches compiled pat line = (case compiled of Some re \<Rightarrow> re line | None \<Rightarrow> str_contains pat line)"

text \<open>\<open>None\<close>: still waiting when the events end.\<close>

fun wait_loop ::
  "string \<Rightarrow> string option \<Rightarrow> regex option \<Rightarrow> bool \<Rightarrow> wait_event list \<Rightarrow> response option" where
  "wait_loop target pattern compiled wait_exit [] = None"
| "wait_loop target pattern compiled wait_exit (WaitLine (process, stream, line) # es) =
     (if process \<noteq> target then wait_loop target pattern compiled wait_exit es
      else (case pattern of
              Some pat \<Rightarrow>
                if line_matches compiled pat line then Some (RespWaitMatch line)
                else wait_loop target pattern compiled wait_exit es
            | None \<Rightarrow> wait_loop target pattern compiled wait_exit es))"
| "wait_loop target pattern compiled wait_exit (WaitLagged # es) =
     wait_loop target pattern compiled wait_exit es"
| "wait_loop target pattern compiled wait_exit (WaitClosed exited # es) =
     (case (wait_exit, exited) of
        (True, Some code) \<Rightarrow> Some (RespWaitExited code)
      | _ \<Rightarrow> Some (RespError General ''output channel closed''))"
| "wait_loop target pattern compiled wait_exit (WaitPoll exited # es) =
     (case (wait_exit, exited) of
        (True, Some code) \<Rightarrow> Some (RespWaitExited code)
      | _ \<Rightarrow> wait_loop target pattern compiled wait_exit es)"
| "wait_loop target pattern compiled wait_exit (WaitTimedOut # es) = Some RespWaitTimeout"

definition wait_for ::
  "(string \<Rightarrow> string + regex) \<Rightarrow> string \<Rightarrow> string option \<Rightarrow> bool \<Rightarrow> bool \<Rightarrow> i32 option option
     \<Rightarrow> wait_event list \<Rightarrow> response option" where
  "wait_for regex_new target pattern use_regex wait_exit exited es =
     (case (if use_regex then (case pattern of
                                 Some p \<Rightarrow> (case regex_new p of Inr re \<Rightarrow> Inr (Some re) | Inl e \<Rightarrow> Inl e)
                               | None \<Rightarrow> Inr None)
            else Inr None) of
        Inl e \<Rightarrow> Some (RespError General (''invalid regex: '' @ e))
      | Inr compiled \<Rightarrow>
          (case (wait_exit, exited) of
             (True, Some code) \<Rightarrow> Some (RespWaitExited code)
           | _ \<Rightarrow> wait_loop target pattern compiled wait_exit es))"

section \<open>Following output\<close>

text \<open>A received line, with whether sending it on works; a lag; the channel closing; the timeout.\<close>

datatype follow_event = FollowLine output_line bool | FollowLagged | FollowClosed | FollowTimedOut

definition follow_skips :: "string option \<Rightarrow> bool \<Rightarrow> bool \<Rightarrow> output_line \<Rightarrow> bool" where
  "follow_skips target all stderr_only l =
     (case l of (process, stream, line) \<Rightarrow>
        (\<not> all \<and> (case target of Some t \<Rightarrow> process \<noteq> t | None \<Rightarrow> False)) \<or>
        (stderr_only \<and> stream \<noteq> Stderr) \<or>
        (\<not> stderr_only \<and> (\<not> all \<or> target \<noteq> None) \<and> stream \<noteq> Stdout))"

text \<open>The lines sent and whether the loop ended (otherwise it still runs when the events end).\<close>

fun follow_loop ::
  "string option \<Rightarrow> bool \<Rightarrow> bool \<Rightarrow> nat option \<Rightarrow> nat \<Rightarrow> follow_event list \<Rightarrow> output_line list \<times> bool" where
  "follow_loop target all stderr_only max_lines nr [] = ([], False)"
| "follow_loop target all stderr_only max_lines nr (FollowLine l sent # es) =
     (if follow_skips target all stderr_only l then follow_loop target all stderr_only max_lines nr es
      else if \<not> sent then ([], True)
      else if (case max_lines of Some m \<Rightarrow> nr + 1 \<ge> m | None \<Rightarrow> False) then ([l], True)
      else (let (ls, ended) = follow_loop target all stderr_only max_lines (nr + 1) es
            in (l # ls, ended)))"
| "follow_loop target all stderr_only max_lines nr (FollowLagged # es) =
     follow_loop target all stderr_only max_lines nr es"
| "follow_loop target all stderr_only max_lines nr (FollowClosed # es) = ([], True)"
| "follow_loop target all stderr_only max_lines nr (FollowTimedOut # es) = ([], True)"

definition log_line_response :: "output_line \<Rightarrow> response" where
  "log_line_response l = (case l of (process, stream, line) \<Rightarrow> RespLogLine process stream line)"

definition handle_follow_stream ::
  "string option \<Rightarrow> bool \<Rightarrow> bool \<Rightarrow> nat option \<Rightarrow> follow_event list \<Rightarrow> response list" where
  "handle_follow_stream target all stderr_only max_lines es =
     (let (ls, ended) = follow_loop target all stderr_only max_lines 0 es
      in map log_line_response ls @ (if ended then [RespLogEnd] else []))"

section \<open>Requests\<close>

record server_env =
  sv_ask :: ask
  sv_bind :: "u16 \<Rightarrow> bool"
  sv_bind_error :: "u16 \<Rightarrow> io_error"
  sv_paths :: env_vars
  sv_fs :: fs
  sv_regex :: "string \<Rightarrow> string + regex"
  sv_wait_events :: "wait_event list"

text \<open>The search of the log for a line that is there already.\<close>

definition history_match :: "server_env \<Rightarrow> string \<Rightarrow> string \<Rightarrow> bool \<Rightarrow> string option" where
  "history_match ev target pattern regex =
     (let log_path = path_join (log_dir (sv_paths ev) (handle_session_name (sv_ask ev))) (target @ ''.stdout'')
      in (case fs_open log_path (sv_fs ev) of
            Inl _ \<Rightarrow> None
          | Inr content \<Rightarrow>
              (let compiled = (if regex then (case sv_regex ev pattern of Inr re \<Rightarrow> Some re | Inl _ \<Rightarrow> None) else None)
               in find (line_matches compiled pattern) (file_lines content))))"

definition handle_wait :: "server_env \<Rightarrow> string \<Rightarrow> string option \<Rightarrow> bool \<Rightarrow> bool \<Rightarrow> response option" where
  "handle_wait ev target until regex exit =
     (if \<not> handle_has_process (sv_ask ev) target then
        Some (RespError NotFound (''process not found: '' @ target))
      else
        (case Option.bind until (\<lambda>pattern. history_match ev target pattern regex) of
           Some line \<Rightarrow> Some (RespWaitMatch line)
         | None \<Rightarrow>
             wait_for (sv_regex ev) target until regex exit (handle_process_exited (sv_ask ev) target)
               (sv_wait_events ev)))"

text \<open>\<open>EnableProxy\<close>: the response, and the port of the proxy it starts.\<close>

definition handle_enable_proxy_request :: "server_env \<Rightarrow> u16 option \<Rightarrow> response \<times> u16 option" where
  "handle_enable_proxy_request ev proxy_port =
     (case bind_proxy_port (sv_bind ev) (sv_bind_error ev) proxy_port of
        Inl e \<Rightarrow> (RespError General (proxy_error_display e), None)
      | Inr port \<Rightarrow>
          (case handle_enable_proxy_port (sv_ask ev) port of
             Some existing \<Rightarrow>
               (RespOk (''Proxy already listening on http://localhost:'' @ dec_word existing), None)
           | None \<Rightarrow> (RespOk (''Proxy listening on http://localhost:'' @ dec_word port), Some port)))"

text \<open>\<open>None\<close> in the answer: a wait that is still waiting.\<close>

definition handle_request :: "server_env \<Rightarrow> request \<Rightarrow> response option" where
  "handle_request ev req =
     (case req of
        ReqRun command name cwd env port restart watch \<Rightarrow>
          Some (spawn_process_supervised (sv_ask ev) command name cwd env port restart watch)
      | ReqStop target \<Rightarrow> Some (handle_stop_process (sv_ask ev) target)
      | ReqStopAll \<Rightarrow> Some (handle_stop_all_processes (sv_ask ev))
      | ReqRestart target \<Rightarrow> Some (handle_restart_process (sv_ask ev) target)
      | ReqStatus \<Rightarrow> Some (handle_status_request (sv_ask ev))
      | ReqWait target until regex exit timeout_secs \<Rightarrow> handle_wait ev target until regex exit
      | ReqLogs target tail follow stderr all timeout_secs lines \<Rightarrow>
          Some (RespError General
            (if follow then ''follow requests handled in connection loop''
             else ''non-follow logs are read directly from disk by CLI''))
      | ReqShutdown \<Rightarrow>
          (let _ = handle_stop_all_processes (sv_ask ev) in Some (RespOk ''daemon shutting down''))
      | ReqEnableProxy proxy_port \<Rightarrow> Some (fst (handle_enable_proxy_request ev proxy_port))
      | ReqHello version \<Rightarrow> Some (RespHello PROTOCOL_VERSION)
      | ReqUnknown \<Rightarrow> Some (RespError General ''unknown request type''))"

section \<open>A connection\<close>

text \<open>The results of the reads, each with the world its request is handled in; an end of file or a
  read error is \<open>ReadEnd\<close>. A line comes with its newline.\<close>

datatype conn_read = ReadEnd | ReadLine string server_env "follow_event list"

definition too_large :: "nat \<Rightarrow> response" where
  "too_large n =
     RespError General (''message too large: '' @ dec_nat n @ '' bytes (max '' @ dec_nat MAX_MESSAGE_SIZE @ '')'')"

definition serve_request ::
  "server_env \<Rightarrow> follow_event list \<Rightarrow> request \<Rightarrow> response list" where
  "serve_request ev es req =
     (case req of
        ReqLogs target tail True stderr all timeout_secs lines \<Rightarrow>
          handle_follow_stream target all stderr lines es
      | _ \<Rightarrow> (case handle_request ev req of None \<Rightarrow> [] | Some resp \<Rightarrow> [resp]))"

text \<open>The responses in order, and whether the connection has asked the server to shut down.\<close>

fun serve_connection ::
  "(string \<Rightarrow> string + request) \<Rightarrow> conn_read list \<Rightarrow> response list \<times> bool" where
  "serve_connection parse [] = ([], False)"
| "serve_connection parse (ReadEnd # rs) = ([], False)"
| "serve_connection parse (ReadLine line ev es # rs) =
     (if line = [] then ([], False)
      else if length line \<ge> MAX_MESSAGE_SIZE then ([too_large (length line)], False)
      else
        (case parse line of
           Inl e \<Rightarrow>
             (let (resps, down) = serve_connection parse rs
              in (RespError General (''invalid request: '' @ e) # resps, down))
         | Inr req \<Rightarrow>
             (if req = ReqShutdown then (serve_request ev es req, True)
              else
                (let (resps, down) = serve_connection parse rs
                 in (serve_request ev es req @ resps, down)))))"

section \<open>Accepting connections\<close>

definition MAX_CONCURRENT_CONNECTIONS :: nat where
  "MAX_CONCURRENT_CONNECTIONS = 64"

text \<open>The counter, and the connection tasks alive (each holds a guard).\<close>

record connections =
  cn_active :: nat
  cn_tasks :: "nat multiset"

definition accept_connection :: "nat \<Rightarrow> connections \<Rightarrow> connections \<times> bool" where
  "accept_connection conn s =
     (let prev = cn_active s;
          s = s\<lparr>cn_active := cn_active s + 1\<rparr>
      in if prev \<ge> MAX_CONCURRENT_CONNECTIONS then (s\<lparr>cn_active := cn_active s - 1\<rparr>, False)
         else (s\<lparr>cn_tasks := add_mset conn (cn_tasks s)\<rparr>, True))"

definition drop_guard :: "nat \<Rightarrow> connections \<Rightarrow> connections" where
  "drop_guard conn s = s\<lparr>cn_active := cn_active s - 1, cn_tasks := cn_tasks s - {#conn#}\<rparr>"

inductive connection_step :: "connections \<Rightarrow> connections \<Rightarrow> bool" where
  accepted: "connection_step s (fst (accept_connection conn s))"
| closed: "conn \<in># cn_tasks s \<Longrightarrow> connection_step s (drop_guard conn s)"

inductive_simps connection_step_iff: "connection_step s t"

definition connections_start :: "connections \<Rightarrow> bool" where
  "connections_start s \<longleftrightarrow> s = \<lparr>cn_active = 0, cn_tasks = {#}\<rparr>"

definition connections_inv :: "connections \<Rightarrow> bool" where
  "connections_inv s \<longleftrightarrow> cn_active s = size (cn_tasks s) \<and> cn_active s \<le> MAX_CONCURRENT_CONNECTIONS"

interpretation connections: invariant_system connections_start connection_step connections_inv
  by unfold_locales
    (auto simp: connections_start_def connections_inv_def connection_step_iff accept_connection_def
      drop_guard_def MAX_CONCURRENT_CONNECTIONS_def Let_def size_Diff_singleton)

end
