(* ===== verification/Client.thy ===== *)
theory Client
  imports Disk_Log_Reader
begin

text \<open>
  The client's side of a session: \<open>is_daemon_alive\<close> of \<open>src/session.rs\<close>, starting the daemon
  (\<open>src/daemon/spawn.rs\<close>), and \<open>src/cli/mod.rs\<close>, which connects, sends a request and reads the answer.
  Each answer of the operating system is a field of \<open>client_env\<close> or of the record of one poll. The
  JSON parser and printer are parameters. What a command prints is a list of lines, each on the
  standard output or on the standard error.
\<close>

section \<open>Numbers in a PID file\<close>

text \<open>\<open>str::trim\<close> on ASCII white space and \<open>str::parse::<i32>\<close>.\<close>

definition is_space :: "char \<Rightarrow> bool" where
  "is_space c \<longleftrightarrow> c = CHR '' '' \<or> (9 \<le> (of_char c :: nat) \<and> (of_char c :: nat) \<le> 13)"

definition str_trim :: "string \<Rightarrow> string" where
  "str_trim s = rev (dropWhile is_space (rev (dropWhile is_space s)))"

definition is_digit :: "char \<Rightarrow> bool" where
  "is_digit c \<longleftrightarrow> 48 \<le> (of_char c :: nat) \<and> (of_char c :: nat) \<le> 57"

definition parse_digits :: "string \<Rightarrow> nat option" where
  "parse_digits s = (if s \<noteq> [] \<and> list_all is_digit s then Some (dec_value s) else None)"

definition in_i32 :: "int \<Rightarrow> int option" where
  "in_i32 i = (if - (2 ^ 31) \<le> i \<and> i < 2 ^ 31 then Some i else None)"

definition parse_i32 :: "string \<Rightarrow> i32 option" where
  "parse_i32 s =
     (case s of
        [] \<Rightarrow> None
      | c # cs \<Rightarrow>
          (if c = CHR ''-'' then Option.bind (parse_digits cs) (\<lambda>n. in_i32 (- int n))
           else if c = CHR ''+'' then Option.bind (parse_digits cs) (\<lambda>n. in_i32 (int n))
           else Option.bind (parse_digits s) (\<lambda>n. in_i32 (int n))))"

text \<open>\<open>kill\<close>: whether signal 0 can be sent.\<close>

definition is_daemon_alive :: "(i32 \<Rightarrow> bool) \<Rightarrow> io_error + byte list \<Rightarrow> bool" where
  "is_daemon_alive kill content =
     (case content of
        Inl _ \<Rightarrow> False
      | Inr bs \<Rightarrow> (case parse_i32 (str_trim (text_of bs)) of None \<Rightarrow> False | Some pid \<Rightarrow> kill pid))"

section \<open>Starting the daemon\<close>

text \<open>What one poll of the start-up loop finds: the child's exit status (a code, or none for a
  signal), whether the two files exist, whether the socket accepts a connection.\<close>

record start_poll =
  sp_try_wait :: "io_error + i32 option option"
  sp_pid_exists :: bool
  sp_socket_exists :: bool
  sp_connects :: bool

definition format_exit_status :: "i32 option \<Rightarrow> string" where
  "format_exit_status st =
     (case st of Some code \<Rightarrow> ''exit code '' @ dec_int code | None \<Rightarrow> ''terminated by signal'')"

definition daemon_log_hint :: "io_error + byte list \<Rightarrow> string" where
  "daemon_log_hint contents =
     (case contents of
        Inl _ \<Rightarrow> []
      | Inr bs \<Rightarrow>
          (case find (\<lambda>l. str_trim l \<noteq> []) (rev (file_lines bs)) of
             None \<Rightarrow> []
           | Some l \<Rightarrow> ''; '' @ str_trim l))"

fun poll_daemon :: "io_error + byte list \<Rightarrow> start_poll list \<Rightarrow> io_error + unit" where
  "poll_daemon daemon_log [] =
     Inl (io_err KTimedOut (''daemon did not start within 5s'' @ daemon_log_hint daemon_log))"
| "poll_daemon daemon_log (p # ps) =
     (case sp_try_wait p of
        Inl e \<Rightarrow> Inl e
      | Inr (Some status) \<Rightarrow>
          Inl (io_err KOther
            (''daemon exited early ('' @ format_exit_status status @ '')'' @ daemon_log_hint daemon_log))
      | Inr None \<Rightarrow>
          (if sp_pid_exists p \<and> sp_socket_exists p \<and> sp_connects p then Inr ()
           else poll_daemon daemon_log ps))"

definition wait_for_daemon_ready :: "(nat \<Rightarrow> start_poll) \<Rightarrow> io_error + byte list \<Rightarrow> io_error + unit" where
  "wait_for_daemon_ready poll daemon_log = poll_daemon daemon_log (map poll [0..<100])"

text \<open>The results of the steps of \<open>spawn_daemon\<close>, in order; the removal of a stale socket cannot fail
  it.\<close>

record spawn_env =
  se_ensure :: "io_error + unit"
  se_create_dirs :: "io_error + unit"
  se_current_exe :: "io_error + unit"
  se_spawn :: "io_error + unit"
  se_poll :: "nat \<Rightarrow> start_poll"
  se_daemon_log :: "io_error + byte list"

definition spawn_daemon :: "spawn_env \<Rightarrow> io_error + unit" where
  "spawn_daemon ev =
     (case se_ensure ev of Inl e \<Rightarrow> Inl e | Inr _ \<Rightarrow>
     (case se_create_dirs ev of Inl e \<Rightarrow> Inl e | Inr _ \<Rightarrow>
     (case se_current_exe ev of Inl e \<Rightarrow> Inl e | Inr _ \<Rightarrow>
     (case se_spawn ev of Inl e \<Rightarrow> Inl e | Inr _ \<Rightarrow>
        wait_for_daemon_ready (se_poll ev) (se_daemon_log ev)))))"

section \<open>Running the daemon\<close>

text \<open>The files as the daemon leaves them: \<open>serve\<close> is \<open>server::run\<close>, its result and the files when it
  returns; \<open>create\<close> whether a file can be created.\<close>

definition daemon_files :: "(string \<Rightarrow> bool) \<Rightarrow> env_vars \<Rightarrow> string \<Rightarrow> u32 \<Rightarrow> fs \<Rightarrow> fs" where
  "daemon_files create vars session pid fs =
     (let log_file = path_join (state_dir vars session) ''daemon.log'';
          fs = (if create log_file then fs(log_file \<mapsto> []) else fs);
          pid_file = pid_path vars session
      in if create pid_file then fs(pid_file \<mapsto> bytes_of (dec_word pid @ ''\<newline>'')) else fs)"

definition run_daemon ::
  "io_error + unit \<Rightarrow> (string \<Rightarrow> bool) \<Rightarrow> (fs \<Rightarrow> (string + unit) \<times> fs) \<Rightarrow> env_vars \<Rightarrow> string \<Rightarrow> u32 \<Rightarrow> fs
     \<Rightarrow> i32 \<times> fs" where
  "run_daemon ensure create serve vars session pid fs =
     (case ensure of
        Inl e \<Rightarrow> (1, fs)
      | Inr _ \<Rightarrow>
          (let (res, fs) = serve (daemon_files create vars session pid fs);
               exit_code = (case res of Inr _ \<Rightarrow> 0 | Inl _ \<Rightarrow> 1)
           in (exit_code, fs_remove (pid_path vars session) (fs_remove (fst (socket_path vars session)) fs))))"

section \<open>Connecting\<close>

record client_env =
  ce_vars :: env_vars
  ce_dir :: dir_handle
  ce_pid_file :: "io_error + byte list"
  ce_kill :: "i32 \<Rightarrow> bool"
  ce_spawn :: spawn_env
  ce_connect :: "io_error + unit"
  ce_peer :: "io_error + u32"
  ce_to_json :: "request \<Rightarrow> string + string"
  ce_write :: "io_error + unit"
  ce_flush :: "io_error + unit"
  ce_read :: "io_error + string"
  ce_from_json :: "string \<Rightarrow> string + response"

definition foreign_socket :: "client_env \<Rightarrow> string \<Rightarrow> u32 \<Rightarrow> io_error" where
  "foreign_socket ev session uid =
     io_err KPermissionDenied
       (''refusing to talk to '' @ fst (socket_path (ce_vars ev) session) @ '': socket owned by uid ''
         @ dec_word uid @ '', expected '' @ dec_word (ev_euid (ce_vars ev)))"

definition connect_socket :: "client_env \<Rightarrow> string \<Rightarrow> client_error + unit" where
  "connect_socket ev session =
     (case ce_connect ev of
        Inl e \<Rightarrow> Inl (ConnectionFailed e)
      | Inr _ \<Rightarrow>
          (case ce_peer ev of
             Inl e \<Rightarrow> Inl (ConnectionFailed e)
           | Inr uid \<Rightarrow>
               (if uid \<noteq> ev_euid (ce_vars ev) then Inl (ConnectionFailed (foreign_socket ev session uid))
                else Inr ())))"

text \<open>After the check of the runtime directory: the PID file, the daemon, the socket.\<close>

definition connect_checked :: "client_env \<Rightarrow> string \<Rightarrow> bool \<Rightarrow> client_error + unit" where
  "connect_checked ev session auto_spawn =
     (if \<not> is_daemon_alive (ce_kill ev) (ce_pid_file ev) then
        (if auto_spawn then
           (case spawn_daemon (ce_spawn ev) of
              Inl e \<Rightarrow> Inl (SpawnFailedErr e)
            | Inr _ \<Rightarrow> connect_socket ev session)
         else Inl NoDaemon)
      else connect_socket ev session)"

definition connect :: "client_env \<Rightarrow> string \<Rightarrow> bool \<Rightarrow> client_error + unit" where
  "connect ev session auto_spawn =
     (case fst (verify_socket_dir (ce_vars ev) (ce_dir ev)) of
        Inl e \<Rightarrow>
          (if io_kind e = KNotFound then connect_checked ev session auto_spawn
           else Inl (ConnectionFailed e))
      | Inr _ \<Rightarrow> connect_checked ev session auto_spawn)"

definition send_request :: "client_env \<Rightarrow> request \<Rightarrow> client_error + unit" where
  "send_request ev req =
     (case ce_to_json ev req of
        Inl e \<Rightarrow> Inl (Serialize e)
      | Inr _ \<Rightarrow>
          (case ce_write ev of
             Inl e \<Rightarrow> Inl (WriteErr e)
           | Inr _ \<Rightarrow> (case ce_flush ev of Inl e \<Rightarrow> Inl (FlushErr e) | Inr _ \<Rightarrow> Inr ())))"

definition request :: "client_env \<Rightarrow> string \<Rightarrow> request \<Rightarrow> bool \<Rightarrow> client_error + response" where
  "request ev session req auto_spawn =
     (case connect ev session auto_spawn of
        Inl e \<Rightarrow> Inl e
      | Inr _ \<Rightarrow>
          (case send_request ev req of
             Inl e \<Rightarrow> Inl e
           | Inr _ \<Rightarrow>
               (case ce_read ev of
                  Inl e \<Rightarrow> Inl (ReadErr e)
                | Inr line \<Rightarrow>
                    (case ce_from_json ev line of Inl e \<Rightarrow> Inl (ParseResponse e) | Inr resp \<Rightarrow> Inr resp))))"

section \<open>Answers to a command\<close>

datatype printed = PrintOut string | PrintErr string

text \<open>How a command asks: a request, whether to start a daemon for it, and the result.\<close>

type_synonym asker = "request \<Rightarrow> bool \<Rightarrow> client_error + response"

definition enable_proxy :: "asker \<Rightarrow> u16 option \<Rightarrow> i32 option \<times> printed list" where
  "enable_proxy ask proxy_port =
     (case ask (ReqEnableProxy proxy_port) True of
        Inr (RespOk message) \<Rightarrow> (None, [PrintErr message])
      | Inr (RespError code message) \<Rightarrow>
          (Some (exit_code code), [PrintErr (''error enabling proxy: '' @ message)])
      | Inl e \<Rightarrow> (Some 1, [PrintErr (''error enabling proxy: '' @ client_error_display e)])
      | _ \<Rightarrow> (None, []))"

definition request_and_handle ::
  "client_error + response \<Rightarrow> (response \<Rightarrow> i32 option \<times> printed list) \<Rightarrow> i32 \<times> printed list" where
  "request_and_handle result on_success =
     (case result of
        Inr (RespError code message) \<Rightarrow> (exit_code code, [PrintErr (''error: '' @ message)])
      | Inr resp \<Rightarrow>
          (case on_success resp of
             (Some code, out) \<Rightarrow> (code, out)
           | (None, out) \<Rightarrow> (1, out @ [PrintErr ''unexpected response'']))
      | Inl e \<Rightarrow> (1, [PrintErr (''error: '' @ client_error_display e)]))"

text \<open>Streaming: the reads in order, the empty one is the end of the stream. The result is \<open>None\<close> while
  the stream is still open.\<close>

fun stream_loop ::
  "(string \<Rightarrow> string + response) \<Rightarrow> (string \<Rightarrow> stream \<Rightarrow> string \<Rightarrow> printed list) \<Rightarrow> (io_error + string) list
     \<Rightarrow> (client_error + response) option \<times> printed list" where
  "stream_loop parse on_line [] = (None, [])"
| "stream_loop parse on_line (Inl e # rs) = (Some (Inl (ReadErr e)), [])"
| "stream_loop parse on_line (Inr line # rs) =
     (if line = [] then (Some (Inr RespLogEnd), [])
      else
        (case parse line of
           Inl e \<Rightarrow> (Some (Inl (ParseResponse e)), [])
         | Inr (RespLogLine process s l) \<Rightarrow>
             (let (res, out) = stream_loop parse on_line rs in (res, on_line process s l @ out))
         | Inr resp \<Rightarrow> (Some (Inr resp), [])))"

definition stream_responses ::
  "client_env \<Rightarrow> string \<Rightarrow> request \<Rightarrow> bool \<Rightarrow> (io_error + string) list
     \<Rightarrow> (string \<Rightarrow> stream \<Rightarrow> string \<Rightarrow> printed list) \<Rightarrow> (client_error + response) option \<times> printed list" where
  "stream_responses ev session req auto_spawn reads on_line =
     (case connect ev session auto_spawn of
        Inl e \<Rightarrow> (Some (Inl e), [])
      | Inr _ \<Rightarrow>
          (case send_request ev req of
             Inl e \<Rightarrow> (Some (Inl e), [])
           | Inr _ \<Rightarrow> stream_loop (ce_from_json ev) on_line reads))"

section \<open>Numerals in files\<close>

lemma dec_nat_is_digit: "list_all is_digit (dec_nat n)"
proof -
  have "is_digit c" if "c \<in> set (dec_nat n)" for c
    using dec_nat_digits [OF that] by (auto simp: is_digit_def of_char_dec_digit)
  then show ?thesis by (simp add: list_all_iff)
qed

lemma digit_plain: "is_digit c \<Longrightarrow> \<not> is_space c \<and> c \<noteq> CHR ''-'' \<and> c \<noteq> CHR ''+''"
  by (auto simp: is_digit_def is_space_def)

lemma str_trim_plain:
  assumes "s \<noteq> []" and "\<not> is_space (hd s)" and "\<not> is_space (last s)" and "list_all is_space t"
  shows "str_trim (s @ t) = s"
proof -
  have "dropWhile is_space (s @ t) = s @ t" using assms(1,2) by (cases s) simp_all
  moreover have "dropWhile is_space (rev t @ rev s) = dropWhile is_space (rev s)"
    using assms(4) by (intro dropWhile_append2) (simp add: list_all_iff)
  moreover have "dropWhile is_space (rev s) = rev s"
    using assms(1,3) by (cases "rev s") (simp_all add: last_rev flip: hd_rev)
  ultimately show ?thesis by (simp add: str_trim_def)
qed

lemma parse_i32_dec:
  assumes "n < 2 ^ 31"
  shows "parse_i32 (dec_nat n) = Some (int n)"
proof -
  obtain c cs where cs: "dec_nat n = c # cs" by (cases "dec_nat n") simp_all
  have "is_digit c" using dec_nat_is_digit [of n] by (simp add: cs)
  then have "c \<noteq> CHR ''-''" "c \<noteq> CHR ''+''" by (simp_all add: digit_plain)
  moreover have "int n < 2 ^ 31" using assms by (metis of_nat_less_iff of_nat_numeral of_nat_power)
  then have "in_i32 (int n) = Some (int n)" by (simp add: in_i32_def)
  moreover have "parse_digits (c # cs) = Some n"
    using dec_nat_is_digit [of n] dec_value_dec_nat [of n] unfolding cs by (simp add: parse_digits_def)
  ultimately show ?thesis by (simp add: parse_i32_def cs)
qed

lemma trim_numeral_line: "str_trim (dec_nat n @ ''\<newline>'') = dec_nat n"
proof -
  have "is_digit (hd (dec_nat n))" "is_digit (last (dec_nat n))"
    using dec_nat_is_digit [of n] by (simp_all add: list_all_iff)
  then show ?thesis
    by (intro str_trim_plain) (simp_all add: digit_plain, simp add: is_space_def)
qed

section \<open>Properties\<close>

text \<open>A PID file says whether the daemon that wrote it lives. While the daemon runs, the liveness
  check of its session probes the daemon's own process; when the daemon has returned, whatever the
  server left behind, the session is not alive and its socket is gone.\<close>

theorem daemon_pid_file:
  assumes "create (pid_path vars session)" and "unat pid < 2 ^ 31" and "ensure = Inr ()"
  shows "is_daemon_alive kill (fs_open (pid_path vars session) (daemon_files create vars session pid fs))
      = kill (int (unat pid)) \<and>
    (let fs' = snd (run_daemon ensure create serve vars session pid fs)
     in \<not> is_daemon_alive kill (fs_open (pid_path vars session) fs') \<and>
        \<not> fs_exists (fst (socket_path vars session)) fs')"
proof
  have parse: "parse_i32 (dec_nat (unat pid)) = Some (int (unat pid))"
    by (rule parse_i32_dec [OF assms(2)])
  have "daemon_files create vars session pid fs (pid_path vars session)
      = Some (bytes_of (dec_nat (unat pid) @ ''\<newline>''))"
    using assms(1) by (simp add: daemon_files_def Let_def dec_word_def)
  then show "is_daemon_alive kill (fs_open (pid_path vars session) (daemon_files create vars session pid fs))
      = kill (int (unat pid))"
    by (simp add: fs_open_def is_daemon_alive_def trim_numeral_line parse del: bytes_of_append)
  show "let fs' = snd (run_daemon ensure create serve vars session pid fs)
     in \<not> is_daemon_alive kill (fs_open (pid_path vars session) fs') \<and>
        \<not> fs_exists (fst (socket_path vars session)) fs'"
    by (simp add: run_daemon_def assms(3) Let_def case_prod_unfold is_daemon_alive_def fs_open_def
        fs_remove_def fs_exists_def)
qed

definition example_vars :: env_vars where
  "example_vars =
     \<lparr>ev_debug = False, ev_test_runtime_dir = None, ev_xdg_state_home = None, ev_home = None, ev_euid = 1000\<rparr>"

theorem daemon_pid_file_witness:
  "is_daemon_alive (\<lambda>pid. pid = 4242)
     (fs_open (pid_path example_vars ''default'') (daemon_files (\<lambda>_. True) example_vars ''default'' 4242 Map.empty))"
  using daemon_pid_file [of "\<lambda>_. True" example_vars "''default''" 4242 "Inr ()" "\<lambda>pid. pid = 4242"] by simp

lemma poll_daemon_ok:
  "poll_daemon daemon_log ps = Inr () \<longleftrightarrow>
     (\<exists>i < length ps. sp_try_wait (ps ! i) = Inr None \<and>
        sp_pid_exists (ps ! i) \<and> sp_socket_exists (ps ! i) \<and> sp_connects (ps ! i) \<and>
        (\<forall>j < i. sp_try_wait (ps ! j) = Inr None))"
proof (induction ps)
  case (Cons p ps)
  show ?case (is "?l \<longleftrightarrow> (\<exists>i < length (p # ps). ?P (p # ps) i)")
  proof (cases "sp_try_wait p = Inr None")
    case False
    then have "\<not> ?l" by (auto split: sum.split option.split)
    moreover have "\<not> ?P (p # ps) i" for i using False by (cases i) auto
    ultimately show ?thesis by blast
  next
    case alive: True
    have shift: "?P (p # ps) (Suc i) \<longleftrightarrow> ?P ps i" for i
      using alive by (auto simp: nth_Cons split: nat.split)
    show ?thesis
    proof (cases "sp_pid_exists p \<and> sp_socket_exists p \<and> sp_connects p")
      case True
      with alive show ?thesis by (auto intro!: exI [of _ 0])
    next
      case False
      then have "?l \<longleftrightarrow> poll_daemon daemon_log ps = Inr ()"
        by (simp only: poll_daemon.simps alive sum.case option.case if_False)
      also have "\<dots> \<longleftrightarrow> (\<exists>i < length ps. ?P (p # ps) (Suc i))" using Cons.IH shift by simp
      also have "\<dots> \<longleftrightarrow> (\<exists>i < length (p # ps). ?P (p # ps) i)"
      proof
        assume "\<exists>i < length ps. ?P (p # ps) (Suc i)"
        then obtain i where "i < length ps" "?P (p # ps) (Suc i)" by blast
        then show "\<exists>i < length (p # ps). ?P (p # ps) i" by (intro exI [of _ "Suc i"]) simp
      next
        assume "\<exists>i < length (p # ps). ?P (p # ps) i"
        then obtain k where k: "k < length (p # ps)" "?P (p # ps) k" by blast
        with False obtain i where "k = Suc i" by (cases k) auto
        with k show "\<exists>i < length ps. ?P (p # ps) (Suc i)" by (intro exI [of _ i]) simp
      qed
      finally show ?thesis .
    qed
  qed
qed simp

text \<open>A daemon counts as started exactly when it accepts a connection. \<open>spawn_daemon\<close> succeeds
  exactly when its preparations did and one of the hundred polls found both files and connected, with
  the child alive at that poll and at every earlier one; a child that exits, a failed step or a
  hundred polls in vain are errors.\<close>

theorem spawned_daemon_listens:
  "spawn_daemon ev = Inr () \<longleftrightarrow>
     se_ensure ev = Inr () \<and> se_create_dirs ev = Inr () \<and> se_current_exe ev = Inr () \<and> se_spawn ev = Inr () \<and>
     (\<exists>i < 100. sp_connects (se_poll ev i) \<and> sp_pid_exists (se_poll ev i) \<and> sp_socket_exists (se_poll ev i) \<and>
        (\<forall>j \<le> i. sp_try_wait (se_poll ev j) = Inr None))"
proof -
  have "wait_for_daemon_ready (se_poll ev) (se_daemon_log ev) = Inr () \<longleftrightarrow>
      (\<exists>i < 100. sp_connects (se_poll ev i) \<and> sp_pid_exists (se_poll ev i) \<and> sp_socket_exists (se_poll ev i) \<and>
        (\<forall>j \<le> i. sp_try_wait (se_poll ev j) = Inr None))"
    unfolding wait_for_daemon_ready_def poll_daemon_ok by (auto simp: le_less)
  then show ?thesis
    by (auto simp: spawn_daemon_def split: sum.split)
qed

definition good_start :: spawn_env where
  "good_start =
     \<lparr>se_ensure = Inr (), se_create_dirs = Inr (), se_current_exe = Inr (), se_spawn = Inr (),
      se_poll = (\<lambda>i. \<lparr>sp_try_wait = Inr None, sp_pid_exists = i > 0, sp_socket_exists = i > 1, sp_connects = i > 2\<rparr>),
      se_daemon_log = Inr []\<rparr>"

theorem spawned_daemon_listens_witness: "spawn_daemon good_start = Inr ()"
  unfolding spawned_daemon_listens by (auto simp: good_start_def intro!: exI [of _ 3])

lemma connect_socket_own:
  "connect_socket ev session = Inr u \<Longrightarrow> ce_connect ev = Inr () \<and> ce_peer ev = Inr (ev_euid (ce_vars ev))"
  by (auto simp: connect_socket_def split: sum.splits if_splits)

lemma connect_own:
  assumes "connect ev session auto_spawn = Inr u"
  shows "ce_peer ev = Inr (ev_euid (ce_vars ev)) \<and>
    ((\<exists>e. fst (verify_socket_dir (ce_vars ev) (ce_dir ev)) = Inl e \<and> io_kind e = KNotFound) \<or>
     dh_open (ce_dir ev) = None \<and> dh_uid (ce_dir ev) = ev_euid (ce_vars ev) \<and>
       \<not> loose (snd (verify_socket_dir (ce_vars ev) (ce_dir ev)))) \<and>
    (is_daemon_alive (ce_kill ev) (ce_pid_file ev) \<or> auto_spawn \<and> spawn_daemon (ce_spawn ev) = Inr ())"
proof -
  have checked: "connect_checked ev session auto_spawn = Inr u"
    and dir: "(\<exists>e. fst (verify_socket_dir (ce_vars ev) (ce_dir ev)) = Inl e \<and> io_kind e = KNotFound) \<or>
      fst (verify_socket_dir (ce_vars ev) (ce_dir ev)) = Inr ()"
    using assms by (auto simp: connect_def split: sum.splits if_splits)
  from checked have "ce_peer ev = Inr (ev_euid (ce_vars ev))"
      "is_daemon_alive (ce_kill ev) (ce_pid_file ev) \<or> auto_spawn \<and> spawn_daemon (ce_spawn ev) = Inr ()"
    by (auto simp: connect_checked_def dest: connect_socket_own split: if_splits sum.splits)
  with dir show ?thesis
    using check_private_dir_ok [of "socket_base_dir (ce_vars ev)" "ev_euid (ce_vars ev)" "ce_dir ev"]
    by (auto simp: verify_socket_dir_def)
qed

text \<open>C36: a client talks only to a daemon of its own user. A request is answered only by a peer that
  runs as the client's user, through a runtime directory that was not there before or is a real
  directory of that user closed to everyone else, with a daemon that is alive or was just started on
  request; a directory or socket of another user is an error before anything is sent.\<close>

theorem client_trusts_only_owner:
  assumes "request ev session req auto_spawn = Inr resp"
  shows "ce_peer ev = Inr (ev_euid (ce_vars ev)) \<and>
    ((\<exists>e. fst (verify_socket_dir (ce_vars ev) (ce_dir ev)) = Inl e \<and> io_kind e = KNotFound) \<or>
     dh_open (ce_dir ev) = None \<and> dh_uid (ce_dir ev) = ev_euid (ce_vars ev) \<and>
       \<not> loose (snd (verify_socket_dir (ce_vars ev) (ce_dir ev)))) \<and>
    (is_daemon_alive (ce_kill ev) (ce_pid_file ev) \<or> auto_spawn \<and> spawn_daemon (ce_spawn ev) = Inr ())"
proof -
  from assms have "connect ev session auto_spawn = Inr ()"
    by (auto simp: request_def split: sum.splits)
  then show ?thesis by (rule connect_own)
qed

definition good_client :: client_env where
  "good_client =
     \<lparr>ce_vars = example_vars,
      ce_dir = \<lparr>dh_open = None, dh_metadata_err = None, dh_uid = 1000, dh_mode = 0x1C0, dh_chmod = Inr\<rparr>,
      ce_pid_file = Inl (io_err KNotFound []), ce_kill = (\<lambda>_. True), ce_spawn = good_start,
      ce_connect = Inr (), ce_peer = Inr 1000, ce_to_json = (\<lambda>_. Inr []), ce_write = Inr (), ce_flush = Inr (),
      ce_read = Inr ''pong'', ce_from_json = (\<lambda>s. Inr (RespOk s))\<rparr>"

theorem client_trusts_only_owner_witness:
  "request good_client ''default'' ReqStatus True = Inr (RespOk ''pong'') \<and>
   ce_peer good_client = Inr (ev_euid (ce_vars good_client))"
proof -
  have "poll_daemon (Inr []) (map (se_poll good_start) [0..<100]) = Inr ()"
    unfolding poll_daemon_ok by (auto simp: good_start_def intro!: exI [of _ 3])
  then have "spawn_daemon good_start = Inr ()"
    by (simp add: spawn_daemon_def wait_for_daemon_ready_def good_start_def)
  moreover have "\<not> loose 0x1C0" by (simp add: loose_def)
  ultimately have req: "request good_client ''default'' ReqStatus True = Inr (RespOk ''pong'')"
    by (simp add: request_def connect_def connect_checked_def connect_socket_def send_request_def
        good_client_def example_vars_def verify_socket_dir_def check_private_dir_def is_daemon_alive_def)
  with client_trusts_only_owner [OF req] show ?thesis by simp
qed

end
