(* ===== verification/Client_Commands.thy ===== *)
theory Client_Commands
  imports Client Config Log_Reading
begin

text \<open>
  The commands of the client except \<open>up\<close>: \<open>src/cli/run.rs\<close>, \<open>stop.rs\<close>, \<open>restart.rs\<close>, \<open>status.rs\<close>,
  \<open>wait.rs\<close>, \<open>down.rs\<close>, \<open>logs.rs\<close> and \<open>session_cmd.rs\<close>. A command returns its exit code and what it
  prints. The names in a directory are given as \<open>read_dir\<close> lists them.
\<close>

section \<open>Commands that ask the daemon\<close>

definition run_execute ::
  "asker \<Rightarrow> string \<Rightarrow> string option \<Rightarrow> u16 option \<Rightarrow> bool \<Rightarrow> string option \<Rightarrow> u32 option \<Rightarrow> u64 option
     \<Rightarrow> string list \<Rightarrow> string list \<Rightarrow> i32 \<times> printed list" where
  "run_execute ask command name port proxy autorestart max_restarts restart_delay watch watch_ignore =
     (case (if proxy then enable_proxy ask None else (None, [])) of
        (Some code, out) \<Rightarrow> (code, out)
      | (None, out) \<Rightarrow>
          (let restart = map_option (\<lambda>m. restart_policy_from_args m max_restarts restart_delay) autorestart;
               req = ReqRun command name None None port restart (watch_config_from_args watch watch_ignore);
               (code, out') =
                 request_and_handle (ask req True)
                   (\<lambda>resp.
                      case resp of
                        RespRunOk name pid_name pid _ url \<Rightarrow>
                          (Some 0,
                           [PrintOut
                              (name @ '' (id: '' @ pid_name @ '', pid: '' @ dec_word pid
                                @ (case url of Some u \<Rightarrow> '', '' @ u | None \<Rightarrow> []) @ '')'')])
                      | _ \<Rightarrow> (None, []))
           in (code, out @ out')))"

definition print_ok :: "response \<Rightarrow> i32 option \<times> printed list" where
  "print_ok resp = (case resp of RespOk message \<Rightarrow> (Some 0, [PrintOut message]) | _ \<Rightarrow> (None, []))"

definition stop_execute :: "asker \<Rightarrow> string \<Rightarrow> i32 \<times> printed list" where
  "stop_execute ask target = request_and_handle (ask (ReqStop target) False) print_ok"

definition stop_execute_all :: "asker \<Rightarrow> i32 \<times> printed list" where
  "stop_execute_all ask = request_and_handle (ask ReqStopAll False) print_ok"

definition restart_execute :: "asker \<Rightarrow> string \<Rightarrow> i32 \<times> printed list" where
  "restart_execute ask target =
     request_and_handle (ask (ReqRestart target) False)
       (\<lambda>resp.
          case resp of
            RespRunOk name pid_name pid _ _ \<Rightarrow>
              (Some 0,
               [PrintOut (''restarted '' @ name @ '' (id: '' @ pid_name @ '', pid: '' @ dec_word pid @ '')'')])
          | _ \<Rightarrow> (None, []))"

definition wait_execute ::
  "asker \<Rightarrow> string \<Rightarrow> string option \<Rightarrow> bool \<Rightarrow> bool \<Rightarrow> nat option \<Rightarrow> i32 \<times> printed list" where
  "wait_execute ask target until regex exit timeout =
     request_and_handle (ask (ReqWait target until regex exit timeout) False)
       (\<lambda>resp.
          case resp of
            RespWaitMatch line \<Rightarrow> (Some 0, [PrintOut line])
          | RespWaitExited (Some code) \<Rightarrow> (Some 0, [PrintOut (''exited with code '' @ dec_int code)])
          | RespWaitExited None \<Rightarrow> (Some 0, [PrintOut ''exited by signal''])
          | RespWaitTimeout \<Rightarrow> (Some 1, [PrintErr ''timeout''])
          | _ \<Rightarrow> (None, []))"

section \<open>The status table\<close>

text \<open>\<open>{:<n}\<close> pads to a number of characters, which are the bytes that do not continue one.\<close>

definition continues :: "char \<Rightarrow> bool" where
  "continues c \<longleftrightarrow> 128 \<le> (of_char c :: nat) \<and> (of_char c :: nat) < 192"

definition char_count :: "string \<Rightarrow> nat" where
  "char_count s = length (filter (\<lambda>c. \<not> continues c) s)"

definition pad :: "nat \<Rightarrow> string \<Rightarrow> string" where
  "pad n s = s @ replicate (n - char_count s) CHR '' ''"

definition format_uptime :: "nat \<Rightarrow> string" where
  "format_uptime secs =
     (if secs < 60 then dec_nat secs @ ''s''
      else if secs < 3600 then dec_nat (secs div 60) @ ''m'' @ dec_nat (secs mod 60) @ ''s''
      else dec_nat (secs div 3600) @ ''h'' @ dec_nat ((secs mod 3600) div 60) @ ''m'')"

definition status_row ::
  "bool \<Rightarrow> bool \<Rightarrow> bool \<Rightarrow> process_info \<Rightarrow> string" where
  "status_row has_restarts has_watch has_urls p =
     (let exit = (case pi_exit_code p of None \<Rightarrow> ''-'' | Some c \<Rightarrow> dec_int c);
          uptime = (case pi_uptime_secs p of None \<Rightarrow> ''-'' | Some s \<Rightarrow> format_uptime s);
          restarts =
            (case (pi_restart_count p, pi_max_restarts p) of
               (Some c, Some m) \<Rightarrow> dec_word c @ ''/'' @ dec_word m
             | (Some c, None) \<Rightarrow> dec_word c
             | _ \<Rightarrow> ''-'');
          watch = (if pi_watched p = Some True then ''*'' else ''-'');
          url = (case pi_url p of Some u \<Rightarrow> u | None \<Rightarrow> ''-'')
      in pad 12 (pi_name p) @ '' '' @ pad 8 (dec_word (pi_pid p)) @ '' ''
           @ pad 10 (process_state_display (pi_state p)) @ '' '' @ pad 6 exit
           @ (if has_restarts then '' '' @ pad 10 restarts else [])
           @ (if has_watch then '' '' @ pad 6 watch else [])
           @ (if has_urls then '' '' @ pad 30 url else [])
           @ '' '' @ uptime)"

definition status_header :: "bool \<Rightarrow> bool \<Rightarrow> bool \<Rightarrow> string" where
  "status_header has_restarts has_watch has_urls =
     pad 12 ''NAME'' @ '' '' @ pad 8 ''PID'' @ '' '' @ pad 10 ''STATE'' @ '' '' @ pad 6 ''EXIT''
       @ (if has_restarts then '' '' @ pad 10 ''RESTARTS'' else [])
       @ (if has_watch then '' '' @ pad 6 ''WATCH'' else [])
       @ (if has_urls then '' '' @ pad 30 ''URL'' else [])
       @ '' UPTIME''"

definition status_table :: "process_info list \<Rightarrow> string list" where
  "status_table processes =
     (let has_urls = list_ex (\<lambda>p. pi_url p \<noteq> None) processes;
          has_restarts = list_ex (\<lambda>p. pi_restart_policy p \<noteq> None \<or> pi_restart_count p \<noteq> None) processes;
          has_watch = list_ex (\<lambda>p. pi_watched p = Some True) processes
      in status_header has_restarts has_watch has_urls
           # map (status_row has_restarts has_watch has_urls) processes)"

text \<open>\<open>to_json\<close> is the pretty printer.\<close>

definition status_execute ::
  "asker \<Rightarrow> (process_info list \<Rightarrow> string + string) \<Rightarrow> bool \<Rightarrow> i32 \<times> printed list" where
  "status_execute ask to_json json =
     request_and_handle (ask ReqStatus False)
       (\<lambda>resp.
          case resp of
            RespStatus processes \<Rightarrow>
              (if json then
                 (case to_json processes of
                    Inr text \<Rightarrow> (Some 0, [PrintOut text])
                  | Inl e \<Rightarrow> (Some 1, [PrintErr (''error: failed to serialize status: '' @ e)]))
               else (Some 0, map PrintOut (status_table processes)))
          | _ \<Rightarrow> (None, []))"

section \<open>Stopping the session\<close>

text \<open>The session's processes are stopped, and the daemon then shut down, whatever it answers. The
  last component tells whether the shutdown was sent.\<close>

definition down_session ::
  "fs \<Rightarrow> io_error + string \<Rightarrow> (string \<Rightarrow> string + project_config) \<Rightarrow> string option \<Rightarrow> string" where
  "down_session fs cwd parse cli_session =
     (case cli_session of
        Some s \<Rightarrow> s
      | None \<Rightarrow>
          (let config_session = (case load_config fs cwd parse None of Inr (_, c) \<Rightarrow> pc_session c | Inl _ \<Rightarrow> None)
           in resolve_session None config_session))"

definition down_execute ::
  "(string \<Rightarrow> asker) \<Rightarrow> fs \<Rightarrow> io_error + string \<Rightarrow> (string \<Rightarrow> string + project_config) \<Rightarrow> string option
     \<Rightarrow> i32 \<times> printed list \<times> (string \<times> request) option" where
  "down_execute ask fs cwd parse cli_session =
     (let session = down_session fs cwd parse cli_session;
          (code, out) = stop_execute_all (ask session)
      in (code, out, if code = 0 then Some (session, ReqShutdown) else None))"

section \<open>Logs\<close>

definition ring_step :: "nat \<Rightarrow> string \<Rightarrow> string list \<Rightarrow> string list" where
  "ring_step n line ring = (if length ring = n then tl ring else ring) @ [line]"

text \<open>\<open>VecDeque::<String>::with_capacity(n)\<close> reserves \<open>n\<close> strings of three words at once: it panics
  when these are more bytes than an \<open>isize\<close> counts, and the process is aborted when the allocator,
  here a parameter, does not give them. As \<open>n\<close> is what the user asked for, both can happen, and the
  functions that read a tail return \<open>None\<close> when the program ends that way.\<close>

definition with_capacity :: "(nat \<Rightarrow> bool) \<Rightarrow> nat \<Rightarrow> bool" where
  "with_capacity alloc n \<longleftrightarrow> 24 * n < 2 ^ 63 \<and> alloc (24 * n)"

definition tail_file :: "(nat \<Rightarrow> bool) \<Rightarrow> fs \<Rightarrow> string \<Rightarrow> nat \<Rightarrow> (io_error + string list) option" where
  "tail_file alloc fs path n =
     (if n = 0 then Some (Inr [])
      else (case fs_open path fs of
              Inl e \<Rightarrow> Some (Inl e)
            | Inr content \<Rightarrow>
                (if with_capacity alloc n then Some (Inr (fold (ring_step n) (file_lines content) [])) else None)))"

text \<open>\<open>str::trim_end_matches\<close> removes the suffix as often as it is there.\<close>

function trim_end_matches :: "string \<Rightarrow> string \<Rightarrow> string" where
  "trim_end_matches pat s =
     (if pat \<noteq> [] \<and> str_ends_with pat s then trim_end_matches pat (take (length s - length pat) s) else s)"
  by auto
termination
  by (relation "measure (length \<circ> snd)") (auto simp: str_ends_with_def suffix_def)

declare trim_end_matches.simps [simp del]

definition bracketed :: "string \<Rightarrow> string \<Rightarrow> string" where
  "bracketed process line = ''['' @ process @ ''] '' @ line"

definition log_of_entry ::
  "(nat \<Rightarrow> bool) \<Rightarrow> fs \<Rightarrow> string \<Rightarrow> nat \<Rightarrow> string \<Rightarrow> string \<Rightarrow> printed list option" where
  "log_of_entry alloc fs dir tail suff name =
     (if \<not> str_ends_with suff name then Some []
      else (case tail_file alloc fs (path_join dir name) tail of
              None \<Rightarrow> None
            | Some (Inl _) \<Rightarrow> Some []
            | Some (Inr ls) \<Rightarrow> Some (map (\<lambda>l. PrintOut (bracketed (trim_end_matches suff name) l)) ls)))"

text \<open>The lines of all logs are collected before any is printed.\<close>

definition show_all_logs ::
  "(nat \<Rightarrow> bool) \<Rightarrow> fs \<Rightarrow> io_error + string list \<Rightarrow> string \<Rightarrow> nat \<Rightarrow> bool \<Rightarrow> (i32 \<times> printed list) option" where
  "show_all_logs alloc fs entries dir tail stderr =
     (case entries of
        Inl e \<Rightarrow> Some (1, [PrintErr (''error: cannot read log dir: '' @ io_text e)])
      | Inr names \<Rightarrow>
          (let suff = (if stderr then ''.stderr'' else ''.stdout'');
               logs = map (log_of_entry alloc fs dir tail suff) names
           in if None \<in> set logs then None else Some (0, concat (map the logs))))"

definition log_stream :: "bool \<Rightarrow> string" where
  "log_stream stderr = (if stderr then ''stderr'' else ''stdout'')"

definition replay_follow_tail ::
  "(nat \<Rightarrow> bool) \<Rightarrow> fs \<Rightarrow> io_error + string list \<Rightarrow> string \<Rightarrow> string option \<Rightarrow> nat \<Rightarrow> bool \<Rightarrow> bool
     \<Rightarrow> (i32 option \<times> printed list) option" where
  "replay_follow_tail alloc fs entries dir target tail stderr all =
     (if tail = 0 then Some (None, [])
      else if all \<or> target = None then
        (case show_all_logs alloc fs entries dir tail stderr of
           None \<Rightarrow> None
         | Some (code, out) \<Rightarrow> Some (if code = 0 then None else Some code, out))
      else
        (case tail_file alloc fs (path_join dir (the target @ ''.'' @ log_stream stderr)) tail of
           None \<Rightarrow> None
         | Some (Inr ls) \<Rightarrow> Some (None, map PrintOut ls)
         | Some (Inl e) \<Rightarrow>
             Some (if io_kind e = KNotFound then (None, [])
                   else (Some 1, [PrintErr (''error reading logs: '' @ io_text e)]))))"

text \<open>\<open>stream\<close> is \<open>stream_responses\<close> of the session. Without an exit code the command is still
  following.\<close>

definition execute_follow ::
  "(request \<Rightarrow> (string \<Rightarrow> stream \<Rightarrow> string \<Rightarrow> printed list) \<Rightarrow> (client_error + response) option \<times> printed list)
     \<Rightarrow> (nat \<Rightarrow> bool) \<Rightarrow> fs \<Rightarrow> io_error + string list \<Rightarrow> string \<Rightarrow> string option \<Rightarrow> nat \<Rightarrow> bool \<Rightarrow> bool
     \<Rightarrow> nat option \<Rightarrow> nat option \<Rightarrow> (i32 option \<times> printed list) option" where
  "execute_follow stream alloc fs entries dir target tail stderr all timeout lines =
     (case replay_follow_tail alloc fs entries dir target tail stderr all of
        None \<Rightarrow> None
      | Some (Some code, out) \<Rightarrow> Some (Some code, out)
      | Some (None, out) \<Rightarrow>
          (let show_prefix = (all \<or> target = None);
               req = ReqLogs target 0 True stderr (all \<or> target = None)
                       (case timeout of Some t \<Rightarrow> Some t | None \<Rightarrow> Some 30) lines;
               (res, out') =
                 stream req (\<lambda>process _ line. [PrintOut (if show_prefix then bracketed process line else line)])
           in Some (case res of
                 None \<Rightarrow> (None, out @ out')
               | Some (Inr (RespError code message)) \<Rightarrow>
                   (Some (exit_code code), out @ out' @ [PrintErr (''error: '' @ message)])
               | Some (Inr _) \<Rightarrow> (Some 0, out @ out')
               | Some (Inl e) \<Rightarrow> (Some 1, out @ out' @ [PrintErr (''error: '' @ client_error_display e)]))))"

definition no_logs :: "string \<Rightarrow> bool \<Rightarrow> string" where
  "no_logs target stderr =
     ''error: no logs for process '' @ [CHR 0x27] @ target @ [CHR 0x27] @ '' ('' @ log_stream stderr @ '')''"

definition logs_execute ::
  "(request \<Rightarrow> (string \<Rightarrow> stream \<Rightarrow> string \<Rightarrow> printed list) \<Rightarrow> (client_error + response) option \<times> printed list)
     \<Rightarrow> (nat \<Rightarrow> bool) \<Rightarrow> fs \<Rightarrow> io_error + string list \<Rightarrow> string \<Rightarrow> string option \<Rightarrow> nat \<Rightarrow> bool \<Rightarrow> bool \<Rightarrow> bool
     \<Rightarrow> nat option \<Rightarrow> nat option \<Rightarrow> (i32 option \<times> printed list) option" where
  "logs_execute stream alloc fs entries dir target tail follow stderr all timeout lines =
     (if follow then execute_follow stream alloc fs entries dir target tail stderr all timeout lines
      else if all \<or> target = None then
        map_option (\<lambda>(code, out). (Some code, out)) (show_all_logs alloc fs entries dir tail stderr)
      else
        (case tail_file alloc fs (path_join dir (the target @ ''.'' @ log_stream stderr)) tail of
           None \<Rightarrow> None
         | Some (Inr ls) \<Rightarrow> Some (Some 0, map PrintOut ls)
         | Some (Inl e) \<Rightarrow>
             Some (if io_kind e = KNotFound then (Some 2, [PrintErr (no_logs (the target) stderr)])
                   else (Some 1, [PrintErr (''error reading logs: '' @ io_text e)]))))"

section \<open>Sessions\<close>

definition ascii_lower :: "char \<Rightarrow> char" where
  "ascii_lower c = (if 65 \<le> (of_char c :: nat) \<and> (of_char c :: nat) \<le> 90 then char_of (of_char c + 32 :: nat) else c)"

text \<open>The PID files among the names of the runtime directory, each with its session's name.\<close>

definition pid_entries :: "string list \<Rightarrow> (string \<times> string) list" where
  "pid_entries names =
     map (\<lambda>name. (trim_end_matches ''.pid'' name, name))
       (filter
          (\<lambda>name. case path_extension name of None \<Rightarrow> False | Some ext \<Rightarrow> map ascii_lower ext = ''pid'')
          names)"

definition runtime_dir_usable :: "io_error + unit \<Rightarrow> bool \<times> printed list" where
  "runtime_dir_usable verified =
     (case verified of
        Inr _ \<Rightarrow> (True, [])
      | Inl e \<Rightarrow>
          (if io_kind e = KNotFound then (True, []) else (False, [PrintErr (''error: '' @ io_text e)])))"

definition entry_alive :: "(i32 \<Rightarrow> bool) \<Rightarrow> env_vars \<Rightarrow> fs \<Rightarrow> string \<Rightarrow> bool" where
  "entry_alive kill vars fs name = is_daemon_alive kill (fs_open (path_join (socket_base_dir vars) name) fs)"

definition session_list ::
  "(i32 \<Rightarrow> bool) \<Rightarrow> env_vars \<Rightarrow> io_error + unit \<Rightarrow> string list \<Rightarrow> fs \<Rightarrow> i32 \<times> printed list" where
  "session_list kill vars verified names fs =
     (case runtime_dir_usable verified of
        (False, out) \<Rightarrow> (1, out)
      | (True, _) \<Rightarrow>
          (0, if pid_entries names = [] then [PrintOut ''no active sessions'']
              else PrintOut (pad 20 ''SESSION'' @ '' STATUS'')
                # map (\<lambda>(session, name).
                         PrintOut (pad 20 session @ '' ''
                           @ (if entry_alive kill vars fs name then ''running'' else ''stale'')))
                    (pid_entries names)))"

text \<open>\<open>fs::remove_dir_all\<close>: the files below a directory.\<close>

definition fs_remove_dir_all :: "string \<Rightarrow> fs \<Rightarrow> fs" where
  "fs_remove_dir_all dir fs = (\<lambda>p. if str_starts_with (dir @ ''/'') p then None else fs p)"

definition clean_entry ::
  "(i32 \<Rightarrow> bool) \<Rightarrow> env_vars \<Rightarrow> string \<times> string \<Rightarrow> printed list \<times> fs \<Rightarrow> printed list \<times> fs" where
  "clean_entry kill vars =
     (\<lambda>(session, name) (out, fs).
        if entry_alive kill vars fs name then (out, fs)
        else
          (out @ [PrintOut (''cleaned stale session: '' @ session)],
           fs_remove_dir_all (state_dir vars session)
             (fs_remove (pid_path vars session) (fs_remove (fst (socket_path vars session)) fs))))"

definition session_clean ::
  "(i32 \<Rightarrow> bool) \<Rightarrow> env_vars \<Rightarrow> io_error + unit \<Rightarrow> string list \<Rightarrow> fs \<Rightarrow> i32 \<times> printed list \<times> fs" where
  "session_clean kill vars verified names fs =
     (case runtime_dir_usable verified of
        (False, out) \<Rightarrow> (1, out, fs)
      | (True, _) \<Rightarrow> (0, fold (clean_entry kill vars) (pid_entries names) ([], fs)))"

section \<open>The tail of a file\<close>

interpretation ring: recent_items "ring_step (Suc n)" "\<lambda>r. length r \<le> Suc n" "Suc n" "\<lambda>r. r" for n
proof
  fix b :: "string list" and x
  assume len: "length b \<le> Suc n"
  then show "length (ring_step (Suc n) x b) \<le> Suc n" by (auto simp: ring_step_def)
  show "ring_step (Suc n) x b = last_n (Suc n) (b @ [x])"
    using len by (cases b) (auto simp: ring_step_def last_n_def)
qed simp

lemma tail_file_last_n:
  assumes "fs path = Some content" and "with_capacity alloc n"
  shows "tail_file alloc fs path n = Some (Inr (last_n n (file_lines content)))"
proof (cases n)
  case 0
  then show ?thesis by (simp add: tail_file_def last_n_def)
next
  case (Suc m)
  have "fold (ring_step (Suc m)) ls [] = last_n (Suc m) ls" for ls
    using ring.pushes_recent [of "[]" m "[]" ls] by (simp add: last_n_def)
  with Suc assms show ?thesis by (simp add: tail_file_def fs_open_def)
qed

section \<open>Cleaning\<close>

text \<open>Files a cleaning step may take away: those of the entry's session, if it is not alive.\<close>

definition session_files :: "env_vars \<Rightarrow> string \<Rightarrow> string \<Rightarrow> bool" where
  "session_files vars session p \<longleftrightarrow>
     p = pid_path vars session \<or> p = fst (socket_path vars session) \<or>
     str_starts_with (state_dir vars session @ ''/'') p"

lemma clean_entry_files:
  "snd (clean_entry kill vars (session, name) (out, fs)) =
     (\<lambda>p. if \<not> entry_alive kill vars fs name \<and> session_files vars session p then None else fs p)"
  by (auto simp: clean_entry_def session_files_def fs_remove_dir_all_def fs_remove_def)

definition plain_session :: "string \<Rightarrow> bool" where
  "plain_session s \<longleftrightarrow> CHR ''/'' \<notin> set s"

lemma path_join_below:
  assumes "prefix (d @ ''/'') (path_join b x)" and "CHR ''/'' \<notin> set x"
  shows "prefix (d @ ''/'') (b @ ''/'')"
proof -
  have in_front: "prefix (d @ ''/'') t" if "prefix (d @ ''/'') (t @ x)" for t
  proof (rule ccontr)
    assume "\<not> prefix (d @ ''/'') t"
    with that obtain u where u: "d @ ''/'' = t @ u" "u \<noteq> []" "prefix u x"
      by (auto simp: prefix_append)
    from u(1) have "last (d @ ''/'') = last (t @ u)" by (rule arg_cong)
    with u(2) have "CHR ''/'' \<in> set u" by (metis last_appendR last_in_set last_snoc)
    with u(3) assms(2) show False by (auto simp: prefix_def)
  qed
  have "\<not> str_starts_with ''/'' x" using assms(2) by (cases x) (auto simp: str_starts_with_def)
  with assms(1) consider "b = []" "prefix (d @ ''/'') x" | "prefix (d @ ''/'') (b @ x)"
    | "prefix (d @ ''/'') ((b @ ''/'') @ x)"
    by (auto simp: path_join_def split: if_splits)
  then show ?thesis
  proof cases
    case 1
    then have "CHR ''/'' \<in> set x" by (auto simp: prefix_def)
    with assms(2) show ?thesis by simp
  next
    case 2
    then have "prefix (d @ ''/'') b" by (rule in_front)
    then show ?thesis by (rule prefix_prefix)
  next
    case 3
    then show ?thesis using in_front by blast
  qed
qed

lemma state_dir_split:
  assumes "plain_session s"
  obtains B where "\<And>t. plain_session t \<Longrightarrow> state_dir vars t = B @ ''/'' @ t"
proof -
  define b where "b = (case ev_xdg_state_home vars of
                    Some dir \<Rightarrow> dir
                  | None \<Rightarrow> (case ev_home vars of
                      Some home \<Rightarrow> path_join home ''.local/state''
                    | None \<Rightarrow> path_join (socket_base_dir vars) ''state''))"
  define B where "B = path_join b ''agent-procs/sessions''"
  have "B \<noteq> []" "last B \<noteq> CHR ''/''" by (auto simp: B_def path_join_def str_starts_with_def)
  then have "path_join B t = B @ ''/'' @ t" if "plain_session t" for t
    using that by (cases t) (auto simp: path_join_def plain_session_def str_starts_with_def)
  moreover have "state_dir vars t = path_join B t" for t by (simp add: state_dir_def b_def B_def Let_def)
  ultimately show ?thesis using that by metis
qed

lemma plain_split_inject:
  assumes "s @ CHR ''/'' # u = t @ CHR ''/'' # v" and "CHR ''/'' \<notin> set s" and "CHR ''/'' \<notin> set t"
  shows "s = t"
proof -
  have "takeWhile (\<lambda>c. c \<noteq> CHR ''/'') (x @ CHR ''/'' # y) = x" if "CHR ''/'' \<notin> set x" for x y
    using that by (induction x) auto
  with assms show ?thesis by metis
qed

lemma session_files_disjoint:
  assumes "plain_session s" and "plain_session t" and "session_files vars s p" and "session_files vars t p"
    and outside: "\<And>r. plain_session r \<Longrightarrow> \<not> str_starts_with (state_dir vars r @ ''/'') (socket_base_dir vars @ ''/'')"
  shows "s = t"
proof -
  have slash: "CHR ''/'' \<notin> set (r @ ''.pid'')" "CHR ''/'' \<notin> set (r @ ''.sock'')" if "plain_session r" for r
    using that by (simp_all add: plain_session_def)
  have top: "\<not> str_starts_with (state_dir vars r @ ''/'') (pid_path vars q)"
      "\<not> str_starts_with (state_dir vars r @ ''/'') (fst (socket_path vars q))"
    if "plain_session q" "plain_session r" for q r
    using outside [OF that(2)] slash [OF that(1)]
    by (auto simp: str_starts_with_def pid_path_def socket_path_def Let_def dest: path_join_below)
  have names: "pid_path vars s = pid_path vars t \<Longrightarrow> s = t"
      "fst (socket_path vars s) = fst (socket_path vars t) \<Longrightarrow> s = t"
      "pid_path vars s \<noteq> fst (socket_path vars t)" "pid_path vars t \<noteq> fst (socket_path vars s)"
    using slash [OF assms(1)] slash [OF assms(2)]
    by (auto simp: pid_path_def socket_path_def Let_def dest!: path_join_inject dest: arg_cong [of _ _ last])
  have "s = t" if below: "prefix (state_dir vars s @ ''/'') p" "prefix (state_dir vars t @ ''/'') p"
  proof -
    obtain B where B: "\<And>t. plain_session t \<Longrightarrow> state_dir vars t = B @ ''/'' @ t"
      using state_dir_split [OF assms(1)] by blast
    obtain u where u: "p = B @ ''/'' @ s @ ''/'' @ u" using below(1) by (auto simp: B assms(1) prefix_def)
    obtain v where "p = B @ ''/'' @ t @ ''/'' @ v" using below(2) by (auto simp: B assms(2) prefix_def)
    with u have "s @ CHR ''/'' # u = t @ CHR ''/'' # v" by simp
    then show ?thesis using plain_split_inject [of s u t v] assms(1,2) by (simp add: plain_session_def)
  qed
  with assms(3,4) names top [OF assms(1)] top [OF assms(2)] assms(1,2) show ?thesis
    unfolding session_files_def str_starts_with_def by metis
qed

text \<open>The file of an entry is a file of the session it is attributed to, or of none that is listed.\<close>

lemma trim_end_append: "pat \<noteq> [] \<Longrightarrow> trim_end_matches pat (s @ pat) = trim_end_matches pat s"
  by (subst trim_end_matches.simps) (simp add: str_ends_with_def suffix_def)

lemma trim_end_idem: "trim_end_matches pat (trim_end_matches pat s) = trim_end_matches pat s"
proof (induction pat s rule: trim_end_matches.induct)
  case (1 pat s)
  show ?case
  proof (cases "pat \<noteq> [] \<and> str_ends_with pat s")
    case True
    with 1 show ?thesis by (simp add: trim_end_matches.simps [of pat s])
  next
    case False
    then have "trim_end_matches pat s = s" by (simp only: trim_end_matches.simps [of pat s] if_False)
    then show ?thesis by simp
  qed
qed

lemma trim_end_prefix: "set (trim_end_matches pat s) \<subseteq> set s"
proof (induction pat s rule: trim_end_matches.induct)
  case (1 pat s)
  then show ?case by (subst trim_end_matches.simps) (auto dest: in_set_takeD)
qed

lemma sock_extension:
  assumes "CHR ''/'' \<notin> set t" and "path_extension (t @ ''.sock'') = Some ext"
  shows "ext = ''sock''"
proof -
  have "rsplit_at CHR ''/'' (t @ ''.sock'') = None"
  proof -
    have "takeWhile (\<lambda>x. x \<noteq> CHR ''/'') (rev (t @ ''.sock'')) = rev (t @ ''.sock'')"
      using assms(1) by (intro takeWhile_eq_all_conv [THEN iffD2]) auto
    then show ?thesis by (simp only: rsplit_at_def Let_def length_rev refl if_True)
  qed
  moreover have "rsplit_at CHR ''.'' (t @ CHR ''.'' # ''sock'') = Some (t, ''sock'')"
    by (intro rsplit_at_last) simp
  ultimately show ?thesis
    using assms(2) by (auto simp: path_extension_def split_file_name_def split_extension_def split: if_splits)
qed

lemma entry_file_session:
  assumes s: "(s, n) \<in> set (pid_entries names)" and t: "(t, n') \<in> set (pid_entries names)"
    and plain: "\<forall>name \<in> set names. CHR ''/'' \<notin> set name"
    and outside: "\<And>r. plain_session r \<Longrightarrow> \<not> str_starts_with (state_dir vars r @ ''/'') (socket_base_dir vars @ ''/'')"
    and hit: "session_files vars t (path_join (socket_base_dir vars) n)"
  shows "s = t"
proof -
  obtain ext where n: "CHR ''/'' \<notin> set n" "path_extension n = Some ext" "map ascii_lower ext = ''pid''"
      "s = trim_end_matches ''.pid'' n"
    using s plain by (auto simp: pid_entries_def split: option.splits)
  have t: "t = trim_end_matches ''.pid'' n'" "CHR ''/'' \<notin> set t"
    using t plain trim_end_prefix [of "''.pid''" n'] by (auto simp: pid_entries_def)
  have ne: "n \<noteq> []" using n(2) by (auto simp: path_extension_def split_file_name_def split_extension_def rsplit_at_def)
  have "\<not> str_starts_with (state_dir vars t @ ''/'') (path_join (socket_base_dir vars) n)"
    using outside [of t] t(2) path_join_below [OF _ n(1)] by (auto simp: plain_session_def str_starts_with_def)
  moreover have "n = t @ ''.pid''" if "path_join (socket_base_dir vars) n = pid_path vars t"
    using path_join_inject [OF that [unfolded pid_path_def] ne] t(2) n(1) by simp
  moreover have "n = t @ ''.sock''" if "path_join (socket_base_dir vars) n = fst (socket_path vars t)"
    using path_join_inject [OF that [unfolded socket_path_def Let_def fst_conv] ne] t(2) n(1) by simp
  ultimately consider "n = t @ ''.pid''" | "n = t @ ''.sock''"
    using hit by (auto simp: session_files_def)
  then show ?thesis
  proof cases
    case 1
    then have "s = trim_end_matches ''.pid'' t" by (simp add: n(4) trim_end_append)
    then show ?thesis by (simp add: t(1) trim_end_idem)
  next
    case 2
    with n(2,3) sock_extension [OF t(2)] have "map ascii_lower ''sock'' = ''pid''" by auto
    moreover have "map ascii_lower ''sock'' \<noteq> ''pid''" by code_simp
    ultimately show ?thesis by simp
  qed
qed

text \<open>What cleaning leaves: everything but the files of the sessions with a stale entry.\<close>

definition stale :: "(i32 \<Rightarrow> bool) \<Rightarrow> env_vars \<Rightarrow> fs \<Rightarrow> (string \<times> string) list \<Rightarrow> string \<Rightarrow> bool" where
  "stale kill vars fs es s \<longleftrightarrow> list_ex (\<lambda>(t, name). t = s \<and> \<not> entry_alive kill vars fs name) es"

lemma clean_all_files:
  assumes es: "set es \<subseteq> set (pid_entries names)" and plain: "\<forall>name \<in> set names. CHR ''/'' \<notin> set name"
    and outside: "\<And>r. plain_session r \<Longrightarrow> \<not> str_starts_with (state_dir vars r @ ''/'') (socket_base_dir vars @ ''/'')"
  shows "snd (fold (clean_entry kill vars) es (out, fs)) =
    (\<lambda>p. if \<exists>t. stale kill vars fs es t \<and> session_files vars t p then None else fs p)"
  using es
proof (induction es rule: rev_induct)
  case Nil
  then show ?case by (simp add: stale_def)
next
  case (snoc e es)
  obtain s n where e: "e = (s, n)" by (cases e)
  obtain out' cur where run: "fold (clean_entry kill vars) es (out, fs) = (out', cur)" by fastforce
  let ?file = "path_join (socket_base_dir vars) n"
  have cur: "cur = (\<lambda>p. if \<exists>t. stale kill vars fs es t \<and> session_files vars t p then None else fs p)"
    using snoc by (simp add: run)
  have step: "snd (fold (clean_entry kill vars) (es @ [e]) (out, fs)) =
      (\<lambda>p. if \<not> entry_alive kill vars cur n \<and> session_files vars s p then None else cur p)"
    by (simp add: run e clean_entry_files)
  have grown: "stale kill vars fs (es @ [e]) t \<longleftrightarrow>
      stale kill vars fs es t \<or> t = s \<and> \<not> entry_alive kill vars fs n" for t
    by (auto simp: stale_def e)
  show ?case
  proof (cases "\<exists>t. stale kill vars fs es t \<and> session_files vars t ?file")
    case True
    then obtain t m where t: "(t, m) \<in> set es" "stale kill vars fs es t" "session_files vars t ?file"
      by (auto simp: stale_def list_ex_iff)
    have "s = t"
      using entry_file_session [OF _ _ plain outside t(3), of s m] t(1) snoc.prems by (auto simp: e)
    with t(2) show ?thesis unfolding step grown cur by (auto simp: fun_eq_iff)
  next
    case False
    then have "cur ?file = fs ?file" unfolding cur by (simp only: if_False)
    then have "entry_alive kill vars cur n = entry_alive kill vars fs n"
      by (simp add: entry_alive_def fs_open_def)
    then show ?thesis unfolding step grown cur by (auto simp: fun_eq_iff)
  qed
qed

section \<open>Properties\<close>

text \<open>C37: \<open>logs\<close> prints the end of the log. What the command without \<open>--follow\<close> does for a process
  whose log file, if it is there, holds captured lines is this. Asked for no lines it prints nothing
  and succeeds, log or not. Asked for more, it says that there is no log, with exit code 2, when there
  is none; it prints exactly the last lines of the log, at most as many as asked for, in order, and
  succeeds, when it can reserve room for that many; and it dies without printing anything when it
  cannot, however short the log.\<close>

theorem logs_shows_tail:
  assumes "list_all log_line (map fst es)"
    and "log = path_join dir (target @ ''.'' @ (if stderr then ''stderr'' else ''stdout''))"
    and "fs log \<in> {None, Some (seg_text es)}"
  shows "logs_execute stream alloc fs entries dir (Some target) tail False stderr False timeout lines =
    (if tail = 0 then Some (Some 0, [])
     else if fs log = None then Some (Some 2, [PrintErr (no_logs target stderr)])
     else if with_capacity alloc tail then Some (Some 0, map PrintOut (drop (length es - tail) (map fst es)))
     else None)"
proof -
  have log: "path_join dir (target @ ''.'' @ log_stream stderr) = log"
    by (simp add: assms(2) log_stream_def)
  have "file_lines (seg_text es) = map fst es"
    using file_lines_text [OF assms(1)] by (simp add: seg_text_def comp_def)
  with log assms(3) tail_file_last_n [of fs log "seg_text es" alloc tail] show ?thesis
    by (auto simp: logs_execute_def last_n_def tail_file_def fs_open_def)
qed

theorem logs_shows_tail_witness:
  "logs_execute (\<lambda>_ _. (None, [])) (\<lambda>_. True)
     [''/logs/web.stdout'' \<mapsto> seg_text [(''boot'', 0), (''up'', 1), (''ready'', 2)]]
     (Inr []) ''/logs'' (Some ''web'') 2 False False False None None
   = Some (Some 0, [PrintOut ''up'', PrintOut ''ready''])"
proof -
  have "list_all log_line (map fst [(''boot'', 0 :: u64), (''up'', 1), (''ready'', 2)])"
    by (simp add: log_line_def)
  moreover have "''/logs/web.stdout'' = path_join ''/logs'' (''web'' @ ''.'' @ (if False then ''stderr'' else ''stdout''))"
    by (simp add: path_join_def str_starts_with_def)
  ultimately show ?thesis
    using logs_shows_tail [of "[(''boot'', 0), (''up'', 1), (''ready'', 2)]" "''/logs/web.stdout''" "''/logs''"
        "''web''" False "[''/logs/web.stdout'' \<mapsto> seg_text [(''boot'', 0), (''up'', 1), (''ready'', 2)]]"
        "\<lambda>_ _. (None, [])" "\<lambda>_. True" "Inr []" 2 None None]
    by (simp add: with_capacity_def)
qed


definition example_sessions :: fs where
  "example_sessions =
     [''/tmp/agent-procs-1000/web.pid'' \<mapsto> bytes_of (''42'' @ ''\<newline>''),
      ''/tmp/agent-procs-1000/old.pid'' \<mapsto> bytes_of (''7'' @ ''\<newline>'')]"

lemma example_base: "socket_base_dir example_vars = ''/tmp/agent-procs-1000''"
  by code_simp

lemma example_entries:
  "pid_entries [''web.pid'', ''web.sock'', ''old.pid''] = [(''web'', ''web.pid''), (''old'', ''old.pid'')]"
proof -
  have trim: "trim_end_matches ''.pid'' ''web.pid'' = ''web''" "trim_end_matches ''.pid'' ''old.pid'' = ''old''"
    by (simp_all add: trim_end_matches.simps str_ends_with_def suffix_def)
  have "path_extension ''web.pid'' = Some ''pid''" "path_extension ''web.sock'' = Some ''sock''"
      "path_extension ''old.pid'' = Some ''pid''" "map ascii_lower ''pid'' = ''pid''"
      "map ascii_lower ''sock'' \<noteq> ''pid''"
    by code_simp+
  with trim show ?thesis by (simp add: pid_entries_def)
qed


end
