(* ===== verification/Client_Up.thy ===== *)
theory Client_Up
  imports Client_Commands
begin

text \<open>
  \<open>src/cli/up.rs\<close>: starting the processes of the project file, group by group in the startup order. The
  requests are returned in the batches in which they are sent: those of one batch are sent
  concurrently, and a batch is sent when every request of the one before was answered.
\<close>

section \<open>Requests\<close>

definition process_of :: "project_config \<Rightarrow> string \<Rightarrow> process_def" where
  "process_of cfg name = the (hm_get (pc_processes cfg) name)"

definition resolved_cwd :: "string \<Rightarrow> process_def \<Rightarrow> string option" where
  "resolved_cwd path d =
     map_option
       (\<lambda>c. if \<not> str_starts_with ''/'' c
            then path_join (case path_parent path of Some p \<Rightarrow> p | None \<Rightarrow> ''.'') c
            else c)
       (pd_cwd d)"

definition run_request :: "string \<Rightarrow> project_config \<Rightarrow> string \<Rightarrow> request" where
  "run_request path cfg name =
     (let d = process_of cfg name;
          env = (if pd_env d = [] then None else Some (pd_env d));
          restart = map_option (\<lambda>m. restart_policy_from_args m (pd_max_restarts d) (pd_restart_delay d)) (pd_autorestart d);
          watch = Option.bind (pd_watch d)
                    (\<lambda>paths. watch_config_from_args paths (case pd_watch_ignore d of Some is \<Rightarrow> is | None \<Rightarrow> []))
      in ReqRun (pd_cmd d) (Some name) (resolved_cwd path d) env (pd_port d) restart watch)"

definition ready_request :: "project_config \<Rightarrow> string \<Rightarrow> request option" where
  "ready_request cfg name =
     map_option (\<lambda>ready. ReqWait name (Some ready) False False (Some 30)) (pd_ready (process_of cfg name))"

section \<open>Results\<close>

type_synonym answer = "client_error + response"

text \<open>The results of a batch in order; an exit code ends the command.\<close>

fun start_results :: "(string \<times> answer) list \<Rightarrow> i32 option \<times> printed list" where
  "start_results [] = (None, [])"
| "start_results ((name, result) # rs) =
     (case result of
        Inr (RespRunOk name' pid_name pid _ url) \<Rightarrow>
          (let (code, out) = start_results rs
           in (code,
               PrintOut
                 (''started '' @ name' @ '' (id: '' @ pid_name @ '', pid: '' @ dec_word pid
                   @ (case url of Some u \<Rightarrow> '', '' @ u | None \<Rightarrow> []) @ '')'') # out))
      | Inr (RespError code message) \<Rightarrow>
          (Some (exit_code code), [PrintErr (''error starting '' @ name @ '': '' @ message)])
      | _ \<Rightarrow> (Some 1, []))"

fun ready_results :: "(string \<times> answer) list \<Rightarrow> i32 option \<times> printed list" where
  "ready_results [] = (None, [])"
| "ready_results ((name, result) # rs) =
     (case result of
        Inr (RespError code message) \<Rightarrow>
          (Some 1, [PrintErr (''error waiting for '' @ name @ '': '' @ message)])
      | _ \<Rightarrow>
          (let (code, out) = ready_results rs
           in (code,
               (case result of
                  Inr (RespWaitMatch _) \<Rightarrow> [PrintOut (name @ '' is ready'')]
                | Inr RespWaitTimeout \<Rightarrow>
                    [PrintErr (''warning: '' @ name @ '' did not become ready within 30s'')]
                | _ \<Rightarrow> []) @ out)))"

section \<open>The groups\<close>

definition selected :: "string list option \<Rightarrow> string \<Rightarrow> bool" where
  "selected only name = (case only of None \<Rightarrow> True | Some names \<Rightarrow> name \<in> set names)"

definition ready_batch :: "project_config \<Rightarrow> string list \<Rightarrow> (string \<times> request) list" where
  "ready_batch cfg names =
     List.map_filter (\<lambda>name. map_option (\<lambda>req. (name, req)) (ready_request cfg name)) names"

fun up_groups ::
  "asker \<Rightarrow> string \<Rightarrow> project_config \<Rightarrow> string list option \<Rightarrow> string list list
     \<Rightarrow> i32 \<times> printed list \<times> request list list" where
  "up_groups ask path cfg only [] = (0, [PrintOut ''all processes started''], [])"
| "up_groups ask path cfg only (g # groups) =
     (let names = filter (selected only) g;
          runs = map (run_request path cfg) names
      in case start_results (map (\<lambda>name. (name, ask (run_request path cfg name) True)) names) of
           (Some code, out) \<Rightarrow> (code, out, [runs])
         | (None, out) \<Rightarrow>
             (let waits = ready_batch cfg names
              in case ready_results (map (\<lambda>(name, req). (name, ask req False)) waits) of
                   (Some code, out') \<Rightarrow> (code, out @ out', [runs, map snd waits])
                 | (None, out') \<Rightarrow>
                     (let (code, out'', sent) = up_groups ask path cfg only groups
                      in (code, out @ out' @ out'', runs # map snd waits # sent))))"

text \<open>\<open>ask\<close> is how a session's daemon is asked.\<close>

definition up_execute ::
  "(string \<Rightarrow> asker) \<Rightarrow> fs \<Rightarrow> io_error + string \<Rightarrow> (string \<Rightarrow> string + project_config) \<Rightarrow> string option
     \<Rightarrow> string option \<Rightarrow> string option \<Rightarrow> bool \<Rightarrow> i32 \<times> printed list \<times> request list list" where
  "up_execute ask fs cwd parse cli_session only config_path proxy =
     (case load_config fs cwd parse config_path of
        Inl e \<Rightarrow> (1, [PrintErr (''error: '' @ config_error_display e)], [])
      | Inr (path, cfg) \<Rightarrow>
          (let session = resolve_session cli_session (pc_session cfg);
               only_set = map_option (str_split CHR '','') only
           in case startup_order cfg of
                Inl e \<Rightarrow> (1, [PrintErr (''error: '' @ config_error_display e)], [])
              | Inr groups \<Rightarrow>
                  (if proxy \<or> pc_proxy cfg = Some True then
                     (case enable_proxy (ask session) (pc_proxy_port cfg) of
                        (Some code, out) \<Rightarrow> (code, out, [[ReqEnableProxy (pc_proxy_port cfg)]])
                      | (None, out) \<Rightarrow>
                          (let (code, out', sent) = up_groups (ask session) path cfg only_set groups
                           in (code, out @ out', [ReqEnableProxy (pc_proxy_port cfg)] # sent)))
                   else up_groups (ask session) path cfg only_set groups)))"

section \<open>What was started\<close>

definition started_ok :: "asker \<Rightarrow> string \<Rightarrow> project_config \<Rightarrow> string \<Rightarrow> bool" where
  "started_ok ask path cfg name \<longleftrightarrow>
     (\<exists>n i pid port url. ask (run_request path cfg name) True = Inr (RespRunOk n i pid port url))"

definition waited_ok :: "asker \<Rightarrow> project_config \<Rightarrow> string \<Rightarrow> bool" where
  "waited_ok ask cfg name \<longleftrightarrow>
     (\<forall>req. ready_request cfg name = Some req \<longrightarrow> (\<forall>c m. ask req False \<noteq> Inr (RespError c m)))"

lemma run_request_name: "run_request path cfg n = run_request path cfg m \<longleftrightarrow> n = m"
  by (auto simp: run_request_def Let_def)

lemma ready_not_run: "ready_request cfg d = Some req \<Longrightarrow> req \<noteq> run_request path cfg n"
  by (auto simp: ready_request_def run_request_def Let_def)

lemma start_results_all:
  "start_results rs = (None, out) \<Longrightarrow>
     \<forall>(name, res) \<in> set rs. \<exists>n i pid port url. res = Inr (RespRunOk n i pid port url)"
proof (induction rs arbitrary: out)
  case (Cons r rs)
  then show ?case by (cases r) (auto split: sum.splits response.splits prod.splits)
qed simp

lemma ready_results_all:
  "ready_results rs = (None, out) \<Longrightarrow> \<forall>(name, res) \<in> set rs. \<forall>c m. res \<noteq> Inr (RespError c m)"
proof (induction rs arbitrary: out)
  case (Cons r rs)
  then show ?case by (cases r) (auto split: sum.splits response.splits prod.splits)
qed simp

lemma start_results_code: "start_results rs = (Some code, out) \<Longrightarrow> code \<noteq> 0"
proof (induction rs arbitrary: out)
  case (Cons r rs)
  then show ?case
    by (cases r) (auto simp: exit_code_def split: sum.splits response.splits prod.splits error_code.splits)
qed simp

lemma ready_results_code: "ready_results rs = (Some code, out) \<Longrightarrow> code \<noteq> 0"
proof (induction rs arbitrary: out)
  case (Cons r rs)
  then show ?case by (cases r) (auto split: sum.splits response.splits prod.splits)
qed simp

lemma ready_batch_set:
  "(name, req) \<in> set (ready_batch cfg names) \<longleftrightarrow> name \<in> set names \<and> ready_request cfg name = Some req"
  by (induction names) (auto simp: ready_batch_def List.map_filter_simps split: option.splits)

text \<open>One group: what was sent for it, and what that tells when the next group is reached.\<close>

lemma up_groups_Cons:
  assumes "up_groups ask path cfg only (g # groups) = (code, out, sent)"
  defines "names \<equiv> filter (selected only) g"
  obtains
    (failed) "code \<noteq> 0" and "sent = [map (run_request path cfg) names]
      \<or> sent = [map (run_request path cfg) names, map snd (ready_batch cfg names)]"
  | (passed) out' sent' where "up_groups ask path cfg only groups = (code, out', sent')"
      and "sent = map (run_request path cfg) names # map snd (ready_batch cfg names) # sent'"
      and "\<forall>n \<in> set names. started_ok ask path cfg n \<and> waited_ok ask cfg n"
proof -
  obtain c1 o1 where start: "start_results (map (\<lambda>name. (name, ask (run_request path cfg name) True)) names) = (c1, o1)"
    by fastforce
  show ?thesis
  proof (cases c1)
    case (Some code')
    with assms(1) start have "code = code'" "sent = [map (run_request path cfg) names]"
      by (simp_all add: Let_def flip: names_def)
    with start_results_code [OF start [unfolded Some]] show ?thesis using failed by blast
  next
    case None
    obtain c2 o2 where ready: "ready_results (map (\<lambda>(name, req). (name, ask req False)) (ready_batch cfg names)) = (c2, o2)"
      by fastforce
    show ?thesis
    proof (cases c2)
      case (Some code')
      with assms(1) start ready None have "code = code'"
          "sent = [map (run_request path cfg) names, map snd (ready_batch cfg names)]"
        by (simp_all add: Let_def flip: names_def)
      with ready_results_code [OF ready [unfolded Some]] show ?thesis using failed by blast
    next
      case (None)
      obtain c3 o3 s3 where rest: "up_groups ask path cfg only groups = (c3, o3, s3)" by (metis prod.exhaust)
      have "started_ok ask path cfg n" if "n \<in> set names" for n
        using start_results_all [OF start [unfolded \<open>c1 = None\<close>]] that by (auto simp: started_ok_def)
      moreover have "waited_ok ask cfg n" if "n \<in> set names" for n
        using ready_results_all [OF ready [unfolded None]] ready_batch_set [of n _ cfg names] that
        unfolding waited_ok_def by fastforce
      moreover have "c3 = code" "sent = map (run_request path cfg) names # map snd (ready_batch cfg names) # s3"
        using assms(1) start ready None \<open>c1 = None\<close> rest by (simp_all add: Let_def flip: names_def)
      ultimately show ?thesis using passed rest by blast
    qed
  qed
qed

declare up_groups.simps(2) [simp del]

lemma up_groups_order:
  assumes "up_groups ask path cfg only groups = (code, out, sent)" and "staged (pc_processes cfg) R groups"
    and "sent = pre @ batch # post" and "run_request path cfg n \<in> set batch"
    and "d \<in> set (deps_of (pc_processes cfg) n)" and "d \<notin> R" and "selected only d"
  shows "run_request path cfg d \<in> set (concat pre) \<and> started_ok ask path cfg d \<and> waited_ok ask cfg d \<and>
    (\<forall>req. ready_request cfg d = Some req \<longrightarrow> req \<in> set (concat pre))"
  using assms
proof (induction groups arbitrary: R out sent pre)
  case (Cons g groups)
  define names where "names = filter (selected only) g"
  have g: "set g = {n \<in> fst ` set (pc_processes cfg) - R. set (deps_of (pc_processes cfg) n) \<subseteq> R}"
    and st: "staged (pc_processes cfg) (R \<union> set g) groups"
    using Cons.prems(2) unfolding staged.simps by blast+
  have no_first: "batch \<noteq> map (run_request path cfg) names"
  proof
    assume "batch = map (run_request path cfg) names"
    with Cons.prems(4) have "n \<in> set g" by (auto simp: names_def run_request_name)
    with g Cons.prems(5,6) show False by blast
  qed
  have no_wait: "batch \<noteq> map snd (ready_batch cfg names)"
  proof
    assume "batch = map snd (ready_batch cfg names)"
    with Cons.prems(4) obtain m where "(m, run_request path cfg n) \<in> set (ready_batch cfg names)" by auto
    then show False using ready_not_run [of cfg m] by (auto simp: ready_batch_set)
  qed
  from Cons.prems(1) show ?case
  proof (cases rule: up_groups_Cons)
    case failed
    with no_first no_wait Cons.prems(3) show ?thesis
      by (auto simp: append_eq_Cons_conv simp flip: names_def)
  next
    case (passed out' sent')
    then obtain pre' where pre: "pre = map (run_request path cfg) names # map snd (ready_batch cfg names) # pre'"
        "sent' = pre' @ batch # post"
      using no_first no_wait Cons.prems(3) by (auto simp: append_eq_Cons_conv Cons_eq_append_conv simp flip: names_def)
    show ?thesis
    proof (cases "d \<in> set g")
      case True
      then have d: "d \<in> set names" using Cons.prems(7) by (simp add: names_def)
      then have "req \<in> snd ` set (ready_batch cfg names)" if "ready_request cfg d = Some req" for req
        using that d by (intro image_eqI [of _ snd "(d, req)"]) (simp_all add: ready_batch_set)
      with d passed(3) show ?thesis by (simp add: pre(1) names_def)
    next
      case False
      with Cons.IH [OF passed(1) st pre(2) Cons.prems(4,5) _ Cons.prems(7)] Cons.prems(6)
      show ?thesis by (auto simp: pre(1))
    qed
  qed
qed simp

lemma up_groups_all:
  assumes "up_groups ask path cfg only groups = (0, out, sent)" and "n \<in> set (concat groups)" and "selected only n"
  shows "run_request path cfg n \<in> set (concat sent) \<and> started_ok ask path cfg n"
  using assms
proof (induction groups arbitrary: out sent)
  case (Cons g groups)
  from Cons.prems(1) show ?case
  proof (cases rule: up_groups_Cons)
    case (passed out' sent')
    with Cons.prems Cons.IH [OF passed(1)] show ?thesis by (cases "n \<in> set g") auto
  qed simp
qed simp

section \<open>Properties\<close>

lemma up_execute_groups:
  assumes load: "load_config fs cwd parse config_path = Inr (path, cfg)"
    and run: "up_execute ask fs cwd parse cli_session only config_path proxy = (code, out, sent)"
    and dm: "daemon = ask (resolve_session cli_session (pc_session cfg))"
    and order: "startup_order cfg = Inr groups"
  shows "\<exists>first out' sent'. (first = [] \<or> first = [[ReqEnableProxy (pc_proxy_port cfg)]]) \<and> sent = first @ sent' \<and>
      (up_groups daemon path cfg (map_option (str_split CHR '','') only) groups = (code, out', sent') \<or> code \<noteq> 0 \<and> sent' = [])"
proof (cases "proxy \<or> pc_proxy cfg = Some True")
  case False
  then have "up_groups daemon path cfg (map_option (str_split CHR '','') only) groups = (code, out, sent)"
    using load run order by (simp add: up_execute_def dm Let_def)
  then show ?thesis by auto
next
  case True
  obtain c o1 where en: "enable_proxy daemon (pc_proxy_port cfg) = (c, o1)" by fastforce
  show ?thesis
  proof (cases c)
    case None
    obtain c3 o3 s3 where "up_groups daemon path cfg (map_option (str_split CHR '','') only) groups = (c3, o3, s3)" by (metis prod.exhaust)
    with True None en load run order show ?thesis
      by (auto simp: up_execute_def dm Let_def intro!: exI [of _ "[[ReqEnableProxy (pc_proxy_port cfg)]]"])
  next
    case (Some code')
    then have "code' \<noteq> 0"
      using en by (auto simp: enable_proxy_def exit_code_def split: sum.splits response.splits error_code.splits)
    with True Some en load run order show ?thesis
      by (auto simp: up_execute_def dm Let_def intro!: exI [of _ "[[ReqEnableProxy (pc_proxy_port cfg)]]"])
  qed
qed

text \<open>C39: \<open>up\<close> starts nothing before its dependencies. Whatever the daemon answers, when the request
  that starts a process is sent, the requests that start those of its dependencies that are selected
  were sent in earlier batches and answered with success, and if a dependency has a ready pattern, the
  wait for it was sent and answered without an error. When the command succeeds, every selected
  process was started.\<close>

theorem up_starts_dependencies_first:
  assumes "distinct (hm_keys (pc_processes cfg))" and "load_config fs cwd parse config_path = Inr (path, cfg)"
    and "up_execute ask fs cwd parse cli_session only config_path proxy = (code, out, sent)"
    and "daemon = ask (resolve_session cli_session (pc_session cfg))"
    and "selected (map_option (str_split CHR '','') only) d" and "d \<in> fst ` set (pc_processes cfg)"
  shows "(sent = pre @ batch # post \<and> run_request path cfg n \<in> set batch \<and> d \<in> set (deps_of (pc_processes cfg) n) \<longrightarrow>
      run_request path cfg d \<in> set (concat pre) \<and>
      (\<exists>name i pid port url. daemon (run_request path cfg d) True = Inr (RespRunOk name i pid port url)) \<and>
      (\<forall>req. ready_request cfg d = Some req \<longrightarrow>
         req \<in> set (concat pre) \<and> (\<forall>c m. daemon req False \<noteq> Inr (RespError c m)))) \<and>
    (code = 0 \<longrightarrow>
      run_request path cfg d \<in> set (concat sent) \<and>
      (\<exists>name i pid port url. daemon (run_request path cfg d) True = Inr (RespRunOk name i pid port url)))"
proof (cases "startup_order cfg")
  case (Inl e)
  then have "code = 1" "sent = []" using assms(2,3) by (simp_all add: up_execute_def)
  then show ?thesis by simp
next
  case (Inr groups)
  let ?only = "map_option (str_split CHR '','') only"
  have st: "staged (pc_processes cfg) {} groups" using startup_order_cases [OF assms(1)] Inr by simp
  have all: "d \<in> set (concat groups)" using staged_facts(1) [OF st] assms(6) by simp
  from up_execute_groups [OF assms(2,3,4) Inr] obtain first out' sent' where first: "first = [] \<or> first = [[ReqEnableProxy (pc_proxy_port cfg)]]"
      "sent = first @ sent'"
    and groups: "up_groups daemon path cfg ?only groups = (code, out', sent') \<or> code \<noteq> 0 \<and> sent' = []" by blast
  have no_run: "run_request path cfg n \<notin> set (concat first)"
    using first(1) by (auto simp: run_request_def Let_def)
  have order: "run_request path cfg d \<in> set (concat pre) \<and> started_ok daemon path cfg d \<and> waited_ok daemon cfg d \<and>
      (\<forall>req. ready_request cfg d = Some req \<longrightarrow> req \<in> set (concat pre))"
    if split: "sent = pre @ batch # post" and "run_request path cfg n \<in> set batch"
      and "d \<in> set (deps_of (pc_processes cfg) n)"
  proof -
    have "batch \<notin> set first" using no_run that(2) by auto
    with first(1) split have "length first \<le> length pre" unfolding first(2) by (cases pre) auto
    with split first(2) obtain pre' where pre: "pre = first @ pre'" "sent' = pre' @ batch # post"
      by (auto simp: append_eq_append_conv_if) (metis append_take_drop_id append_eq_conv_conj)
    with groups have "up_groups daemon path cfg ?only groups = (code, out', sent')" by auto
    from up_groups_order [OF this st pre(2) that(2,3) _ assms(5)] show ?thesis by (auto simp: pre(1))
  qed
  moreover have "run_request path cfg d \<in> set (concat sent) \<and> started_ok daemon path cfg d" if "code = 0"
    using groups up_groups_all [OF _ all assms(5)] first(2) that by auto
  ultimately show ?thesis unfolding started_ok_def waited_ok_def by blast
qed

definition example_daemon :: "string \<Rightarrow> asker" where
  "example_daemon session req spawn =
     (case req of
        ReqRun _ (Some name) _ _ port _ _ \<Rightarrow> Inr (RespRunOk name ''p1'' 4242 port None)
      | _ \<Rightarrow> Inr (RespOk []))"

lemma example_daemon_run:
  "example_daemon session (run_request path cfg n) spawn
     = Inr (RespRunOk n ''p1'' 4242 (pd_port (process_of cfg n)) None)"
  by (simp add: example_daemon_def run_request_def Let_def)

lemma example_up_groups:
  "fst (up_groups (example_daemon session) path example_config None [[''db''], [''api''], [''web'']]) = 0"
  "snd (snd (up_groups (example_daemon session) path example_config None [[''db''], [''api''], [''web'']]))
     = [[run_request path example_config ''db''], [], [run_request path example_config ''api''], [],
        [run_request path example_config ''web''], []]"
  by (simp_all add: up_groups.simps(2) selected_def example_daemon_run ready_batch_def List.map_filter_simps
      ready_request_def process_of_def example_config_def example_def_def Let_def case_prod_unfold)

theorem up_starts_dependencies_first_witness:
  "let sent = snd (snd (up_execute example_daemon [''/w/agent-procs.yaml'' \<mapsto> []] (Inr ''/w'') (\<lambda>_. Inr example_config)
       None None (Some ''/w/agent-procs.yaml'') False));
       run = run_request ''/w/agent-procs.yaml'' example_config
   in sent = [[run ''db''], [], [run ''api''], [], [run ''web''], []] \<and> run ''db'' \<in> set (concat (take 4 sent))"
proof -
  let ?run = "run_request ''/w/agent-procs.yaml'' example_config"
  let ?up = "up_execute example_daemon [''/w/agent-procs.yaml'' \<mapsto> []] (Inr ''/w'') (\<lambda>_. Inr example_config)
       None None (Some ''/w/agent-procs.yaml'') False"
  have d: "distinct (hm_keys (pc_processes example_config))" by (simp add: example_config_def)
  have load: "load_config [''/w/agent-procs.yaml'' \<mapsto> []] (Inr ''/w'') (\<lambda>_. Inr example_config)
      (Some ''/w/agent-procs.yaml'') = Inr (''/w/agent-procs.yaml'', example_config)"
    by (simp add: load_config_def fs_open_def)
  have no_proxy: "pc_proxy example_config = None" by (simp add: example_config_def)
  have up: "?up = up_groups (example_daemon (resolve_session None (pc_session example_config)))
      ''/w/agent-procs.yaml'' example_config None [[''db''], [''api''], [''web'']]"
    unfolding up_execute_def load by (simp add: example_order no_proxy Let_def)
  obtain code out sent where run: "?up = (code, out, sent)" by (metis prod.exhaust)
  have sent: "sent = [[?run ''db''], [], [?run ''api''], []] @ [?run ''web''] # [[]]"
    using run up example_up_groups(2) [of "resolve_session None (pc_session example_config)" "''/w/agent-procs.yaml''"]
    by simp
  have "selected (map_option (str_split CHR '','') None) ''db''" by (simp add: selected_def)
  moreover have "''db'' \<in> fst ` set (pc_processes example_config)" by (simp add: example_config_def)
  moreover have "''db'' \<in> set (deps_of (pc_processes example_config) ''web'')"
    by (simp add: example_config_def example_def_def)
  ultimately have "?run ''db'' \<in> set (concat [[?run ''db''], [], [?run ''api''], []])"
    using conjunct1 [OF up_starts_dependencies_first [OF d load run refl], THEN mp] sent by simp
  with run sent show ?thesis by (simp add: Let_def)
qed

end
