(* ===== verification/Client_Main.thy ===== *)
theory Client_Main
  imports Client_Up
begin

text \<open>
  The commands of \<open>src/main.rs\<close> and their dispatch. What a command finds outside is the record
  \<open>main_env\<close>; the argument parser, the shell completions and the terminal interface are fields of it.
  The result is the exit code, or none while \<open>logs --follow\<close> is still following, or when reading the
  tail of a log has ended the program by a panic or an abort.
\<close>

datatype commands =
    CRun string "string option" "u16 option" bool "string option" "u32 option" "u64 option" "string list" "string list"
  | CStop string
  | CStopAll
  | CRestart string
  | CStatus bool
  | CLogs "string option" nat bool bool bool "nat option" "nat option"
  | CWait string "string option" bool bool "nat option"
  | CUp "string option" "string option" bool
  | CDown
  | CSessionList
  | CSessionClean
  | CUi
  | CCompletions string
  | CRunDaemon string

record main_env =
  me_ask :: "string \<Rightarrow> asker"
  me_stream :: "string \<Rightarrow> request \<Rightarrow> (string \<Rightarrow> stream \<Rightarrow> string \<Rightarrow> printed list)
    \<Rightarrow> (client_error + response) option \<times> printed list"
  me_vars :: env_vars
  me_fs :: fs
  me_alloc :: "nat \<Rightarrow> bool"
  me_cwd :: "io_error + string"
  me_parse_yaml :: "string \<Rightarrow> string + project_config"
  me_to_json :: "process_info list \<Rightarrow> string + string"
  me_log_names :: "string \<Rightarrow> io_error + string list"
  me_kill :: "i32 \<Rightarrow> bool"
  me_verified :: "io_error + unit"
  me_runtime_names :: "string list"
  me_ui :: "string \<Rightarrow> i32"
  me_run_daemon :: "string \<Rightarrow> i32"

definition session_of :: "string option \<Rightarrow> string" where
  "session_of cli_session = (case cli_session of Some s \<Rightarrow> s | None \<Rightarrow> DEFAULT_SESSION)"

definition client_main :: "main_env \<Rightarrow> string option \<Rightarrow> commands \<Rightarrow> i32 option" where
  "client_main ev cli_session cmd =
     (let session = session_of cli_session; ask = me_ask ev session
      in case cmd of
           CRunDaemon s \<Rightarrow> Some (me_run_daemon ev s)
         | CRun command name port proxy autorestart max_restarts restart_delay watch watch_ignore \<Rightarrow>
             Some (fst (run_execute ask command name port proxy autorestart max_restarts restart_delay watch watch_ignore))
         | CStop target \<Rightarrow> Some (fst (stop_execute ask target))
         | CStopAll \<Rightarrow> Some (fst (stop_execute_all ask))
         | CRestart target \<Rightarrow> Some (fst (restart_execute ask target))
         | CStatus json \<Rightarrow> Some (fst (status_execute ask (me_to_json ev) json))
         | CLogs target tail follow stderr all timeout lines \<Rightarrow>
             (let dir = log_dir (me_vars ev) session
              in (case logs_execute (me_stream ev session) (me_alloc ev) (me_fs ev) (me_log_names ev dir) dir
                         target tail follow stderr all timeout lines of
                    None \<Rightarrow> None
                  | Some (code, _) \<Rightarrow> code))
         | CWait target until regex exit timeout \<Rightarrow> Some (fst (wait_execute ask target until regex exit timeout))
         | CUp only config proxy \<Rightarrow>
             Some (fst (up_execute (me_ask ev) (me_fs ev) (me_cwd ev) (me_parse_yaml ev) cli_session only config proxy))
         | CDown \<Rightarrow> Some (fst (down_execute (me_ask ev) (me_fs ev) (me_cwd ev) (me_parse_yaml ev) cli_session))
         | CSessionList \<Rightarrow>
             Some (fst (session_list (me_kill ev) (me_vars ev) (me_verified ev) (me_runtime_names ev) (me_fs ev)))
         | CSessionClean \<Rightarrow>
             Some (fst (session_clean (me_kill ev) (me_vars ev) (me_verified ev) (me_runtime_names ev) (me_fs ev)))
         | CUi \<Rightarrow> Some (me_ui ev session)
         | CCompletions shell \<Rightarrow> Some 0)"

section \<open>Exit codes\<close>

text \<open>The one request a command sends, with whether it may start the daemon, and the answers that are
  its success.\<close>

fun request_of :: "commands \<Rightarrow> (request \<times> bool) option" where
  "request_of (CRun command name port False autorestart max_restarts restart_delay watch watch_ignore) =
     Some (ReqRun command name None None port
             (map_option (\<lambda>m. restart_policy_from_args m max_restarts restart_delay) autorestart)
             (watch_config_from_args watch watch_ignore), True)"
| "request_of (CStop target) = Some (ReqStop target, False)"
| "request_of CStopAll = Some (ReqStopAll, False)"
| "request_of (CRestart target) = Some (ReqRestart target, False)"
| "request_of (CStatus json) = Some (ReqStatus, False)"
| "request_of (CWait target until regex exit timeout) = Some (ReqWait target until regex exit timeout, False)"
| "request_of CDown = Some (ReqStopAll, False)"
| "request_of _ = None"

fun is_success :: "(process_info list \<Rightarrow> string + string) \<Rightarrow> commands \<Rightarrow> response \<Rightarrow> bool" where
  "is_success to_json (CRun _ _ _ _ _ _ _ _ _) (RespRunOk _ _ _ _ _) = True"
| "is_success to_json (CStop _) (RespOk _) = True"
| "is_success to_json CStopAll (RespOk _) = True"
| "is_success to_json CDown (RespOk _) = True"
| "is_success to_json (CRestart _) (RespRunOk _ _ _ _ _) = True"
| "is_success to_json (CStatus json) (RespStatus ps) = (json \<longrightarrow> (\<exists>text. to_json ps = Inr text))"
| "is_success to_json (CWait _ _ _ _ _) (RespWaitMatch _) = True"
| "is_success to_json (CWait _ _ _ _ _) (RespWaitExited _) = True"
| "is_success _ _ _ = False"

text \<open>The exit code when only the outcome counts.\<close>

definition code_of :: "answer \<Rightarrow> (response \<Rightarrow> bool) \<Rightarrow> i32" where
  "code_of res good =
     (case res of
        Inl _ \<Rightarrow> 1
      | Inr (RespError c _) \<Rightarrow> exit_code c
      | Inr resp \<Rightarrow> (if good resp then 0 else 1))"

lemma handle_code:
  assumes "\<And>resp. (\<forall>c m. resp \<noteq> RespError c m) \<Longrightarrow> fst (f resp) = (if good resp then Some 0 else None)
    \<or> fst (f resp) = (if good resp then Some 0 else Some 1)"
  shows "fst (request_and_handle res f) = code_of res good"
proof (cases res)
  case (Inr resp)
  then show ?thesis
    using assms [of resp]
    by (cases resp; cases "f resp"; cases "good resp") (auto simp: request_and_handle_def code_of_def)
qed (simp add: request_and_handle_def code_of_def)

text \<open>The session a command asks.\<close>

definition asked_session :: "main_env \<Rightarrow> string option \<Rightarrow> commands \<Rightarrow> string" where
  "asked_session ev cli_session cmd =
     (if cmd = CDown then down_session (me_fs ev) (me_cwd ev) (me_parse_yaml ev) cli_session
      else session_of cli_session)"

fun_cases request_of_cases: "request_of cmd = Some (req, spawn)"

lemmas command_defs = client_main_def asked_session_def run_execute_def stop_execute_def stop_execute_all_def
  restart_execute_def status_execute_def wait_execute_def down_execute_def print_ok_def

lemma command_code:
  assumes "request_of cmd = Some (req, spawn)"
  shows "client_main ev cli_session cmd
    = Some (code_of (me_ask ev (asked_session ev cli_session cmd) req spawn) (is_success (me_to_json ev) cmd))"
  using assms
  by (elim request_of_cases)
    (auto simp: command_defs Let_def case_prod_unfold intro!: handle_code
      split: response.split sum.split option.split)

text \<open>C35: exit codes say what happened. A command that asks the daemon one thing (\<open>run\<close>, \<open>stop\<close>,
  \<open>stop-all\<close>, \<open>restart\<close>, \<open>status\<close>, \<open>wait\<close>, \<open>down\<close>) exits with 0 exactly when the daemon answered with
  the command's success, with the daemon's own code when it answered with an error, and with 1 in every
  other case: no daemon, a broken connection, a timeout, an unexpected answer.\<close>

theorem exit_codes:
  assumes "request_of cmd = Some (req, spawn)"
    and "answer = me_ask ev (asked_session ev cli_session cmd) req spawn"
  shows "\<exists>code. client_main ev cli_session cmd = Some code \<and>
    (code = 0 \<longleftrightarrow> (\<exists>resp. answer = Inr resp \<and> is_success (me_to_json ev) cmd resp)) \<and>
    (\<forall>c m. answer = Inr (RespError c m) \<longrightarrow> code = exit_code c) \<and>
    ((\<forall>c m. answer \<noteq> Inr (RespError c m)) \<longrightarrow> code = 0 \<or> code = 1)"
proof -
  have no_error: "\<not> is_success (me_to_json ev) cmd (RespError c m)" for c m by (cases cmd) simp_all
  have "exit_code c \<noteq> 0" for c by (simp add: exit_code_def split: error_code.split)
  then show ?thesis
    unfolding command_code [OF assms(1)] assms(2) [symmetric]
    by (auto simp: code_of_def no_error split: sum.split response.split)
qed

definition example_main :: main_env where
  "example_main =
     \<lparr>me_ask = (\<lambda>s req spawn. if req = ReqStop ''web'' then Inr (RespOk ''stopped'') else Inr (RespError NotFound ''?'')),
      me_stream = (\<lambda>_ _ _. (None, [])), me_vars = example_vars, me_fs = Map.empty,
      me_alloc = (\<lambda>_. True), me_cwd = Inr ''/w'',
      me_parse_yaml = (\<lambda>_. Inl ''no''), me_to_json = (\<lambda>_. Inr ''[]''), me_log_names = (\<lambda>_. Inr []),
      me_kill = (\<lambda>_. False), me_verified = Inr (), me_runtime_names = [], me_ui = (\<lambda>_. 0), me_run_daemon = (\<lambda>_. 0)\<rparr>"

theorem exit_codes_witness:
  "client_main example_main None (CStop ''web'') = Some 0 \<and> client_main example_main None (CStop ''db'') = Some 2"
  using exit_codes [of "CStop ''web''" "ReqStop ''web''" False _ example_main None, OF _ refl]
    exit_codes [of "CStop ''db''" "ReqStop ''db''" False _ example_main None, OF _ refl]
  by (auto simp: example_main_def exit_code_def)

end
