(* ===== verification/Tui_App.thy ===== *)
theory Tui_App
  imports Log_Reading
begin

text \<open>
  \<open>src/tui/app.rs\<close>: the state of the terminal interface: the process list, the ring buffer of each
  process's live output, scrolling, and the filter with its index of matching lines. The lines come
  from the live buffer and from the log files through a \<open>disk_log_reader\<close>; an operation that asks the
  reader takes the \<open>view\<close> of the files and the clock it runs in, and returns the application, whose
  readers it may have refreshed.
\<close>

section \<open>The buffer of live output\<close>

definition MAX_BUFFER_LINES :: nat where
  "MAX_BUFFER_LINES = 10000"

record output_buffer =
  ob_lines :: "(line_source \<times> string) list"
  ob_max_lines :: nat
  ob_stdout_count :: nat
  ob_stderr_count :: nat

definition output_buffer_new :: "nat \<Rightarrow> output_buffer" where
  "output_buffer_new max_lines =
     \<lparr>ob_lines = [], ob_max_lines = max_lines, ob_stdout_count = 0, ob_stderr_count = 0\<rparr>"

definition ob_evict :: "output_buffer \<Rightarrow> output_buffer" where
  "ob_evict b =
     (if length (ob_lines b) = ob_max_lines b then
        (case ob_lines b of
           [] \<Rightarrow> b
         | (evicted, _) # rest \<Rightarrow>
             (case evicted of
                SrcStdout \<Rightarrow> b\<lparr>ob_lines := rest, ob_stdout_count := ob_stdout_count b - 1\<rparr>
              | SrcStderr \<Rightarrow> b\<lparr>ob_lines := rest, ob_stderr_count := ob_stderr_count b - 1\<rparr>))
      else b)"

definition ob_push :: "line_source \<Rightarrow> string \<Rightarrow> output_buffer \<Rightarrow> output_buffer" where
  "ob_push source line b =
     (let b = ob_evict b;
          b = (case source of
                 SrcStdout \<Rightarrow> b\<lparr>ob_stdout_count := ob_stdout_count b + 1\<rparr>
               | SrcStderr \<Rightarrow> b\<lparr>ob_stderr_count := ob_stderr_count b + 1\<rparr>)
      in b\<lparr>ob_lines := ob_lines b @ [(source, line)]\<rparr>)"

definition ob_len :: "output_buffer \<Rightarrow> nat" where
  "ob_len b = length (ob_lines b)"

definition ob_is_empty :: "output_buffer \<Rightarrow> bool" where
  "ob_is_empty b \<longleftrightarrow> ob_lines b = []"

definition stdout_lines :: "output_buffer \<Rightarrow> string list" where
  "stdout_lines b = map snd (filter (\<lambda>(src, _). src = SrcStdout) (ob_lines b))"

definition stderr_lines :: "output_buffer \<Rightarrow> string list" where
  "stderr_lines b = map snd (filter (\<lambda>(src, _). src = SrcStderr) (ob_lines b))"

definition all_lines :: "output_buffer \<Rightarrow> (line_source \<times> string) list" where
  "all_lines b = ob_lines b"

section \<open>The application\<close>

record filtered_index =
  fi_filter :: string
  fi_stream_mode :: stream_mode
  fi_matching_lines :: "nat list"
  fi_scanned_up_to :: nat

datatype input_mode = NormalMode | FilterInput

record app =
  ap_processes :: "process_info list"
  ap_selected :: nat
  ap_buffers :: "(string, output_buffer) hashmap"
  ap_stream_mode :: stream_mode
  ap_paused :: bool
  ap_scroll_offsets :: "(string, nat) hashmap"
  ap_running :: bool
  ap_stop_all_on_quit :: bool
  ap_input_mode :: input_mode
  ap_filter_buf :: string
  ap_filter :: "string option"
  ap_visible_height :: nat
  ap_disk_readers :: "(string, disk_log_reader) hashmap"
  ap_filtered_indices :: "(string, filtered_index) hashmap"

definition app_new :: app where
  "app_new =
     \<lparr>ap_processes = [], ap_selected = 0, ap_buffers = [], ap_stream_mode = ModeStdout, ap_paused = False,
      ap_scroll_offsets = [], ap_running = True, ap_stop_all_on_quit = False, ap_input_mode = NormalMode,
      ap_filter_buf = [], ap_filter = None, ap_visible_height = 20, ap_disk_readers = [],
      ap_filtered_indices = []\<rparr>"

text \<open>\<open>disk_readers.get_mut(name)\<close>: an operation on the process's reader, or a default.\<close>

definition with_reader ::
  "string \<Rightarrow> 'a \<Rightarrow> (disk_log_reader \<Rightarrow> 'a \<times> disk_log_reader) \<Rightarrow> app \<Rightarrow> 'a \<times> app" where
  "with_reader name dflt f ap =
     (case hm_get (ap_disk_readers ap) name of
        None \<Rightarrow> (dflt, ap)
      | Some r \<Rightarrow>
          (let (x, r) = f r in (x, ap\<lparr>ap_disk_readers := hm_insert name r (ap_disk_readers ap)\<rparr>)))"

section \<open>Selecting a process\<close>

definition update_processes :: "process_info list \<Rightarrow> app \<Rightarrow> app" where
  "update_processes processes ap =
     (let ap = ap\<lparr>ap_processes := processes\<rparr>
      in if ap_selected ap \<ge> length (ap_processes ap) \<and> ap_processes ap \<noteq> []
         then ap\<lparr>ap_selected := length (ap_processes ap) - 1\<rparr> else ap)"

definition selected_name :: "app \<Rightarrow> string option" where
  "selected_name ap =
     (if ap_selected ap < length (ap_processes ap) then Some (pi_name (ap_processes ap ! ap_selected ap))
      else None)"

definition select_next :: "app \<Rightarrow> app" where
  "select_next ap =
     (if ap_processes ap \<noteq> [] then ap\<lparr>ap_selected := (ap_selected ap + 1) mod length (ap_processes ap)\<rparr>
      else ap)"

definition select_prev :: "app \<Rightarrow> app" where
  "select_prev ap =
     (if ap_processes ap \<noteq> [] then
        ap\<lparr>ap_selected :=
             (if ap_selected ap = 0 then length (ap_processes ap) - 1 else ap_selected ap - 1)\<rparr>
      else ap)"

definition state_count :: "process_state \<Rightarrow> app \<Rightarrow> nat" where
  "state_count st ap = length (filter (\<lambda>p. pi_state p = st) (ap_processes ap))"

definition running_count :: "app \<Rightarrow> nat" where
  "running_count = state_count PRunning"

definition exited_count :: "app \<Rightarrow> nat" where
  "exited_count = state_count PExited"

definition failed_count :: "app \<Rightarrow> nat" where
  "failed_count = state_count PFailed"

section \<open>Counting lines\<close>

definition reader_line_count :: "view \<Rightarrow> stream_mode \<Rightarrow> disk_log_reader \<Rightarrow> nat \<times> disk_log_reader" where
  "reader_line_count vw mode r =
     (case mode of
        ModeStdout \<Rightarrow> line_count vw SrcStdout r
      | ModeStderr \<Rightarrow> line_count vw SrcStderr r
      | ModeBoth \<Rightarrow> line_count_both vw r)"

definition disk_line_count :: "view \<Rightarrow> string \<Rightarrow> app \<Rightarrow> nat \<times> app" where
  "disk_line_count vw name ap = with_reader name 0 (reader_line_count vw (ap_stream_mode ap)) ap"

definition hot_line_count :: "string \<Rightarrow> string option \<Rightarrow> app \<Rightarrow> nat" where
  "hot_line_count name pat ap =
     (case hm_get (ap_buffers ap) name of
        None \<Rightarrow> 0
      | Some buf \<Rightarrow>
          (case pat of
             Some pat \<Rightarrow>
               (case ap_stream_mode ap of
                  ModeStdout \<Rightarrow> length (filter (str_contains pat) (stdout_lines buf))
                | ModeStderr \<Rightarrow> length (filter (str_contains pat) (stderr_lines buf))
                | ModeBoth \<Rightarrow> length (filter (\<lambda>(_, l). str_contains pat l) (all_lines buf)))
           | None \<Rightarrow>
               (case ap_stream_mode ap of
                  ModeStdout \<Rightarrow> ob_stdout_count buf
                | ModeStderr \<Rightarrow> ob_stderr_count buf
                | ModeBoth \<Rightarrow> ob_len buf)))"

definition total_line_count :: "view \<Rightarrow> string \<Rightarrow> app \<Rightarrow> nat \<times> app" where
  "total_line_count vw name ap =
     (let hot = hot_line_count name None ap;
          (disk, ap) = disk_line_count vw name ap
      in (max disk hot, ap))"

definition matching_count :: "string \<Rightarrow> app \<Rightarrow> nat" where
  "matching_count name ap =
     (case hm_get (ap_filtered_indices ap) name of None \<Rightarrow> 0 | Some fi \<Rightarrow> length (fi_matching_lines fi))"

definition line_count_for :: "view \<Rightarrow> string \<Rightarrow> app \<Rightarrow> nat \<times> app" where
  "line_count_for vw name ap =
     (if ap_filter ap \<noteq> None then (matching_count name ap, ap) else total_line_count vw name ap)"

section \<open>Scrolling\<close>

definition offset_of :: "string \<Rightarrow> app \<Rightarrow> nat" where
  "offset_of name ap = (case hm_get (ap_scroll_offsets ap) name of Some n \<Rightarrow> n | None \<Rightarrow> 0)"

definition set_offset :: "string \<Rightarrow> nat \<Rightarrow> app \<Rightarrow> app" where
  "set_offset name n ap = ap\<lparr>ap_scroll_offsets := hm_insert name n (ap_scroll_offsets ap)\<rparr>"

definition toggle_pause :: "app \<Rightarrow> app" where
  "toggle_pause ap =
     (let ap = ap\<lparr>ap_paused := \<not> ap_paused ap\<rparr>
      in if \<not> ap_paused ap then
           (case selected_name ap of
              Some name \<Rightarrow> ap\<lparr>ap_scroll_offsets := hm_remove name (ap_scroll_offsets ap)\<rparr>
            | None \<Rightarrow> ap)
         else ap)"

definition scroll_up_by :: "view \<Rightarrow> nat \<Rightarrow> app \<Rightarrow> app" where
  "scroll_up_by vw n ap =
     (let ap = (if \<not> ap_paused ap then ap\<lparr>ap_paused := True\<rparr> else ap)
      in case selected_name ap of
           None \<Rightarrow> ap
         | Some name \<Rightarrow>
             (let (cnt, ap) = line_count_for vw name ap;
                  max_offset = cnt - ap_visible_height ap
              in set_offset name (min (offset_of name ap + n) max_offset) ap))"

definition half_page :: "app \<Rightarrow> nat" where
  "half_page ap = max (ap_visible_height ap div 2) 1"

definition scroll_up :: "view \<Rightarrow> app \<Rightarrow> app" where
  "scroll_up vw ap = scroll_up_by vw (half_page ap) ap"

definition scroll_down_by :: "nat \<Rightarrow> app \<Rightarrow> app" where
  "scroll_down_by n ap =
     (case selected_name ap of
        None \<Rightarrow> ap
      | Some name \<Rightarrow>
          (let ap = set_offset name (offset_of name ap - n) ap
           in if offset_of name ap = 0 then ap\<lparr>ap_paused := False\<rparr> else ap))"

definition scroll_down :: "app \<Rightarrow> app" where
  "scroll_down ap = scroll_down_by (half_page ap) ap"

definition scroll_to_top :: "view \<Rightarrow> app \<Rightarrow> app" where
  "scroll_to_top vw ap =
     (let ap = (if \<not> ap_paused ap then ap\<lparr>ap_paused := True\<rparr> else ap)
      in case selected_name ap of
           None \<Rightarrow> ap
         | Some name \<Rightarrow> (let (total, ap) = line_count_for vw name ap in set_offset name total ap))"

definition scroll_to_bottom :: "app \<Rightarrow> app" where
  "scroll_to_bottom ap =
     (case selected_name ap of
        None \<Rightarrow> ap
      | Some name \<Rightarrow>
          ap\<lparr>ap_scroll_offsets := hm_remove name (ap_scroll_offsets ap), ap_paused := False\<rparr>)"

section \<open>The visible window\<close>

definition hot_lines :: "string \<Rightarrow> app \<Rightarrow> (line_source \<times> string) list" where
  "hot_lines name ap =
     (case hm_get (ap_buffers ap) name of
        None \<Rightarrow> []
      | Some buf \<Rightarrow>
          (case ap_stream_mode ap of
             ModeStdout \<Rightarrow> map (\<lambda>l. (SrcStdout, l)) (stdout_lines buf)
           | ModeStderr \<Rightarrow> map (\<lambda>l. (SrcStderr, l)) (stderr_lines buf)
           | ModeBoth \<Rightarrow> all_lines buf))"

definition hot_buffer_range :: "string \<Rightarrow> nat \<Rightarrow> nat \<Rightarrow> app \<Rightarrow> (line_source \<times> string) list" where
  "hot_buffer_range name start cnt ap = take cnt (drop start (hot_lines name ap))"

text \<open>\<open>unwrap_or_default\<close>: a read error shows nothing.\<close>

definition or_default :: "('e + 'a list) \<Rightarrow> 'a list" where
  "or_default res = (case res of Inl _ \<Rightarrow> [] | Inr xs \<Rightarrow> xs)"

definition reader_range ::
  "view \<Rightarrow> stream_mode \<Rightarrow> nat \<Rightarrow> nat \<Rightarrow> disk_log_reader \<Rightarrow> (line_source \<times> string) list \<times> disk_log_reader" where
  "reader_range vw mode start cnt r =
     (case mode of
        ModeStdout \<Rightarrow>
          (let (res, r) = read_lines vw SrcStdout start cnt r in (map (\<lambda>l. (SrcStdout, l)) (or_default res), r))
      | ModeStderr \<Rightarrow>
          (let (res, r) = read_lines vw SrcStderr start cnt r in (map (\<lambda>l. (SrcStderr, l)) (or_default res), r))
      | ModeBoth \<Rightarrow> (let (res, r) = read_interleaved vw start cnt r in (or_default res, r)))"

definition disk_read_range ::
  "view \<Rightarrow> string \<Rightarrow> nat \<Rightarrow> nat \<Rightarrow> app \<Rightarrow> (line_source \<times> string) list \<times> app" where
  "disk_read_range vw name start cnt ap =
     with_reader name [] (reader_range vw (ap_stream_mode ap) start cnt) ap"

definition shown_offset :: "string \<Rightarrow> app \<Rightarrow> nat" where
  "shown_offset name ap = (if ap_paused ap then offset_of name ap else 0)"

definition filtered_visible_lines ::
  "view \<Rightarrow> string \<Rightarrow> nat \<Rightarrow> app \<Rightarrow> (line_source \<times> string) list \<times> app" where
  "filtered_visible_lines vw name visible_height ap =
     (let total = matching_count name ap
      in if total = 0 then ([], ap)
         else
           (let window_end = total - shown_offset name ap;
                window_start = window_end - visible_height;
                cnt = window_end - window_start
            in if cnt = 0 then ([], ap)
               else
                 (let line_numbers =
                        (case hm_get (ap_filtered_indices ap) name of
                           None \<Rightarrow> []
                         | Some fi \<Rightarrow> take cnt (drop window_start (fi_matching_lines fi)))
                  in with_reader name [] (read_scattered_lines vw (ap_stream_mode ap) line_numbers) ap)))"

definition visible_lines ::
  "view \<Rightarrow> string \<Rightarrow> nat \<Rightarrow> app \<Rightarrow> (line_source \<times> string) list option \<times> app" where
  "visible_lines vw name visible_height ap =
     (if ap_filter ap \<noteq> None then
        (let (ls, ap) = filtered_visible_lines vw name visible_height ap in (Some ls, ap))
      else
        (let (total, ap) = total_line_count vw name ap;
             window_end = total - shown_offset name ap;
             window_start = window_end - visible_height;
             cnt = window_end - window_start
         in if cnt = 0 then (Some [], ap)
            else
              (let hot_len = hot_line_count name None ap;
                   (disk_count, ap) = disk_line_count vw name ap;
                   disk_boundary = disk_count - hot_len
               in if window_start \<ge> disk_boundary then
                    (Some (hot_buffer_range name (window_start - disk_boundary) cnt ap), ap)
                  else if window_end \<le> disk_boundary then
                    (let (ls, ap) = disk_read_range vw name window_start cnt ap in (Some ls, ap))
                  else
                    (let (ls, ap) = disk_read_range vw name window_start (disk_boundary - window_start) ap
                     in (Some (ls @ hot_buffer_range name 0 (window_end - disk_boundary) ap), ap)))))"

section \<open>The filter\<close>

definition build_filtered_index :: "view \<Rightarrow> string \<Rightarrow> app \<Rightarrow> app" where
  "build_filtered_index vw name ap =
     (case ap_filter ap of
        None \<Rightarrow> ap
      | Some pat \<Rightarrow>
          (let mode = ap_stream_mode ap;
               (matching_lines, ap) = with_reader name [] (scan_matching_lines vw pat mode) ap;
               (scanned_up_to, ap) = with_reader name 0 (reader_line_count vw mode) ap
           in ap\<lparr>ap_filtered_indices :=
                hm_insert name
                  \<lparr>fi_filter = pat, fi_stream_mode = mode, fi_matching_lines = matching_lines,
                   fi_scanned_up_to = scanned_up_to\<rparr>
                  (ap_filtered_indices ap)\<rparr>))"

definition build_filtered_indices :: "view \<Rightarrow> app \<Rightarrow> app" where
  "build_filtered_indices vw ap = fold (build_filtered_index vw) (hm_keys (ap_disk_readers ap)) ap"

definition cycle_stream_mode :: "view \<Rightarrow> app \<Rightarrow> app" where
  "cycle_stream_mode vw ap =
     (let ap = ap\<lparr>ap_stream_mode :=
                 (case ap_stream_mode ap of
                    ModeStdout \<Rightarrow> ModeStderr | ModeStderr \<Rightarrow> ModeBoth | ModeBoth \<Rightarrow> ModeStdout)\<rparr>
      in if ap_filter ap \<noteq> None then build_filtered_indices vw ap else ap)"

definition start_filter :: "app \<Rightarrow> app" where
  "start_filter ap =
     ap\<lparr>ap_input_mode := FilterInput,
        ap_filter_buf := (case ap_filter ap of Some pat \<Rightarrow> pat | None \<Rightarrow> [])\<rparr>"

definition confirm_filter :: "view \<Rightarrow> app \<Rightarrow> app" where
  "confirm_filter vw ap =
     (let ap = ap\<lparr>ap_input_mode := NormalMode\<rparr>
      in if ap_filter_buf ap = [] then ap\<lparr>ap_filter := None, ap_filtered_indices := []\<rparr>
         else build_filtered_indices vw (ap\<lparr>ap_filter := Some (ap_filter_buf ap)\<rparr>))"

definition cancel_filter :: "app \<Rightarrow> app" where
  "cancel_filter ap = ap\<lparr>ap_input_mode := NormalMode, ap_filter_buf := []\<rparr>"

definition clear_filter :: "app \<Rightarrow> app" where
  "clear_filter ap = ap\<lparr>ap_filter := None, ap_filter_buf := [], ap_filtered_indices := []\<rparr>"

definition update_filtered_index :: "view \<Rightarrow> string \<Rightarrow> app \<Rightarrow> app" where
  "update_filtered_index vw process ap =
     (case hm_get (ap_filtered_indices ap) process of
        None \<Rightarrow> ap
      | Some fi \<Rightarrow>
          (case hm_get (ap_disk_readers ap) process of
             None \<Rightarrow> ap
           | Some _ \<Rightarrow>
               (let (current_total, ap) = with_reader process 0 (reader_line_count vw (fi_stream_mode fi)) ap
                in if current_total \<le> fi_scanned_up_to fi then ap
                   else
                     (let (new_matches, ap) =
                            with_reader process []
                              (scan_matching_lines_from vw (fi_filter fi) (fi_stream_mode fi) (fi_scanned_up_to fi)) ap
                      in ap\<lparr>ap_filtered_indices :=
                           hm_insert process
                             (fi\<lparr>fi_matching_lines := fi_matching_lines fi @ new_matches,
                                 fi_scanned_up_to := current_total\<rparr>)
                             (ap_filtered_indices ap)\<rparr>))))"

definition source_of_stream :: "stream \<Rightarrow> line_source" where
  "source_of_stream s = (case s of Stdout \<Rightarrow> SrcStdout | Stderr \<Rightarrow> SrcStderr)"

definition push_output :: "view \<Rightarrow> string \<Rightarrow> stream \<Rightarrow> string \<Rightarrow> app \<Rightarrow> app" where
  "push_output vw process s line ap =
     (let buf = (case hm_get (ap_buffers ap) process of
                   None \<Rightarrow> output_buffer_new MAX_BUFFER_LINES | Some buf \<Rightarrow> buf);
          ap = ap\<lparr>ap_buffers := hm_insert process (ob_push (source_of_stream s) line buf) (ap_buffers ap)\<rparr>
      in if ap_filter ap \<noteq> None then update_filtered_index vw process ap else ap)"

section \<open>Leaving\<close>

definition app_quit :: "app \<Rightarrow> app" where
  "app_quit ap = ap\<lparr>ap_running := False\<rparr>"

definition quit_and_stop :: "app \<Rightarrow> app" where
  "quit_and_stop ap = ap\<lparr>ap_stop_all_on_quit := True, ap_running := False\<rparr>"

end
