(* ===== verification/Tui_View.thy ===== *)
theory Tui_View
  imports Tui_App
begin

text \<open>
  What the terminal interface shows: the ring buffer keeps the most recent lines, the visible window
  is a window of the whole log although its lines come from two places, and the filter's index is
  the list of matching lines, whether it was built at once or grew with the log.
\<close>

section \<open>The ring buffer\<close>

definition count_source :: "line_source \<Rightarrow> (line_source \<times> string) list \<Rightarrow> nat" where
  "count_source s ls = length (filter (\<lambda>(src, _). src = s) ls)"

definition buffer_ok :: "output_buffer \<Rightarrow> bool" where
  "buffer_ok b \<longleftrightarrow>
     0 < ob_max_lines b \<and> length (ob_lines b) \<le> ob_max_lines b \<and>
     ob_stdout_count b = count_source SrcStdout (ob_lines b) \<and>
     ob_stderr_count b = count_source SrcStderr (ob_lines b)"

lemma buffer_ok_new: "0 < m \<Longrightarrow> buffer_ok (output_buffer_new m)"
  by (simp add: buffer_ok_def output_buffer_new_def count_source_def)

lemma ob_push_max [simp]: "ob_max_lines (ob_push s l b) = ob_max_lines b"
  by (auto simp: ob_push_def ob_evict_def Let_def split: line_source.split list.split)

lemma ob_push_ok: "buffer_ok b \<Longrightarrow> buffer_ok (ob_push s l b)"
  by (cases "ob_lines b"; cases s)
    (auto simp: buffer_ok_def ob_push_def ob_evict_def Let_def count_source_def split: line_source.split)

lemma ob_push_lines:
  assumes "buffer_ok b"
  shows "ob_lines (ob_push s l b) = last_n (ob_max_lines b) (ob_lines b @ [(s, l)])"
proof (cases "length (ob_lines b) = ob_max_lines b")
  case True
  with assms obtain p rest where "ob_lines b = p # rest"
    by (cases "ob_lines b") (auto simp: buffer_ok_def)
  with True show ?thesis
    by (cases p; cases "fst p"; cases s) (auto simp: ob_push_def ob_evict_def Let_def last_n_def)
next
  case False
  with assms show ?thesis
    by (cases s) (simp_all add: ob_push_def ob_evict_def Let_def last_n_def buffer_ok_def)
qed

interpretation live: recent_items "\<lambda>(s, l). ob_push s l"
    "\<lambda>b. buffer_ok b \<and> ob_max_lines b = MAX_BUFFER_LINES" MAX_BUFFER_LINES ob_lines
  by unfold_locales (auto simp: MAX_BUFFER_LINES_def ob_push_ok ob_push_lines)

section \<open>The reader behind a name\<close>

definition reads :: "view \<Rightarrow> app \<Rightarrow> string \<Rightarrow> (line_source \<Rightarrow> log_entry list) \<Rightarrow> bool" where
  "reads vw ap name L \<longleftrightarrow> (\<exists>r. hm_get (ap_disk_readers ap) name = Some r \<and> sees vw L r)"

definition answers ::
  "view \<Rightarrow> (line_source \<Rightarrow> log_entry list) \<Rightarrow> (disk_log_reader \<Rightarrow> 'a \<times> disk_log_reader) \<Rightarrow> 'a \<Rightarrow> bool" where
  "answers vw L f x \<longleftrightarrow> (\<forall>r. sees vw L r \<longrightarrow> fst (f r) = x \<and> sees vw L (snd (f r)))"

lemma with_reader_reads:
  "\<lbrakk>reads vw ap name L; answers vw L f x\<rbrakk> \<Longrightarrow>
     fst (with_reader name d f ap) = x \<and> reads vw (snd (with_reader name d f ap)) name L"
  by (auto simp: reads_def answers_def with_reader_def case_prod_unfold Let_def)

text \<open>Asking a reader changes nothing else.\<close>

lemma with_reader_frame:
  "\<exists>rs. snd (with_reader name d f ap) = ap\<lparr>ap_disk_readers := rs\<rparr> \<and>
     hm_keys rs = hm_keys (ap_disk_readers ap) \<and>
     (\<forall>n. n \<noteq> name \<longrightarrow> hm_get rs n = hm_get (ap_disk_readers ap) n)"
proof (cases "hm_get (ap_disk_readers ap) name")
  case None
  then show ?thesis by (intro exI [of _ "ap_disk_readers ap"]) (simp add: with_reader_def)
next
  case (Some r)
  then have "name \<in> fst ` set (ap_disk_readers ap)" by (force dest: map_of_SomeD)
  with Some show ?thesis
    by (intro exI [of _ "hm_insert name (snd (f r)) (ap_disk_readers ap)"])
      (simp add: with_reader_def case_prod_unfold Let_def)
qed

lemma with_reader_fields [simp, frame_simps]:
  "ap_processes (snd (with_reader name d f ap)) = ap_processes ap"
  "ap_selected (snd (with_reader name d f ap)) = ap_selected ap"
  "ap_buffers (snd (with_reader name d f ap)) = ap_buffers ap"
  "ap_stream_mode (snd (with_reader name d f ap)) = ap_stream_mode ap"
  "ap_paused (snd (with_reader name d f ap)) = ap_paused ap"
  "ap_scroll_offsets (snd (with_reader name d f ap)) = ap_scroll_offsets ap"
  "ap_running (snd (with_reader name d f ap)) = ap_running ap"
  "ap_stop_all_on_quit (snd (with_reader name d f ap)) = ap_stop_all_on_quit ap"
  "ap_input_mode (snd (with_reader name d f ap)) = ap_input_mode ap"
  "ap_filter_buf (snd (with_reader name d f ap)) = ap_filter_buf ap"
  "ap_filter (snd (with_reader name d f ap)) = ap_filter ap"
  "ap_visible_height (snd (with_reader name d f ap)) = ap_visible_height ap"
  "ap_filtered_indices (snd (with_reader name d f ap)) = ap_filtered_indices ap"
  "hm_keys (ap_disk_readers (snd (with_reader name d f ap))) = hm_keys (ap_disk_readers ap)"
  using with_reader_frame [of name d f ap] by auto

lemma with_reader_others:
  "n \<noteq> name \<Longrightarrow> reads vw (snd (with_reader name d f ap)) n L = reads vw ap n L"
  using with_reader_frame [of name d f ap] by (auto simp: reads_def)

lemma reads_frame [simp]:
  "reads vw (ap\<lparr>ap_filtered_indices := x\<rparr>) n L = reads vw ap n L"
  "reads vw (ap\<lparr>ap_filter := y\<rparr>) n L = reads vw ap n L"
  "reads vw (ap\<lparr>ap_stream_mode := z\<rparr>) n L = reads vw ap n L"
  "reads vw (ap\<lparr>ap_input_mode := i\<rparr>) n L = reads vw ap n L"
  "reads vw (ap\<lparr>ap_buffers := bs\<rparr>) n L = reads vw ap n L"
  by (simp_all add: reads_def)

lemma answers_count: "answers vw L (reader_line_count vw mode) (length (mode_lines L mode))"
  by (cases mode) (simp_all add: answers_def reader_line_count_def mode_lines_def line_count_sees)

lemma answers_range:
  "answers vw L (reader_range vw mode start cnt) (take cnt (drop start (mode_lines L mode)))"
  by (cases mode)
    (simp_all add: answers_def reader_range_def mode_lines_def case_prod_unfold or_default_def Let_def
      read_lines_sees read_interleaved_sees take_map drop_map comp_def)

lemma answers_scattered:
  "\<forall>i \<in> set lns. i < length (mode_lines L mode) \<Longrightarrow>
     answers vw L (read_scattered_lines vw mode lns) (map (\<lambda>i. mode_lines L mode ! i) lns)"
  using scattered_sees by (auto simp: answers_def)

section \<open>The visible window\<close>

text \<open>The window of height \<open>h\<close> whose end is \<open>off\<close> lines before the end of a list.\<close>

definition tail_window :: "nat \<Rightarrow> nat \<Rightarrow> 'a list \<Rightarrow> 'a list" where
  "tail_window off h ls = last_n h (take (length ls - off) ls)"

lemma tail_window_drop: "tail_window off h xs = drop (length xs - off - h) (take (length xs - off) xs)"
  by (cases "off = 0") (simp_all add: tail_window_def last_n_def min_def)

text \<open>The log as it is shown: the live lines, after as many lines of the files as the files have more.\<close>

definition shown_log :: "('a list) \<Rightarrow> 'a list \<Rightarrow> 'a list" where
  "shown_log disk hot = take (length disk - length hot) disk @ hot"

lemma length_shown_log [simp]: "length (shown_log disk hot) = max (length disk) (length hot)"
  by (auto simp: shown_log_def)

lemma shown_log_suffix: "suffix hot disk \<Longrightarrow> shown_log disk hot = disk"
  by (auto simp: shown_log_def suffix_def)

definition buffers_ok :: "app \<Rightarrow> bool" where
  "buffers_ok ap \<longleftrightarrow> (\<forall>b \<in> snd ` set (ap_buffers ap). buffer_ok b)"

lemma hot_line_count_length:
  assumes "buffers_ok ap"
  shows "hot_line_count name None ap = length (hot_lines name ap)"
proof (cases "hm_get (ap_buffers ap) name")
  case None
  then show ?thesis by (simp add: hot_line_count_def hot_lines_def)
next
  case (Some buf)
  then have "buffer_ok buf" using assms map_of_SomeD [OF Some] by (force simp: buffers_ok_def)
  with Some show ?thesis
    by (cases "ap_stream_mode ap")
      (simp_all add: hot_line_count_def hot_lines_def buffer_ok_def count_source_def stdout_lines_def
        stderr_lines_def all_lines_def ob_len_def)
qed

lemma hot_lines_frame [simp]: "hot_lines name (snd (with_reader n d f ap)) = hot_lines name ap"
  "offset_of name (snd (with_reader n d f ap)) = offset_of name ap"
  "shown_offset name (snd (with_reader n d f ap)) = shown_offset name ap"
  "hot_line_count name pat (snd (with_reader n d f ap)) = hot_line_count name pat ap"
  by (simp_all add: hot_lines_def offset_of_def shown_offset_def hot_line_count_def cong: option.case_cong)

lemma hot_lines_read [simp]: "hot_lines name (snd (disk_read_range vw n st cnt ap)) = hot_lines name ap"
  by (simp add: disk_read_range_def)

lemma window_pieces:
  fixes disk hot :: "'a list"
  defines "b \<equiv> length disk - length hot"
  assumes "s \<le> e" "e \<le> max (length disk) (length hot)"
  shows "take (e - s) (drop s (shown_log disk hot)) =
    (if s \<ge> b then take (e - s) (drop (s - b) hot)
     else if e \<le> b then take (e - s) (drop s disk)
     else take (b - s) (drop s disk) @ take (e - b) hot)"
proof -
  have "b \<le> length disk" by (simp add: b_def)
  then show ?thesis
    using assms(2) by (auto simp: shown_log_def drop_take min_def simp flip: b_def)
qed

lemma tail_window_take:
  "tail_window off h ls =
     take (length ls - off - (length ls - off - h)) (drop (length ls - off - h) ls)"
  by (cases "off = 0") (auto simp: tail_window_def last_n_def drop_take min_def)

lemma visible_window:
  assumes "reads vw ap name L" and "buffers_ok ap" and "ap_filter ap = None"
  shows "fst (visible_lines vw name h ap) =
      Some (tail_window (shown_offset name ap) h
        (shown_log (mode_lines L (ap_stream_mode ap)) (hot_lines name ap)))"
proof -
  define disk where "disk = mode_lines L (ap_stream_mode ap)"
  define hot where "hot = hot_lines name ap"
  define ap1 where "ap1 = snd (disk_line_count vw name ap)"
  define ap2 where "ap2 = snd (disk_line_count vw name ap1)"
  note reader = with_reader_reads [OF _ answers_count]
  have mode1: "ap_stream_mode ap1 = ap_stream_mode ap" by (simp add: ap1_def disk_line_count_def)
  have mode2: "ap_stream_mode ap2 = ap_stream_mode ap" by (simp add: ap2_def disk_line_count_def mode1)
  have count1: "fst (disk_line_count vw name ap) = length disk" and reads1: "reads vw ap1 name L"
    using reader [OF assms(1)] by (simp_all add: ap1_def disk_line_count_def disk_def)
  have count2: "fst (disk_line_count vw name ap1) = length disk" and reads2: "reads vw ap2 name L"
    using reader [OF reads1] by (simp_all add: ap2_def disk_line_count_def disk_def mode1)
  have range: "fst (disk_read_range vw name st n ap2) = take n (drop st disk)" for st n
    using with_reader_reads [OF reads2 answers_range] by (simp add: disk_read_range_def mode2 disk_def)
  have hots: "hot_lines name ap2 = hot" "hot_line_count name None ap1 = length hot"
      "hot_line_count name None ap = length hot" "shown_offset name ap1 = shown_offset name ap"
    by (simp_all add: ap2_def ap1_def disk_line_count_def hot_def hot_line_count_length assms(2))
  define e where "e = max (length disk) (length hot) - shown_offset name ap"
  define s where "s = e - h"
  define b where "b = length disk - length hot"
  have "fst (visible_lines vw name h ap) =
      Some (if e - s = 0 then []
            else if b \<le> s then take (e - s) (drop (s - b) hot)
            else if e \<le> b then take (e - s) (drop s disk)
            else take (b - s) (drop s disk) @ take (e - b) hot)"
    unfolding visible_lines_def assms(3) total_line_count_def case_prod_unfold Let_def fst_conv snd_conv
      ap1_def [symmetric] ap2_def [symmetric] hots count1 count2 e_def [symmetric] s_def [symmetric]
      b_def [symmetric]
    by (simp add: range hots hot_buffer_range_def)
  also have "\<dots> = Some (take (e - s) (drop s (shown_log disk hot)))"
    using window_pieces [of s e disk hot, folded b_def] by (auto simp: s_def e_def)
  finally have "fst (visible_lines vw name h ap) = Some (take (e - s) (drop s (shown_log disk hot)))" .
  moreover have "tail_window (shown_offset name ap) h (shown_log disk hot) = take (e - s) (drop s (shown_log disk hot))"
    by (simp add: tail_window_take max_def e_def s_def)
  ultimately show ?thesis by (simp only: disk_def hot_def)
qed

section \<open>The filter's index\<close>

text \<open>The index of a log: the positions of its matching lines, and how far it reaches.\<close>

definition matches :: "string \<Rightarrow> (line_source \<times> string) list \<Rightarrow> nat \<Rightarrow> nat \<Rightarrow> nat list" where
  "matches pat ls a b = filter (\<lambda>i. str_contains pat (snd (ls ! i))) [a..<b]"

definition index_of :: "string \<Rightarrow> stream_mode \<Rightarrow> (line_source \<Rightarrow> log_entry list) \<Rightarrow> filtered_index" where
  "index_of pat mode L =
     \<lparr>fi_filter = pat, fi_stream_mode = mode,
      fi_matching_lines = matches pat (mode_lines L mode) 0 (length (mode_lines L mode)),
      fi_scanned_up_to = length (mode_lines L mode)\<rparr>"

lemma answers_scan:
  "answers vw L (scan_matching_lines_from vw pat mode from)
     (matches pat (mode_lines L mode) from (length (mode_lines L mode)))"
  "answers vw L (scan_matching_lines vw pat mode)
     (matches pat (mode_lines L mode) 0 (length (mode_lines L mode)))"
  by (simp_all add: answers_def scan_sees matches_def scan_matching_lines_def)

lemma matches_grow:
  assumes "prefix ls ls'"
  shows "matches pat ls' 0 (length ls') = matches pat ls 0 (length ls) @ matches pat ls' (length ls) (length ls')"
proof -
  obtain rest where ls': "ls' = ls @ rest" using assms by (auto simp: prefix_def)
  then have "[0..<length ls'] = [0..<length ls] @ [length ls..<length ls']"
    using upt_add_eq_append [of 0 "length ls" "length rest"] by simp
  moreover have "filter (\<lambda>i. str_contains pat (snd (ls' ! i))) [0..<length ls] = matches pat ls 0 (length ls)"
    unfolding matches_def by (rule filter_cong) (simp_all add: ls' nth_append)
  ultimately show ?thesis by (simp add: matches_def)
qed

lemma build_index_fields [simp]:
  "ap_filter (build_filtered_index vw name ap) = ap_filter ap"
  "ap_stream_mode (build_filtered_index vw name ap) = ap_stream_mode ap"
  "ap_paused (build_filtered_index vw name ap) = ap_paused ap"
  "ap_scroll_offsets (build_filtered_index vw name ap) = ap_scroll_offsets ap"
  "ap_buffers (build_filtered_index vw name ap) = ap_buffers ap"
  "ap_processes (build_filtered_index vw name ap) = ap_processes ap"
  "ap_selected (build_filtered_index vw name ap) = ap_selected ap"
  "ap_input_mode (build_filtered_index vw name ap) = ap_input_mode ap"
  "ap_running (build_filtered_index vw name ap) = ap_running ap"
  "hm_keys (ap_disk_readers (build_filtered_index vw name ap)) = hm_keys (ap_disk_readers ap)"
  by (simp_all add: build_filtered_index_def case_prod_unfold Let_def split: option.split)

lemma build_index_others:
  assumes "n \<noteq> name"
  shows "hm_get (ap_filtered_indices (build_filtered_index vw name ap)) n = hm_get (ap_filtered_indices ap) n"
    "reads vw (build_filtered_index vw name ap) n L = reads vw ap n L"
  using assms
  by (simp_all add: build_filtered_index_def case_prod_unfold Let_def with_reader_others split: option.split)

lemma build_index_reads:
  assumes "reads vw ap name L" and "ap_filter ap = Some pat"
  shows "hm_get (ap_filtered_indices (build_filtered_index vw name ap)) name
      = Some (index_of pat (ap_stream_mode ap) L)"
    "reads vw (build_filtered_index vw name ap) name L"
proof -
  note scan = with_reader_reads [OF assms(1) answers_scan(2)]
  note count_up = with_reader_reads [OF conjunct2 [OF scan] answers_count]
  show "hm_get (ap_filtered_indices (build_filtered_index vw name ap)) name
      = Some (index_of pat (ap_stream_mode ap) L)"
    "reads vw (build_filtered_index vw name ap) name L"
    using scan count_up by (simp_all add: build_filtered_index_def assms(2) case_prod_unfold Let_def index_of_def)
qed

lemma build_indices_fields [simp]:
  "ap_filter (fold (build_filtered_index vw) ns ap) = ap_filter ap"
  "ap_stream_mode (fold (build_filtered_index vw) ns ap) = ap_stream_mode ap"
  "ap_paused (fold (build_filtered_index vw) ns ap) = ap_paused ap"
  "ap_scroll_offsets (fold (build_filtered_index vw) ns ap) = ap_scroll_offsets ap"
  "ap_buffers (fold (build_filtered_index vw) ns ap) = ap_buffers ap"
  "ap_processes (fold (build_filtered_index vw) ns ap) = ap_processes ap"
  "ap_selected (fold (build_filtered_index vw) ns ap) = ap_selected ap"
  "ap_input_mode (fold (build_filtered_index vw) ns ap) = ap_input_mode ap"
  "ap_running (fold (build_filtered_index vw) ns ap) = ap_running ap"
  "hm_keys (ap_disk_readers (fold (build_filtered_index vw) ns ap)) = hm_keys (ap_disk_readers ap)"
  by (induction ns arbitrary: ap) simp_all

lemma build_indices_reads:
  assumes "reads vw ap name L" and "ap_filter ap = Some pat"
  shows "reads vw (fold (build_filtered_index vw) ns ap) name L \<and>
    hm_get (ap_filtered_indices (fold (build_filtered_index vw) ns ap)) name =
      (if name \<in> set ns then Some (index_of pat (ap_stream_mode ap) L)
       else hm_get (ap_filtered_indices ap) name)"
  using assms
proof (induction ns arbitrary: ap)
  case (Cons n ns)
  have reads': "reads vw (build_filtered_index vw n ap) name L"
    using build_index_others(2) [of name n] build_index_reads(2) [OF Cons.prems] Cons.prems(1)
    by (cases "n = name") auto
  from Cons.IH [OF this] Cons.prems show ?case
    using build_index_others(1) [of name n] build_index_reads(1) [OF Cons.prems] by auto
qed simp

lemma update_index_reads:
  assumes "reads vw ap name L" and fi: "hm_get (ap_filtered_indices ap) name = Some (index_of pat mode L0)"
    and "prefix (mode_lines L0 mode) (mode_lines L mode)"
  shows "hm_get (ap_filtered_indices (update_filtered_index vw name ap)) name = Some (index_of pat mode L)"
proof -
  define ap1 where "ap1 = snd (with_reader name 0 (reader_line_count vw mode) ap)"
  have total: "fst (with_reader name 0 (reader_line_count vw mode) ap) = length (mode_lines L mode)"
    and reads1: "reads vw ap1 name L"
    using with_reader_reads [OF assms(1) answers_count] by (simp_all add: ap1_def)
  obtain r where r: "hm_get (ap_disk_readers ap) name = Some r" using assms(1) by (auto simp: reads_def)
  show ?thesis
  proof (cases "length (mode_lines L mode) \<le> length (mode_lines L0 mode)")
    case True
    then have "mode_lines L mode = mode_lines L0 mode"
      using assms(3) by (auto simp: prefix_def)
    with True total fi r show ?thesis
      by (simp add: update_filtered_index_def case_prod_unfold Let_def index_of_def)
  next
    case False
    have "fst (with_reader name [] (scan_matching_lines_from vw pat mode (length (mode_lines L0 mode))) ap1)
        = matches pat (mode_lines L mode) (length (mode_lines L0 mode)) (length (mode_lines L mode))"
      using with_reader_reads [OF reads1 answers_scan(1)] by simp
    with False total fi r show ?thesis
      by (simp add: update_filtered_index_def case_prod_unfold Let_def index_of_def
          matches_grow [OF assms(3)] flip: ap1_def)
  qed
qed

lemma filtered_window:
  assumes "reads vw ap name L" and "ap_filter ap = Some pat"
    and fi: "hm_get (ap_filtered_indices ap) name = Some (index_of pat (ap_stream_mode ap) L)"
  shows "fst (visible_lines vw name h ap) = Some (tail_window (shown_offset name ap) h
      (filter (\<lambda>(_, line). str_contains pat line) (mode_lines L (ap_stream_mode ap))))"
proof -
  define ls where "ls = mode_lines L (ap_stream_mode ap)"
  define ms where "ms = matches pat ls 0 (length ls)"
  define e where "e = length ms - shown_offset name ap"
  define s where "s = e - h"
  have fi': "matching_count name ap = length ms" "fi_matching_lines (index_of pat (ap_stream_mode ap) L) = ms"
    by (simp_all add: matching_count_def fi index_of_def ms_def ls_def)
  have picked: "map ((!) ls) ms = filter (\<lambda>(_, line). str_contains pat line) ls"
  proof -
    have "filter P ls = map ((!) ls) (filter (\<lambda>i. P (ls ! i)) [0..<length ls])" for P
      using filter_map [of P "(!) ls" "[0..<length ls]"] by (simp add: map_nth comp_def)
    then show ?thesis by (simp add: ms_def matches_def case_prod_unfold)
  qed
  have "\<forall>i \<in> set ms. i < length ls" by (simp add: ms_def matches_def)
  then have "\<forall>i \<in> set (take (e - s) (drop s ms)). i < length ls" by (blast dest: in_set_takeD in_set_dropD)
  note shown = conjunct1 [OF with_reader_reads [OF assms(1) answers_scattered [OF this [unfolded ls_def]], of "[]"]]
  have "fst (visible_lines vw name h ap) = Some (map ((!) ls) (take (e - s) (drop s ms)))"
    unfolding visible_lines_def filtered_visible_lines_def fi' case_prod_unfold Let_def fi
      e_def [symmetric] s_def [symmetric] option.case
    using shown by (auto simp: assms(2) ls_def fi' e_def s_def)
  also have "map ((!) ls) (take (e - s) (drop s ms)) =
      tail_window (shown_offset name ap) h (filter (\<lambda>(_, line). str_contains pat line) ls)"
    by (simp add: tail_window_take e_def s_def take_map drop_map flip: picked)
  finally show ?thesis by (simp add: ls_def)
qed

section \<open>Properties\<close>

type_synonym received = "view \<times> string \<times> stream \<times> string"

definition receive :: "received \<Rightarrow> app \<Rightarrow> app" where
  "receive = (\<lambda>(vw, process, s, line). push_output vw process s line)"

definition lines_for :: "string \<Rightarrow> received list \<Rightarrow> (line_source \<times> string) list" where
  "lines_for name rs =
     map (\<lambda>(vw, process, s, line). (source_of_stream s, line))
       (filter (\<lambda>(vw, process, s, line). process = name) rs)"

lemma update_index_buffers [simp]: "ap_buffers (update_filtered_index vw name ap) = ap_buffers ap"
  by (simp add: update_filtered_index_def case_prod_unfold Let_def split: option.split)

lemma push_output_buffers:
  "ap_buffers (push_output vw process s line ap) =
     hm_insert process
       (ob_push (source_of_stream s) line
         (case hm_get (ap_buffers ap) process of None \<Rightarrow> output_buffer_new MAX_BUFFER_LINES | Some buf \<Rightarrow> buf))
       (ap_buffers ap)"
  by (simp add: push_output_def Let_def)

definition recent :: "string \<Rightarrow> (line_source \<times> string) list \<Rightarrow> app \<Rightarrow> bool" where
  "recent name ls ap \<longleftrightarrow>
     (case hm_get (ap_buffers ap) name of
        None \<Rightarrow> ls = []
      | Some b \<Rightarrow>
          buffer_ok b \<and> ob_max_lines b = MAX_BUFFER_LINES \<and> ls \<noteq> [] \<and>
          ob_lines b = last_n MAX_BUFFER_LINES ls)"

lemma count_source_both: "length ls = count_source SrcStdout ls + count_source SrcStderr ls"
proof (induction ls)
  case (Cons p ls)
  then show ?case by (cases p; cases "fst p") (simp_all add: count_source_def)
qed (simp add: count_source_def)

lemma receive_recent:
  assumes "recent name ls ap"
  shows "recent name (ls @ lines_for name [r]) (receive r ap)"
proof -
  obtain vw process s line where r: "r = (vw, process, s, line)" by (cases r)
  have max: "0 < MAX_BUFFER_LINES" by (simp add: MAX_BUFFER_LINES_def)
  show ?thesis
  proof (cases "hm_get (ap_buffers ap) name")
    case None
    have "ob_lines (ob_push x l (output_buffer_new MAX_BUFFER_LINES)) = last_n MAX_BUFFER_LINES [(x, l)]" for x l
      using ob_push_lines [OF buffer_ok_new [OF max]] by (simp add: output_buffer_new_def)
    with None assms show ?thesis
      by (auto simp: recent_def receive_def r push_output_buffers lines_for_def ob_push_ok buffer_ok_new max
          ob_push_max) (simp add: output_buffer_new_def)
  next
    case (Some b)
    with assms have b: "buffer_ok b" "ob_max_lines b = MAX_BUFFER_LINES" "ob_lines b = last_n MAX_BUFFER_LINES ls"
      by (simp_all add: recent_def)
    have "ob_lines (ob_push x l b) = last_n MAX_BUFFER_LINES (ls @ [(x, l)])" for x l
      using live.push_recent [of b ls "(x, l)"] b by simp
    with Some assms b show ?thesis
      by (auto simp: recent_def receive_def r push_output_buffers lines_for_def ob_push_ok)
  qed
qed

lemma receive_all_recent:
  "recent name ls ap \<Longrightarrow> recent name (ls @ lines_for name rs) (fold receive rs ap)"
proof (induction rs arbitrary: ls ap)
  case (Cons r rs)
  have "lines_for name (r # rs) = lines_for name [r] @ lines_for name rs" by (simp add: lines_for_def)
  with Cons.IH [OF receive_recent [OF Cons.prems]] show ?case by simp
qed (simp add: lines_for_def)

text \<open>C30: the live buffers hold the most recent output. After any lines received, a process's buffer
  holds the last 10000 of its lines, in order, and the two counters are the numbers of its stdout and
  stderr lines (so no decrement of a counter passes below zero); a process that has printed nothing
  has no buffer.\<close>

theorem recent_output:
  assumes "ap_buffers ap = []"
  shows "case hm_get (ap_buffers (fold receive rs ap)) name of
      None \<Rightarrow> lines_for name rs = []
    | Some b \<Rightarrow>
        all_lines b = drop (length (lines_for name rs) - 10000) (lines_for name rs) \<and>
        stdout_lines b = map snd (filter (\<lambda>(src, _). src = SrcStdout) (all_lines b)) \<and>
        ob_stdout_count b = length (stdout_lines b) \<and> ob_stderr_count b = length (stderr_lines b) \<and>
        ob_len b = ob_stdout_count b + ob_stderr_count b \<and> ob_len b \<le> 10000"
proof -
  have "recent name [] ap" by (simp add: recent_def assms)
  then have end_state: "recent name (lines_for name rs) (fold receive rs ap)"
    using receive_all_recent by fastforce
  show ?thesis
  proof (cases "hm_get (ap_buffers (fold receive rs ap)) name")
    case None
    with end_state show ?thesis by (simp add: recent_def)
  next
    case (Some b)
    have counts: "length (stdout_lines b) = count_source SrcStdout (ob_lines b)"
        "length (stderr_lines b) = count_source SrcStderr (ob_lines b)"
      by (simp_all add: stdout_lines_def stderr_lines_def count_source_def)
    have ok: "buffer_ok b" "ob_lines b = last_n 10000 (lines_for name rs)" "ob_max_lines b = 10000"
      using Some end_state by (simp_all add: recent_def MAX_BUFFER_LINES_def)
    have "ob_stdout_count b = length (stdout_lines b)" "ob_stderr_count b = length (stderr_lines b)"
        "ob_len b = ob_stdout_count b + ob_stderr_count b" "ob_len b \<le> 10000"
      using ok(1,3) count_source_both [of "ob_lines b"]
      by (simp_all only: counts buffer_ok_def ob_len_def)
    with Some ok(2) show ?thesis
      by (simp add: all_lines_def stdout_lines_def last_n_def)
  qed
qed

theorem recent_output_witness:
  "\<exists>b. hm_get (ap_buffers (fold receive
      [(example_view, ''web'', Stdout, ''up''), (example_view, ''db'', Stderr, ''warn''),
       (example_view, ''web'', Stderr, ''slow'')] app_new)) ''web'' = Some b \<and>
     all_lines b = [(SrcStdout, ''up''), (SrcStderr, ''slow'')] \<and> ob_stdout_count b = 1"
proof -
  let ?rs = "[(example_view, ''web'', Stdout, ''up''), (example_view, ''db'', Stderr, ''warn''),
       (example_view, ''web'', Stderr, ''slow'')]"
  have "ap_buffers app_new = []" by (simp add: app_new_def)
  from recent_output [OF this, where rs = ?rs and name = "''web''"] show ?thesis
    by (auto simp: lines_for_def source_of_stream_def split: option.splits)
qed


definition example_app :: app where
  "example_app =
     app_new\<lparr>ap_disk_readers := [(''web'', disk_log_reader_new ''/logs'' ''web'')],
       ap_buffers := [(''web'', ob_push SrcStdout ''up'' (output_buffer_new MAX_BUFFER_LINES))]\<rparr>"

lemma example_app_reads: "reads example_view example_app ''web'' (visible \<circ> example_segments)"
  using logs_found_sees [of "''/logs''" "''web''" example_view example_segments] example_logs_found
  by (simp add: reads_def example_app_def example_view_def)

lemma example_app_lines:
  "mode_lines (visible \<circ> example_segments) ModeStdout = [(SrcStdout, ''boot''), (SrcStdout, ''up'')]"
  by code_simp


text \<open>C32: a filter shows exactly the matching lines. After a filter was confirmed, the window of
  every process with log files is the window, at its scroll position, of the lines of its log that
  contain the filter's text.\<close>

theorem filter_shows_matches:
  assumes "reads vw ap name L" and "ap_filter_buf ap \<noteq> []"
    and "found = filter (\<lambda>(_, line). str_contains (ap_filter_buf ap) line) (mode_lines L (ap_stream_mode ap))"
  shows "let end = length found - (if ap_paused ap then offset_of name ap else 0)
         in fst (visible_lines vw name h (confirm_filter vw ap)) = Some (drop (end - h) (take end found))"
proof -
  define ap1 where "ap1 = ap\<lparr>ap_input_mode := NormalMode, ap_filter := Some (ap_filter_buf ap)\<rparr>"
  have reads1: "reads vw ap1 name L" and mode: "ap_stream_mode ap1 = ap_stream_mode ap"
    and pat: "ap_filter ap1 = Some (ap_filter_buf ap)"
    using assms(1) by (simp_all add: ap1_def reads_def)
  have confirm: "confirm_filter vw ap = fold (build_filtered_index vw) (hm_keys (ap_disk_readers ap1)) ap1"
    using assms(2) by (simp add: confirm_filter_def build_filtered_indices_def ap1_def)
  have "name \<in> set (hm_keys (ap_disk_readers ap1))"
    using reads1 by (force simp: reads_def dest: map_of_SomeD)
  with build_indices_reads [OF reads1 pat, of "hm_keys (ap_disk_readers ap1)", folded confirm]
  have built: "reads vw (confirm_filter vw ap) name L"
      "hm_get (ap_filtered_indices (confirm_filter vw ap)) name = Some (index_of (ap_filter_buf ap) (ap_stream_mode ap) L)"
    by (simp_all add: mode)
  have fields: "ap_filter (confirm_filter vw ap) = Some (ap_filter_buf ap)"
      "ap_stream_mode (confirm_filter vw ap) = ap_stream_mode ap"
      "shown_offset name (confirm_filter vw ap) = (if ap_paused ap then offset_of name ap else 0)"
    by (simp_all add: confirm pat mode shown_offset_def offset_of_def) (simp_all add: ap1_def)
  show ?thesis
    using filtered_window [OF built(1) fields(1) built(2) [folded fields(2)], of h]
    by (simp add: fields assms(3) tail_window_drop Let_def)
qed

theorem filter_shows_matches_witness:
  "fst (visible_lines example_view ''web'' 5 (confirm_filter example_view (example_app\<lparr>ap_filter_buf := ''oo''\<rparr>)))
     = Some [(SrcStdout, ''boot'')]"
proof -
  let ?ap = "example_app\<lparr>ap_filter_buf := ''oo''\<rparr>"
  have "reads example_view ?ap ''web'' (visible \<circ> example_segments)"
    using example_app_reads by (simp add: reads_def)
  moreover have "ap_stream_mode ?ap = ModeStdout" "\<not> ap_paused ?ap" "ap_filter_buf ?ap \<noteq> []"
    by (simp_all add: example_app_def app_new_def)
  ultimately show ?thesis
    using filter_shows_matches [of example_view ?ap "''web''" "visible \<circ> example_segments", OF _ _ refl, where h = 5]
    by (simp add: example_app_lines)
qed

text \<open>C33: the incremental update of a filter's index is a rebuild. When a line arrives after the
  log has only grown since the index was built, scanning the new part leaves exactly the index that
  scanning the whole log again would build.\<close>

theorem incremental_filter_is_rebuild:
  assumes "reads vw ap name L" and "reads vw0 ap0 name L0"
    and "ap_filter ap = Some pat" and "ap_filter ap0 = Some pat" and "ap_stream_mode ap0 = ap_stream_mode ap"
    and "hm_get (ap_filtered_indices ap) name = hm_get (ap_filtered_indices (build_filtered_index vw0 name ap0)) name"
    and "prefix (mode_lines L0 (ap_stream_mode ap)) (mode_lines L (ap_stream_mode ap))"
  shows "hm_get (ap_filtered_indices (push_output vw name s line ap)) name
    = hm_get (ap_filtered_indices (build_filtered_index vw name ap)) name"
proof -
  define ap1 where "ap1 = ap\<lparr>ap_buffers := ap_buffers (push_output vw name s line ap)\<rparr>"
  have push: "push_output vw name s line ap = update_filtered_index vw name ap1"
    by (simp add: ap1_def push_output_buffers) (simp add: push_output_def assms(3) Let_def)
  have "hm_get (ap_filtered_indices ap1) name = Some (index_of pat (ap_stream_mode ap) L0)"
    using assms(6) build_index_reads(1) [OF assms(2,4)] assms(5) by (simp add: ap1_def)
  moreover have "reads vw ap1 name L" using assms(1) by (simp add: ap1_def)
  ultimately show ?thesis
    using update_index_reads [OF _ _ assms(7)] build_index_reads(1) [OF assms(1,3)] push by simp
qed

theorem incremental_filter_is_rebuild_witness:
  "let ap = build_filtered_index example_view ''web'' (example_app\<lparr>ap_filter := Some ''oo''\<rparr>)
   in hm_get (ap_filtered_indices (push_output example_view ''web'' Stdout ''up'' ap)) ''web''
     = hm_get (ap_filtered_indices (build_filtered_index example_view ''web'' ap)) ''web''"
proof -
  let ?fresh = "example_app\<lparr>ap_filter := Some ''oo''\<rparr>"
  let ?ap = "build_filtered_index example_view ''web'' ?fresh"
  have r0: "reads example_view ?fresh ''web'' (visible \<circ> example_segments)"
    using example_app_reads by (simp add: reads_def)
  have r: "reads example_view ?ap ''web'' (visible \<circ> example_segments)"
    by (rule build_index_reads(2) [OF r0]) simp
  show ?thesis
    unfolding Let_def
    by (rule incremental_filter_is_rebuild [OF r r0, where pat = "''oo''"]) simp_all
qed

end
