(* ===== verification/Tui_Event_Loop.thy ===== *)
theory Tui_Event_Loop
  imports Tui_View Client_Commands
begin

text \<open>
  \<open>src/tui/event_loop.rs\<close>, \<open>src/tui/input.rs\<close> and the part of \<open>src/tui/ui.rs\<close> that changes the
  application: the loop that draws, takes the next event and handles it. The background tasks are the
  source of the events: their order is arbitrary. What the loop sends to the daemon and the reader
  tasks it starts are kept in order in the state. Of the terminal library only the keys and mouse
  events the program distinguishes are named.
\<close>

section \<open>Keys\<close>

text \<open>A typed character is its UTF-8 bytes.\<close>

datatype key_code =
    KeyDown | KeyUp | KeyChar string | KeyPageUp | KeyPageDown | KeyHome | KeyEnd | KeyEsc | KeyEnter
  | KeyBackspace | KeyOther nat

record key_event =
  ke_code :: key_code
  ke_control :: bool

datatype action =
    SelectNext | SelectPrev | RestartSel | StopSel | StopAllSel | CycleStream | TogglePause | ScrollUp
  | ScrollDown | ScrollToTop | ScrollToBottom | StartFilter | ClearFilter | Quit | QuitAndStop | NoAction

datatype filter_action = FilterChar string | FilterBackspace | FilterConfirm | FilterCancel

definition input_key :: "key_event \<Rightarrow> action" where
  "input_key key =
     (case ke_code key of
        KeyDown \<Rightarrow> SelectNext
      | KeyUp \<Rightarrow> SelectPrev
      | KeyPageUp \<Rightarrow> ScrollUp
      | KeyPageDown \<Rightarrow> ScrollDown
      | KeyHome \<Rightarrow> ScrollToTop
      | KeyEnd \<Rightarrow> ScrollToBottom
      | KeyEsc \<Rightarrow> ClearFilter
      | KeyChar c \<Rightarrow>
          (if c = ''j'' then SelectNext
           else if c = ''k'' then SelectPrev
           else if c = ''r'' then RestartSel
           else if c = ''x'' then StopSel
           else if c = ''X'' then StopAllSel
           else if c = ''e'' then CycleStream
           else if c = '' '' then TogglePause
           else if c = ''u'' then ScrollUp
           else if c = ''d'' then ScrollDown
           else if c = ''g'' then ScrollToTop
           else if c = ''G'' then ScrollToBottom
           else if c = ''/'' then StartFilter
           else if c = ''q'' then Quit
           else if c = ''Q'' then QuitAndStop
           else if c = ''c'' \<and> ke_control key then Quit
           else NoAction)
      | _ \<Rightarrow> NoAction)"

definition input_filter_key :: "key_event \<Rightarrow> filter_action" where
  "input_filter_key key =
     (case ke_code key of
        KeyEnter \<Rightarrow> FilterConfirm
      | KeyBackspace \<Rightarrow> FilterBackspace
      | KeyChar c \<Rightarrow> FilterChar c
      | _ \<Rightarrow> FilterCancel)"

text \<open>\<open>String::pop\<close> takes the last character: its first byte and the bytes that continue it.\<close>

definition str_pop :: "string \<Rightarrow> string" where
  "str_pop s = rev (tl (dropWhile continues (rev s)))"

section \<open>Events\<close>

datatype mouse_kind = MouseScrollUp | MouseScrollDown | MouseDownLeft | MouseOther nat

record mouse_event =
  me_kind :: mouse_kind
  me_column :: u16
  me_row :: u16

datatype app_event =
    EvKey key_event
  | EvMouse mouse_event
  | EvOutputLine string stream string
  | EvStatusUpdate "process_info list"
  | EvOutputStreamClosed

datatype reconnect_state = Connected | Reconnecting u32 | ReconnectFailed

definition MAX_RECONNECT_ATTEMPTS :: u32 where
  "MAX_RECONNECT_ATTEMPTS = 10"

text \<open>The application, the state of the connection, the requests sent and the delays (in seconds) of
  the reader tasks started.\<close>

record tui_loop =
  tl_app :: app
  tl_reconnect :: reconnect_state
  tl_requests :: "request list"
  tl_readers :: "nat list"

definition on_app :: "(app \<Rightarrow> app) \<Rightarrow> tui_loop \<Rightarrow> tui_loop" where
  "on_app f st = st\<lparr>tl_app := f (tl_app st)\<rparr>"

definition send_to_daemon :: "request \<Rightarrow> tui_loop \<Rightarrow> tui_loop" where
  "send_to_daemon req st = st\<lparr>tl_requests := tl_requests st @ [req]\<rparr>"

definition send_for_selected :: "(string \<Rightarrow> request) \<Rightarrow> tui_loop \<Rightarrow> tui_loop" where
  "send_for_selected req st =
     (case selected_name (tl_app st) of None \<Rightarrow> st | Some name \<Rightarrow> send_to_daemon (req name) st)"

definition handle_filter_input :: "view \<Rightarrow> key_event \<Rightarrow> app \<Rightarrow> app" where
  "handle_filter_input vw key ap =
     (case input_filter_key key of
        FilterChar c \<Rightarrow> ap\<lparr>ap_filter_buf := ap_filter_buf ap @ c\<rparr>
      | FilterBackspace \<Rightarrow> ap\<lparr>ap_filter_buf := str_pop (ap_filter_buf ap)\<rparr>
      | FilterConfirm \<Rightarrow> confirm_filter vw ap
      | FilterCancel \<Rightarrow> cancel_filter ap)"

definition handle_tui_key :: "view \<Rightarrow> key_event \<Rightarrow> tui_loop \<Rightarrow> tui_loop" where
  "handle_tui_key vw key st =
     (if ap_input_mode (tl_app st) = FilterInput then on_app (handle_filter_input vw key) st
      else
        (case input_key key of
           SelectNext \<Rightarrow> on_app select_next st
         | SelectPrev \<Rightarrow> on_app select_prev st
         | CycleStream \<Rightarrow> on_app (cycle_stream_mode vw) st
         | TogglePause \<Rightarrow> on_app toggle_pause st
         | ScrollUp \<Rightarrow> on_app (scroll_up vw) st
         | ScrollDown \<Rightarrow> on_app scroll_down st
         | ScrollToTop \<Rightarrow> on_app (scroll_to_top vw) st
         | ScrollToBottom \<Rightarrow> on_app scroll_to_bottom st
         | StartFilter \<Rightarrow> on_app start_filter st
         | ClearFilter \<Rightarrow> on_app clear_filter st
         | Quit \<Rightarrow> on_app app_quit st
         | QuitAndStop \<Rightarrow> on_app quit_and_stop st
         | StopSel \<Rightarrow> send_for_selected ReqStop st
         | StopAllSel \<Rightarrow> send_to_daemon ReqStopAll st
         | RestartSel \<Rightarrow> send_for_selected ReqRestart st
         | NoAction \<Rightarrow> st))"

definition handle_mouse :: "view \<Rightarrow> mouse_event \<Rightarrow> app \<Rightarrow> app" where
  "handle_mouse vw mouse ap =
     (case me_kind mouse of
        MouseScrollUp \<Rightarrow> scroll_up_by vw 3 ap
      | MouseScrollDown \<Rightarrow> scroll_down_by 3 ap
      | MouseDownLeft \<Rightarrow>
          (if me_column mouse < 22 then
             (let row = unat (me_row mouse) - 1
              in if row < length (ap_processes ap) then ap\<lparr>ap_selected := row\<rparr> else ap)
           else ap)
      | MouseOther _ \<Rightarrow> ap)"

text \<open>\<open>2u64.saturating_pow(attempt).min(30)\<close>.\<close>

definition reconnect_delay :: "u32 \<Rightarrow> nat" where
  "reconnect_delay attempt = min (min (2 ^ unat attempt) (2 ^ 64 - 1)) 30"

definition handle_reconnect :: "tui_loop \<Rightarrow> tui_loop" where
  "handle_reconnect st =
     (case (case tl_reconnect st of
              Connected \<Rightarrow> Some 0 | Reconnecting attempt \<Rightarrow> Some attempt | ReconnectFailed \<Rightarrow> None) of
        None \<Rightarrow> st
      | Some attempt \<Rightarrow>
          (if attempt \<ge> MAX_RECONNECT_ATTEMPTS then st\<lparr>tl_reconnect := ReconnectFailed\<rparr>
           else st\<lparr>tl_reconnect := Reconnecting (attempt + 1),
                   tl_readers := tl_readers st @ [reconnect_delay attempt]\<rparr>))"

section \<open>The loop\<close>

text \<open>What is constant: the directory of the session's logs.\<close>

definition add_reader :: "string \<Rightarrow> process_info \<Rightarrow> app \<Rightarrow> app" where
  "add_reader logs p ap =
     (if hm_contains (ap_disk_readers ap) (pi_name p) then ap
      else ap\<lparr>ap_disk_readers := hm_insert (pi_name p) (disk_log_reader_new logs (pi_name p)) (ap_disk_readers ap)\<rparr>)"

definition handle_event :: "string \<Rightarrow> view \<Rightarrow> app_event \<Rightarrow> tui_loop \<Rightarrow> tui_loop" where
  "handle_event logs vw ev st =
     (case ev of
        EvKey key \<Rightarrow> handle_tui_key vw key st
      | EvMouse mouse \<Rightarrow> on_app (handle_mouse vw mouse) st
      | EvOutputLine process s line \<Rightarrow>
          on_app (push_output vw process s line) (st\<lparr>tl_reconnect := Connected\<rparr>)
      | EvStatusUpdate processes \<Rightarrow>
          on_app (\<lambda>ap. update_processes processes (fold (add_reader logs) processes ap)) st
      | EvOutputStreamClosed \<Rightarrow> handle_reconnect st)"

text \<open>\<open>draw_output\<close>: the pane of height \<open>h\<close> has a border of two lines. The lines it shows, and the
  application with the height and the refreshed readers.\<close>

definition draw_output :: "view \<Rightarrow> nat \<Rightarrow> app \<Rightarrow> (line_source \<times> string) list \<times> app" where
  "draw_output vw h ap =
     (let name = (case selected_name ap of Some n \<Rightarrow> n | None \<Rightarrow> ''(none)'');
          ap = ap\<lparr>ap_visible_height := h - 2\<rparr>;
          (window, ap) = visible_lines vw name (h - 2) ap
      in ((case window of Some ls \<Rightarrow> ls | None \<Rightarrow> []), ap))"

text \<open>One turn: the view and height it is drawn in, whether drawing succeeded, and the event.\<close>

record turn =
  tn_view :: view
  tn_height :: nat
  tn_drawn :: bool
  tn_event :: app_event

definition leave_loop :: "tui_loop \<Rightarrow> tui_loop" where
  "leave_loop st = (if ap_stop_all_on_quit (tl_app st) then send_to_daemon ReqShutdown st else st)"

text \<open>The state, and whether the loop has ended (otherwise it waits for the next event).\<close>

fun tui_run :: "string \<Rightarrow> turn list \<Rightarrow> tui_loop \<Rightarrow> tui_loop \<times> bool" where
  "tui_run logs [] st = (if \<not> ap_running (tl_app st) then (leave_loop st, True) else (st, False))"
| "tui_run logs (t # ts) st =
     (if \<not> ap_running (tl_app st) then (leave_loop st, True)
      else
        (let st = on_app (\<lambda>ap. snd (draw_output (tn_view t) (tn_height t) ap)) st
         in if \<not> tn_drawn t then (leave_loop st, True)
            else tui_run logs ts (handle_event logs (tn_view t) (tn_event t) st)))"

section \<open>Starting with the logs on disk\<close>

text \<open>The process and stream of a log file's name.\<close>

definition log_file_of :: "string \<Rightarrow> (string \<times> stream) option" where
  "log_file_of name =
     (if str_ends_with ''.stdout'' name then Some (take (length name - 7) name, Stdout)
      else if str_ends_with ''.stderr'' name then Some (take (length name - 7) name, Stderr)
      else None)"

text \<open>The room for a thousand lines is always there.\<close>

definition preload :: "view \<Rightarrow> string \<Rightarrow> string \<Rightarrow> app \<Rightarrow> app" where
  "preload vw logs name ap =
     (case log_file_of name of
        None \<Rightarrow> ap
      | Some (process, s) \<Rightarrow>
          (case tail_file (\<lambda>_. True) (vw_fs vw) (path_join logs name) 1000 of
             Some (Inr ls) \<Rightarrow> fold (push_output vw process s) ls ap
           | _ \<Rightarrow> ap))"

definition init_disk_readers :: "view \<Rightarrow> io_error + string list \<Rightarrow> string \<Rightarrow> app \<Rightarrow> app" where
  "init_disk_readers vw entries logs ap =
     (case entries of
        Inl _ \<Rightarrow> ap
      | Inr names \<Rightarrow>
          (let seen = remdups (map fst (List.map_filter log_file_of names));
               ap = fold (\<lambda>process ap.
                            ap\<lparr>ap_disk_readers :=
                                 hm_insert process (disk_log_reader_new logs process) (ap_disk_readers ap)\<rparr>)
                      seen ap
           in fold (preload vw logs) names ap))"

section \<open>The output stream\<close>

text \<open>The events of one reader task; the reads as in \<open>stream_loop\<close>, whose lines are JSON. A request that
  cannot be written ends the task without an event.\<close>

fun reader_loop :: "(string \<Rightarrow> string + response) \<Rightarrow> (io_error + string) list \<Rightarrow> app_event list" where
  "reader_loop parse [] = []"
| "reader_loop parse (Inl e # rs) = [EvOutputStreamClosed]"
| "reader_loop parse (Inr line # rs) =
     (if line = [] then [EvOutputStreamClosed]
      else
        (case parse line of
           Inr (RespLogLine process s l) \<Rightarrow> EvOutputLine process s l # reader_loop parse rs
         | Inr RespLogEnd \<Rightarrow> [EvOutputStreamClosed]
         | _ \<Rightarrow> reader_loop parse rs))"

definition output_stream_reader ::
  "client_env \<Rightarrow> string \<Rightarrow> (io_error + string) list \<Rightarrow> app_event list" where
  "output_stream_reader ev session incoming =
     (case connect ev session False of
        Inl _ \<Rightarrow> [EvOutputStreamClosed]
      | Inr _ \<Rightarrow>
          (case send_request ev (ReqLogs None 0 True False True None None) of
             Inl _ \<Rightarrow> []
           | Inr _ \<Rightarrow> reader_loop (ce_from_json ev) incoming))"

text \<open>The status poller's events, one answer per tick.\<close>

definition status_events :: "(client_error + response) list \<Rightarrow> app_event list" where
  "status_events results =
     List.map_filter
       (\<lambda>res. case res of Inr (RespStatus processes) \<Rightarrow> Some (EvStatusUpdate processes) | _ \<Rightarrow> None) results"

section \<open>What only reads\<close>

definition readers_only :: "app \<Rightarrow> app \<Rightarrow> bool" where
  "readers_only ap ap' \<longleftrightarrow>
     (\<exists>rs. ap' = ap\<lparr>ap_disk_readers := rs\<rparr> \<and> hm_keys rs = hm_keys (ap_disk_readers ap))"

lemma readers_only_refl [simp]: "readers_only ap ap"
  by (auto simp: readers_only_def intro: exI [of _ "ap_disk_readers ap"])

lemma readers_only_trans: "readers_only a b \<Longrightarrow> readers_only b c \<Longrightarrow> readers_only a c"
  by (auto simp: readers_only_def)

lemma with_reader_only: "readers_only ap (snd (with_reader name d f ap))"
  using with_reader_frame [of name d f ap] by (auto simp: readers_only_def)

lemma counts_only:
  "readers_only ap (snd (disk_line_count vw name ap))"
  "readers_only ap (snd (disk_read_range vw name start cnt ap))"
  "readers_only ap (snd (total_line_count vw name ap))"
  "readers_only ap (snd (line_count_for vw name ap))"
  by (simp_all add: disk_line_count_def disk_read_range_def total_line_count_def line_count_for_def
      with_reader_only case_prod_unfold Let_def)

lemma visible_lines_only: "readers_only ap (snd (visible_lines vw name h ap))"
proof -
  have total: "readers_only ap (snd (disk_line_count vw name (snd (total_line_count vw name ap))))"
    using readers_only_trans [OF counts_only(3) counts_only(1)] .
  have read: "readers_only ap (snd (disk_read_range vw name a b
      (snd (disk_line_count vw name (snd (total_line_count vw name ap))))))" for a b
    using readers_only_trans [OF total counts_only(2)] .
  show ?thesis
    by (simp add: visible_lines_def filtered_visible_lines_def with_reader_only counts_only(3) total read
        case_prod_unfold Let_def)
qed

section \<open>The invariant of the application\<close>

definition indices_ok :: "app \<Rightarrow> bool" where
  "indices_ok ap \<longleftrightarrow>
     (\<forall>n fi. hm_get (ap_filtered_indices ap) n = Some fi \<longrightarrow>
        ap_filter ap = Some (fi_filter fi) \<and> fi_stream_mode fi = ap_stream_mode ap \<and>
        n \<in> set (hm_keys (ap_disk_readers ap)))"

definition app_inv :: "app \<Rightarrow> bool" where
  "app_inv ap \<longleftrightarrow>
     (ap_processes ap = [] \<or> ap_selected ap < length (ap_processes ap)) \<and>
     ap_filter ap \<noteq> Some [] \<and>
     (\<forall>b \<in> snd ` set (ap_buffers ap). buffer_ok b \<and> ob_max_lines b = MAX_BUFFER_LINES) \<and>
     indices_ok ap"

lemma app_inv_new: "app_inv app_new"
  by (simp add: app_inv_def app_new_def indices_ok_def)

lemma app_inv_readers_only: "\<lbrakk>app_inv ap; readers_only ap ap'\<rbrakk> \<Longrightarrow> app_inv ap'"
proof -
  assume inv: "app_inv ap" and "readers_only ap ap'"
  then obtain rs where rs: "ap' = ap\<lparr>ap_disk_readers := rs\<rparr>" "hm_keys rs = hm_keys (ap_disk_readers ap)"
    by (auto simp: readers_only_def)
  have "fst ` set rs = fst ` set (ap_disk_readers ap)" using rs(2) by (metis set_map)
  with inv show ?thesis by (simp add: rs(1) app_inv_def indices_ok_def)
qed

lemma app_inv_fields:
  "app_inv (ap\<lparr>ap_paused := a\<rparr>) = app_inv ap"
  "app_inv (ap\<lparr>ap_scroll_offsets := b\<rparr>) = app_inv ap"
  "app_inv (ap\<lparr>ap_running := c\<rparr>) = app_inv ap"
  "app_inv (ap\<lparr>ap_stop_all_on_quit := d\<rparr>) = app_inv ap"
  "app_inv (ap\<lparr>ap_input_mode := e\<rparr>) = app_inv ap"
  "app_inv (ap\<lparr>ap_filter_buf := f\<rparr>) = app_inv ap"
  "app_inv (ap\<lparr>ap_visible_height := g\<rparr>) = app_inv ap"
  by (simp_all add: app_inv_def indices_ok_def)

text \<open>Building the indices of all readers makes them agree with the filter and the mode.\<close>

lemma build_index_get:
  assumes "ap_filter ap = Some pat"
  shows "\<exists>fi. hm_get (ap_filtered_indices (build_filtered_index vw name ap)) name = Some fi \<and>
    fi_filter fi = pat \<and> fi_stream_mode fi = ap_stream_mode ap"
  by (simp add: build_filtered_index_def assms case_prod_unfold Let_def)

lemma build_indices_ok:
  assumes "ap_filter ap = Some pat"
    and "\<forall>n fi. n \<notin> set ns \<longrightarrow> hm_get (ap_filtered_indices ap) n = Some fi \<longrightarrow>
      fi_filter fi = pat \<and> fi_stream_mode fi = ap_stream_mode ap \<and> n \<in> set (hm_keys (ap_disk_readers ap))"
    and "set ns \<subseteq> set (hm_keys (ap_disk_readers ap))"
  shows "indices_ok (fold (build_filtered_index vw) ns ap)"
  using assms
proof (induction ns arbitrary: ap)
  case Nil
  then show ?case by (auto simp: indices_ok_def)
next
  case (Cons m ns)
  let ?ap = "build_filtered_index vw m ap"
  have "fi_filter fi = pat \<and> fi_stream_mode fi = ap_stream_mode ap \<and> n \<in> set (hm_keys (ap_disk_readers ap))"
    if "n \<notin> set ns" "hm_get (ap_filtered_indices ?ap) n = Some fi" for n fi
  proof (cases "n = m")
    case True
    with build_index_get [OF Cons.prems(1), of vw m] that(2) Cons.prems(3) show ?thesis by auto
  next
    case False
    with that Cons.prems(2) show ?thesis by (auto simp: build_index_others(1))
  qed
  then have "indices_ok (fold (build_filtered_index vw) ns ?ap)"
    by (intro Cons.IH) (use Cons.prems(1,3) in auto)
  then show ?case by simp
qed

lemma build_all_inv:
  assumes "app_inv (ap\<lparr>ap_filter := None, ap_filtered_indices := []\<rparr>)" and "ap_filter ap = Some pat" and "pat \<noteq> []"
    and "\<forall>n fi. hm_get (ap_filtered_indices ap) n = Some fi \<longrightarrow> n \<in> set (hm_keys (ap_disk_readers ap))"
  shows "app_inv (build_filtered_indices vw ap)"
proof -
  have "indices_ok (build_filtered_indices vw ap)"
    unfolding build_filtered_indices_def
    by (rule build_indices_ok [OF assms(2)]) (use assms(4) in auto)
  with assms show ?thesis by (simp add: app_inv_def build_filtered_indices_def)
qed

lemma app_inv_cycle:
  assumes "app_inv ap"
  shows "app_inv (cycle_stream_mode vw ap)"
proof (cases "ap_filter ap")
  case None
  with assms have "hm_get (ap_filtered_indices ap) n = None" for n
    by (cases "hm_get (ap_filtered_indices ap) n") (auto simp: app_inv_def indices_ok_def)
  then have "ap_filtered_indices ap = []" using map_of_eq_empty_iff [of "ap_filtered_indices ap"] by blast
  with assms None show ?thesis by (simp add: cycle_stream_mode_def app_inv_def indices_ok_def Let_def)
next
  case (Some pat)
  with assms show ?thesis
    by (auto simp: cycle_stream_mode_def Let_def intro!: build_all_inv)
      (auto simp: app_inv_def indices_ok_def)
qed

lemma app_inv_confirm:
  assumes "app_inv ap"
  shows "app_inv (confirm_filter vw ap)"
proof (cases "ap_filter_buf ap = []")
  case True
  with assms show ?thesis by (simp add: confirm_filter_def app_inv_def indices_ok_def)
next
  case False
  with assms show ?thesis
    by (auto simp: confirm_filter_def Let_def intro!: build_all_inv)
      (auto simp: app_inv_def indices_ok_def)
qed

lemma app_inv_index:
  assumes "app_inv ap" and "hm_get (ap_filtered_indices ap) n = Some fi"
    and "fi_filter fi' = fi_filter fi" "fi_stream_mode fi' = fi_stream_mode fi"
  shows "app_inv (ap\<lparr>ap_filtered_indices := hm_insert n fi' (ap_filtered_indices ap)\<rparr>)"
proof -
  have ok: "indices_ok ap" using assms(1) by (simp add: app_inv_def)
  note old = ok [unfolded indices_ok_def, rule_format]
  have "indices_ok (ap\<lparr>ap_filtered_indices := hm_insert n fi' (ap_filtered_indices ap)\<rparr>)"
    unfolding indices_ok_def
  proof (intro allI impI)
    fix n' x
    assume get: "hm_get (ap_filtered_indices (ap\<lparr>ap_filtered_indices := hm_insert n fi' (ap_filtered_indices ap)\<rparr>)) n' = Some x"
    show "ap_filter (ap\<lparr>ap_filtered_indices := hm_insert n fi' (ap_filtered_indices ap)\<rparr>) = Some (fi_filter x) \<and>
        fi_stream_mode x = ap_stream_mode (ap\<lparr>ap_filtered_indices := hm_insert n fi' (ap_filtered_indices ap)\<rparr>) \<and>
        n' \<in> set (hm_keys (ap_disk_readers (ap\<lparr>ap_filtered_indices := hm_insert n fi' (ap_filtered_indices ap)\<rparr>)))"
    proof (cases "n' = n")
      case True
      with get have "x = fi'" by simp
      with old [OF assms(2)] assms(3,4) True show ?thesis by simp
    next
      case False
      with get have "hm_get (ap_filtered_indices ap) n' = Some x" by simp
      from old [OF this] show ?thesis by simp
    qed
  qed
  with assms(1) show ?thesis by (simp add: app_inv_def)
qed

lemma app_inv_update_index:
  assumes inv: "app_inv ap"
  shows "app_inv (update_filtered_index vw name ap)"
proof (cases "hm_get (ap_filtered_indices ap) name = None \<or> hm_get (ap_disk_readers ap) name = None")
  case True
  with inv show ?thesis by (auto simp: update_filtered_index_def split: option.split)
next
  case False
  then obtain fi r where fi: "hm_get (ap_filtered_indices ap) name = Some fi" "hm_get (ap_disk_readers ap) name = Some r"
    by auto
  have counted: "app_inv (snd (with_reader name 0 (reader_line_count vw (fi_stream_mode fi)) ap))"
    using app_inv_readers_only [OF inv with_reader_only] .
  note scanned = app_inv_readers_only [OF this with_reader_only]
  have index: "app_inv ((snd (with_reader name d f (snd (with_reader name 0 (reader_line_count vw (fi_stream_mode fi)) ap))))
      \<lparr>ap_filtered_indices := hm_insert name (fi\<lparr>fi_matching_lines := ms, fi_scanned_up_to := k\<rparr>) (ap_filtered_indices ap)\<rparr>)"
    for d ms k and f :: "disk_log_reader \<Rightarrow> nat list \<times> disk_log_reader"
    using app_inv_index [OF scanned, where n = name and fi = fi
      and fi' = "fi\<lparr>fi_matching_lines := ms, fi_scanned_up_to := k\<rparr>"] fi(1) by simp
  show ?thesis
    using fi counted by (simp add: update_filtered_index_def case_prod_unfold Let_def index)
qed

lemma app_inv_buffer:
  assumes "app_inv ap" and "buffer_ok b" and "ob_max_lines b = MAX_BUFFER_LINES"
  shows "app_inv (ap\<lparr>ap_buffers := hm_insert process b (ap_buffers ap)\<rparr>)"
proof -
  have "snd ` set (hm_insert k v m) \<subseteq> insert v (snd ` set m)" for k v and m :: "(string, output_buffer) hashmap"
    by (induction m) auto
  from this [of process b "ap_buffers ap"] assms
  have "\<forall>b \<in> snd ` set (hm_insert process b (ap_buffers ap)). buffer_ok b \<and> ob_max_lines b = MAX_BUFFER_LINES"
    unfolding app_inv_def by blast
  with assms(1) show ?thesis by (simp add: app_inv_def indices_ok_def)
qed

lemma app_inv_push:
  assumes "app_inv ap"
  shows "app_inv (push_output vw process s line ap)"
proof -
  define buf where "buf = (case hm_get (ap_buffers ap) process of
      None \<Rightarrow> output_buffer_new MAX_BUFFER_LINES | Some buf \<Rightarrow> buf)"
  have "buffer_ok b \<and> ob_max_lines b = MAX_BUFFER_LINES" if "hm_get (ap_buffers ap) process = Some b" for b
    using assms map_of_SomeD [OF that] by (force simp: app_inv_def)
  then have "buffer_ok buf" "ob_max_lines buf = MAX_BUFFER_LINES"
    by (cases "hm_get (ap_buffers ap) process";
        simp add: buf_def buffer_ok_new MAX_BUFFER_LINES_def output_buffer_new_def [of 10000] buffer_ok_def count_source_def)+
  then have "app_inv (ap\<lparr>ap_buffers := hm_insert process (ob_push (source_of_stream s) line buf) (ap_buffers ap)\<rparr>)"
    by (intro app_inv_buffer [OF assms]) (simp_all add: ob_push_ok)
  with app_inv_update_index [OF this] show ?thesis
    by (simp add: push_output_def Let_def flip: buf_def)
qed

lemma app_inv_scroll:
  assumes "app_inv ap"
  shows "app_inv (scroll_up_by vw n ap)" "app_inv (scroll_down_by n ap)"
    "app_inv (scroll_to_top vw ap)" "app_inv (scroll_to_bottom ap)" "app_inv (toggle_pause ap)"
proof -
  have "app_inv (snd (line_count_for vw name ap'))" if "app_inv ap'" for name ap'
    by (rule app_inv_readers_only [OF that counts_only(4)])
  with assms show "app_inv (scroll_up_by vw n ap)" "app_inv (scroll_down_by n ap)"
    "app_inv (scroll_to_top vw ap)" "app_inv (scroll_to_bottom ap)" "app_inv (toggle_pause ap)"
    by (simp_all add: scroll_up_by_def scroll_down_by_def scroll_to_top_def scroll_to_bottom_def toggle_pause_def
        set_offset_def app_inv_fields Let_def case_prod_unfold split: option.split)
qed

lemma app_inv_selected:
  "app_inv (ap\<lparr>ap_processes := ps, ap_selected := k\<rparr>) \<longleftrightarrow>
     app_inv (ap\<lparr>ap_processes := [], ap_selected := 0\<rparr>) \<and> (ps = [] \<or> k < length ps)"
  by (auto simp: app_inv_def indices_ok_def)

lemma app_inv_weaken: "app_inv ap \<Longrightarrow> app_inv (ap\<lparr>ap_processes := [], ap_selected := 0\<rparr>)"
  by (simp add: app_inv_def indices_ok_def)

lemma app_inv_select:
  assumes "app_inv ap"
  shows "app_inv (select_next ap)" "app_inv (select_prev ap)" "app_inv (update_processes ps ap)"
    "row < length (ap_processes ap) \<Longrightarrow> app_inv (ap\<lparr>ap_selected := row\<rparr>)"
proof -
  have set_to: "app_inv (ap\<lparr>ap_selected := k\<rparr>)" if "ap_processes ap = [] \<or> k < length (ap_processes ap)" for k
    using app_inv_weaken [OF assms] that app_inv_selected [where ap = ap and ps = "ap_processes ap" and k = k] by simp
  have keep: "app_inv (ap\<lparr>ap_processes := ps\<rparr>)" if "ps = [] \<or> ap_selected ap < length ps" for ps
    using app_inv_weaken [OF assms] that app_inv_selected [where ap = ap and ps = ps and k = "ap_selected ap"] by simp
  have "app_inv (ap\<lparr>ap_processes := ps, ap_selected := length ps - 1\<rparr>)" if "ps \<noteq> []"
    using app_inv_weaken [OF assms] that app_inv_selected [where ap = ap and ps = ps and k = "length ps - 1"] by simp
  then show "app_inv (update_processes ps ap)"
    using keep [of ps] keep [of "[]"] by (simp add: update_processes_def Let_def not_le)
  show "app_inv (select_next ap)" using assms by (simp add: select_next_def set_to)
  have "ap_selected ap - 1 < length (ap_processes ap)" if "ap_processes ap \<noteq> []"
    using assms that by (simp add: app_inv_def less_imp_diff_less)
  then show "app_inv (select_prev ap)" using assms by (simp add: select_prev_def set_to)
  show "row < length (ap_processes ap) \<Longrightarrow> app_inv (ap\<lparr>ap_selected := row\<rparr>)" by (simp add: set_to)
qed

lemma app_inv_new_reader:
  "app_inv ap \<Longrightarrow> app_inv (ap\<lparr>ap_disk_readers := hm_insert n r (ap_disk_readers ap)\<rparr>)"
  by (auto simp: app_inv_def indices_ok_def dom_update)

lemma app_inv_add_reader: "app_inv ap \<Longrightarrow> app_inv (add_reader logs p ap)"
  by (simp add: add_reader_def app_inv_new_reader)

lemma app_inv_add_readers: "app_inv ap \<Longrightarrow> app_inv (fold (add_reader logs) ps ap)"
  by (induction ps arbitrary: ap) (simp_all add: app_inv_add_reader)

lemma app_inv_draw: "app_inv ap \<Longrightarrow> app_inv (snd (draw_output vw h ap))"
  using app_inv_readers_only [OF _ visible_lines_only]
  by (simp add: draw_output_def Let_def case_prod_unfold app_inv_fields)

lemma app_inv_clear: "app_inv ap \<Longrightarrow> app_inv (clear_filter ap)"
  by (simp add: clear_filter_def app_inv_def indices_ok_def)

lemma app_inv_filter_input: "app_inv ap \<Longrightarrow> app_inv (handle_filter_input vw key ap)"
  by (cases "input_filter_key key")
    (simp_all add: handle_filter_input_def app_inv_fields app_inv_confirm cancel_filter_def)

lemma app_inv_key:
  assumes "app_inv (tl_app st)"
  shows "app_inv (tl_app (handle_tui_key vw key st))"
proof (cases "ap_input_mode (tl_app st) = FilterInput")
  case True
  with assms show ?thesis by (simp add: handle_tui_key_def on_app_def app_inv_filter_input)
next
  case False
  with assms show ?thesis
    by (cases "input_key key"; cases "selected_name (tl_app st)")
      (simp_all add: handle_tui_key_def on_app_def send_to_daemon_def send_for_selected_def app_inv_select
        app_inv_cycle app_inv_scroll scroll_up_def scroll_down_def start_filter_def app_quit_def
        quit_and_stop_def app_inv_fields app_inv_clear)
qed

lemma app_inv_mouse: "app_inv ap \<Longrightarrow> app_inv (handle_mouse vw mouse ap)"
  by (cases "me_kind mouse") (simp_all add: handle_mouse_def app_inv_scroll app_inv_select(4) Let_def)

lemma app_inv_event:
  assumes "app_inv (tl_app st)"
  shows "app_inv (tl_app (handle_event logs vw ev st))"
proof (cases ev)
  case EvOutputStreamClosed
  with assms show ?thesis
    by (auto simp: handle_event_def handle_reconnect_def split: option.split reconnect_state.split)
qed (use assms in \<open>simp_all add: handle_event_def app_inv_key on_app_def app_inv_mouse app_inv_push
      app_inv_select app_inv_add_readers\<close>)

section \<open>Leaving\<close>

text \<open>The two fields that leaving sets, which every operation but the two that leave keeps.\<close>

definition leaving :: "app \<Rightarrow> bool \<times> bool" where
  "leaving ap = (ap_running ap, ap_stop_all_on_quit ap)"

lemma leaving_with_reader [simp]: "leaving (snd (with_reader name d f ap)) = leaving ap"
  by (simp add: leaving_def)

lemma leaving_counts [simp]: "leaving (snd (line_count_for vw name ap)) = leaving ap"
  by (simp add: line_count_for_def total_line_count_def disk_line_count_def case_prod_unfold Let_def)

lemma leaving_fields [simp]:
  "leaving (ap\<lparr>ap_processes := a\<rparr>) = leaving ap" "leaving (ap\<lparr>ap_selected := b\<rparr>) = leaving ap"
  "leaving (ap\<lparr>ap_buffers := c\<rparr>) = leaving ap" "leaving (ap\<lparr>ap_stream_mode := d\<rparr>) = leaving ap"
  "leaving (ap\<lparr>ap_paused := e\<rparr>) = leaving ap" "leaving (ap\<lparr>ap_scroll_offsets := f\<rparr>) = leaving ap"
  "leaving (ap\<lparr>ap_input_mode := g\<rparr>) = leaving ap" "leaving (ap\<lparr>ap_filter_buf := h\<rparr>) = leaving ap"
  "leaving (ap\<lparr>ap_filter := i\<rparr>) = leaving ap" "leaving (ap\<lparr>ap_filtered_indices := j\<rparr>) = leaving ap"
  "leaving (ap\<lparr>ap_disk_readers := k\<rparr>) = leaving ap" "leaving (ap\<lparr>ap_visible_height := l\<rparr>) = leaving ap"
  by (simp_all add: leaving_def)

lemma leaving_fold: "(\<And>x ap. leaving (f x ap) = leaving ap) \<Longrightarrow> leaving (fold f xs ap) = leaving ap"
  by (induction xs arbitrary: ap) simp_all

lemma leaving_filters [simp]:
  "leaving (cycle_stream_mode vw ap) = leaving ap" "leaving (confirm_filter vw ap) = leaving ap"
  "leaving (push_output vw process s line ap) = leaving ap"
proof -
  have one: "leaving (build_filtered_index vw n ap) = leaving ap" for n ap
    by (simp add: build_filtered_index_def case_prod_unfold Let_def split: option.split)
  have "leaving (build_filtered_indices vw ap) = leaving ap" for ap
    unfolding build_filtered_indices_def by (rule leaving_fold) (rule one)
  then show "leaving (cycle_stream_mode vw ap) = leaving ap" "leaving (confirm_filter vw ap) = leaving ap"
    by (simp_all add: cycle_stream_mode_def confirm_filter_def Let_def)
  have "leaving (update_filtered_index vw process ap) = leaving ap" for ap
    by (simp add: update_filtered_index_def case_prod_unfold Let_def split: option.split)
  then show "leaving (push_output vw process s line ap) = leaving ap"
    by (simp add: push_output_def Let_def)
qed

lemma leaving_scrolls [simp]:
  "leaving (scroll_up_by vw n ap) = leaving ap" "leaving (scroll_down_by n ap) = leaving ap"
  "leaving (scroll_to_top vw ap) = leaving ap" "leaving (scroll_to_bottom ap) = leaving ap"
  "leaving (toggle_pause ap) = leaving ap"
  by (simp_all add: scroll_up_by_def scroll_down_by_def scroll_to_top_def scroll_to_bottom_def toggle_pause_def
      set_offset_def case_prod_unfold Let_def split: option.split)

lemma leaving_others [simp]:
  "leaving (select_next ap) = leaving ap" "leaving (select_prev ap) = leaving ap"
  "leaving (update_processes ps ap) = leaving ap" "leaving (start_filter ap) = leaving ap"
  "leaving (clear_filter ap) = leaving ap" "leaving (handle_mouse vw mouse ap) = leaving ap"
  "leaving (handle_filter_input vw key ap) = leaving ap" "leaving (fold (add_reader logs) ps ap) = leaving ap"
proof -
  show "leaving (fold (add_reader logs) ps ap) = leaving ap"
    by (rule leaving_fold) (simp add: add_reader_def)
qed (simp_all add: select_next_def select_prev_def update_processes_def start_filter_def clear_filter_def
    cancel_filter_def handle_mouse_def handle_filter_input_def Let_def split: filter_action.split mouse_kind.split)

lemma leaving_init: "leaving (init_disk_readers vw entries logs ap) = leaving ap"
proof -
  have "leaving (preload vw logs name ap) = leaving ap" for name ap
    by (auto simp: preload_def leaving_fold split: option.split sum.split)
  then show ?thesis
    by (auto simp: init_disk_readers_def Let_def leaving_fold split: sum.split)
qed

text \<open>The key that quits and stops, in the mode where it is a command.\<close>

definition stop_key :: "app_event \<Rightarrow> app \<Rightarrow> bool" where
  "stop_key ev ap \<longleftrightarrow> (\<exists>ctrl. ev = EvKey \<lparr>ke_code = KeyChar ''Q'', ke_control = ctrl\<rparr>) \<and> ap_input_mode ap = NormalMode"

lemma input_key_stop: "input_key key = QuitAndStop \<longleftrightarrow> ke_code key = KeyChar ''Q''"
  by (auto simp: input_key_def split: key_code.split)

lemma event_leaving:
  "ap_stop_all_on_quit (tl_app (handle_event logs vw ev st)) \<longleftrightarrow>
     ap_stop_all_on_quit (tl_app st) \<or> stop_key ev (tl_app st)"
  "stop_key ev (tl_app st) \<Longrightarrow> \<not> ap_running (tl_app (handle_event logs vw ev st))"
proof -
  let ?st = "handle_event logs vw ev st"
  have kept: "\<not> stop_key ev (tl_app st) \<Longrightarrow> snd (leaving (tl_app ?st)) = snd (leaving (tl_app st))"
  proof (cases ev)
    case (EvKey key)
    assume "\<not> stop_key ev (tl_app st)"
    then have no: "ap_input_mode (tl_app st) = FilterInput \<or> input_key key \<noteq> QuitAndStop"
      by (cases key; cases "ap_input_mode (tl_app st)") (auto simp: EvKey stop_key_def input_key_stop)
    have quit: "snd (leaving (app_quit ap)) = snd (leaving ap)" for ap by (simp add: leaving_def app_quit_def)
    show ?thesis
      using no by (cases "input_key key")
        (auto simp: EvKey handle_event_def handle_tui_key_def on_app_def quit scroll_up_def scroll_down_def
          send_for_selected_def send_to_daemon_def split: option.split)
  next
    case EvOutputStreamClosed
    then show ?thesis by (simp add: handle_event_def handle_reconnect_def split: option.split)
  qed (simp_all add: handle_event_def on_app_def)
  have stopped: "leaving (tl_app ?st) = (False, True)" if "stop_key ev (tl_app st)"
    using that by (auto simp: stop_key_def handle_event_def handle_tui_key_def input_key_def on_app_def
        quit_and_stop_def leaving_def)
  show "ap_stop_all_on_quit (tl_app ?st) \<longleftrightarrow> ap_stop_all_on_quit (tl_app st) \<or> stop_key ev (tl_app st)"
    using kept stopped by (cases "stop_key ev (tl_app st)") (auto simp: leaving_def)
  show "stop_key ev (tl_app st) \<Longrightarrow> \<not> ap_running (tl_app ?st)"
    using stopped by (simp add: leaving_def)
qed

section \<open>Runs\<close>

lemma tui_run_append:
  "tui_run logs (ts @ us) st =
     (case tui_run logs ts st of (st', ended) \<Rightarrow> if ended then (st', True) else tui_run logs us st')"
proof (induction ts arbitrary: st)
  case Nil
  then show ?case by (cases us) simp_all
qed (simp_all add: Let_def)

lemma draw_output_frame:
  "ap_input_mode (snd (draw_output vw h ap)) = ap_input_mode ap"
  "ap_filter_buf (snd (draw_output vw h ap)) = ap_filter_buf ap"
  "ap_running (snd (draw_output vw h ap)) = ap_running ap"
  "ap_stop_all_on_quit (snd (draw_output vw h ap)) = ap_stop_all_on_quit ap"
proof -
  have "readers_only (ap\<lparr>ap_visible_height := h - 2\<rparr>) (snd (draw_output vw h ap))"
    using visible_lines_only [of "ap\<lparr>ap_visible_height := h - 2\<rparr>" vw _ "h - 2"]
    by (simp add: draw_output_def Let_def split_beta)
  then show "ap_input_mode (snd (draw_output vw h ap)) = ap_input_mode ap"
    "ap_filter_buf (snd (draw_output vw h ap)) = ap_filter_buf ap"
    "ap_running (snd (draw_output vw h ap)) = ap_running ap"
    "ap_stop_all_on_quit (snd (draw_output vw h ap)) = ap_stop_all_on_quit ap"
    by (auto simp: readers_only_def)
qed

lemma waiting_runs: "tui_run logs ts st = (st', False) \<Longrightarrow> ap_running (tl_app st')"
  by (induction ts arbitrary: st) (auto simp: Let_def split: if_splits)

lemma leave_loop_facts [simp]:
  "tl_app (leave_loop st) = tl_app st"
  "ReqShutdown \<in> set (tl_requests (leave_loop st)) \<longleftrightarrow>
     ReqShutdown \<in> set (tl_requests st) \<or> ap_stop_all_on_quit (tl_app st)"
  by (simp_all add: leave_loop_def send_to_daemon_def)

text \<open>A run leaves with a stop exactly when at some turn, with the interface drawn and waiting, the event
  was the key for it.\<close>

definition stop_pressed :: "string \<Rightarrow> turn list \<Rightarrow> tui_loop \<Rightarrow> bool" where
  "stop_pressed logs ts st0 \<longleftrightarrow>
     (\<exists>ts1 t ts2 st1. ts = ts1 @ t # ts2 \<and> tui_run logs ts1 st0 = (st1, False) \<and> tn_drawn t \<and>
        stop_key (tn_event t) (tl_app st1))"

lemma run_stop_pressed:
  assumes "tui_run logs ts st0 = (st, ended)" and "\<not> ap_stop_all_on_quit (tl_app st0)"
  shows "(ap_stop_all_on_quit (tl_app st) \<longleftrightarrow> stop_pressed logs ts st0) \<and>
    (stop_pressed logs ts st0 \<longrightarrow> ended)"
  using assms
proof (induction ts arbitrary: st0)
  case Nil
  then show ?case by (auto simp: stop_pressed_def leave_loop_def split: if_splits)
next
  case (Cons t ts)
  define st1 where "st1 = on_app (\<lambda>ap. snd (draw_output (tn_view t) (tn_height t) ap)) st0"
  define st2 where "st2 = handle_event logs (tn_view t) (tn_event t) st1"
  have same: "ap_stop_all_on_quit (tl_app st1) = ap_stop_all_on_quit (tl_app st0)"
    "stop_key ev (tl_app st1) = stop_key ev (tl_app st0)" for ev
    by (simp_all add: st1_def on_app_def stop_key_def draw_output_frame)
  have first: "stop_pressed logs (t # ts) st0 \<longleftrightarrow>
      ap_running (tl_app st0) \<and> tn_drawn t \<and> (stop_key (tn_event t) (tl_app st0) \<or> stop_pressed logs ts st2)"
  proof -
    define P where "P st ts1 u \<longleftrightarrow> (\<exists>st1. tui_run logs ts1 st = (st1, False) \<and> tn_drawn u \<and>
        stop_key (tn_event u) (tl_app st1))" for st ts1 and u :: turn
    have pressed: "stop_pressed logs us st \<longleftrightarrow> (\<exists>ts1 u ts2. us = ts1 @ u # ts2 \<and> P st ts1 u)" for us st
      unfolding stop_pressed_def P_def by blast
    have split: "(\<exists>ts1 u ts2. t # ts = ts1 @ u # ts2 \<and> Q ts1 u) \<longleftrightarrow>
        Q [] t \<or> (\<exists>ts1 u ts2. ts = ts1 @ u # ts2 \<and> Q (t # ts1) u)" for Q
      unfolding Cons_eq_append_conv by blast
    have "P st0 [] t \<longleftrightarrow> ap_running (tl_app st0) \<and> tn_drawn t \<and> stop_key (tn_event t) (tl_app st0)"
      by (simp add: P_def)
    moreover have "P st0 (t # ts1) u \<longleftrightarrow> ap_running (tl_app st0) \<and> tn_drawn t \<and> P st2 ts1 u" for ts1 u
      by (simp add: P_def Let_def st2_def st1_def)
    ultimately show ?thesis unfolding pressed split by blast
  qed
  show ?case
  proof (cases "ap_running (tl_app st0) \<and> tn_drawn t")
    case False
    with Cons.prems(1) have "st = leave_loop st0 \<or> st = leave_loop st1"
      by (auto simp: Let_def simp flip: st1_def split: if_splits)
    with False Cons.prems(2) same(1) show ?thesis by (auto simp: first)
  next
    case True
    with Cons.prems(1) have run: "tui_run logs ts st2 = (st, ended)"
      by (simp add: Let_def st2_def flip: st1_def)
    show ?thesis
    proof (cases "stop_key (tn_event t) (tl_app st0)")
      case pressed: True
      then have "ap_stop_all_on_quit (tl_app st2)" "\<not> ap_running (tl_app st2)"
        using event_leaving [where logs = logs and vw = "tn_view t" and ev = "tn_event t" and st = st1] same(2) by (simp_all add: st2_def)
      with run have "st = leave_loop st2" "ended" by (cases ts; simp)+
      with \<open>ap_stop_all_on_quit (tl_app st2)\<close> pressed True show ?thesis by (simp add: first)
    next
      case other: False
      then have "\<not> ap_stop_all_on_quit (tl_app st2)"
        using event_leaving(1) [where logs = logs and vw = "tn_view t" and ev = "tn_event t" and st = st1] same Cons.prems(2) by (simp add: st2_def)
      from Cons.IH [OF run this] True other show ?thesis by (simp add: first)
    qed
  qed
qed

interpretation pushed: event_system "push_output vw process s" app_inv for vw process s
  by unfold_locales (rule app_inv_push)

interpretation preloaded: event_system "preload vw logs" app_inv for vw logs
  by unfold_locales (auto simp: preload_def pushed.ok_fold split: option.split sum.split)

interpretation discovered: event_system
    "\<lambda>process ap. ap\<lparr>ap_disk_readers := hm_insert process (disk_log_reader_new logs process) (ap_disk_readers ap)\<rparr>"
    app_inv for logs
  by unfold_locales (rule app_inv_new_reader)

lemma app_inv_init: "app_inv (init_disk_readers vw entries logs app_new)"
  by (auto simp: init_disk_readers_def Let_def app_inv_new intro!: preloaded.ok_fold discovered.ok_fold
      split: sum.split)

lemma event_no_shutdown:
  assumes "ReqShutdown \<notin> set (tl_requests st)"
  shows "ReqShutdown \<notin> set (tl_requests (handle_event logs vw ev st))"
proof (cases ev)
  case (EvKey key)
  with assms show ?thesis
    by (cases "input_key key"; cases "selected_name (tl_app st)")
      (simp_all add: handle_event_def handle_tui_key_def on_app_def send_for_selected_def send_to_daemon_def)
next
  case EvOutputStreamClosed
  with assms show ?thesis
    by (auto simp: handle_event_def handle_reconnect_def split: option.split)
qed (use assms in \<open>simp_all add: handle_event_def on_app_def\<close>)

definition loop_ok :: "tui_loop \<Rightarrow> bool" where
  "loop_ok st \<longleftrightarrow> app_inv (tl_app st) \<and> ReqShutdown \<notin> set (tl_requests st)"

interpretation handled: event_system "\<lambda>(vw, ev). handle_event logs vw ev" loop_ok for logs
  by unfold_locales (auto simp: loop_ok_def app_inv_event event_no_shutdown)

interpretation drawn: event_system "\<lambda>(vw, h). on_app (\<lambda>ap. snd (draw_output vw h ap))" loop_ok
  by unfold_locales (auto simp: loop_ok_def on_app_def app_inv_draw)

lemma run_consistent:
  assumes "tui_run logs ts st0 = (st, ended)" and "loop_ok st0"
  shows "app_inv (tl_app st) \<and>
    (ReqShutdown \<in> set (tl_requests st) \<longleftrightarrow> ended \<and> ap_stop_all_on_quit (tl_app st))"
  using assms
proof (induction ts arbitrary: st0)
  case Nil
  then show ?case by (auto simp: loop_ok_def split: if_splits)
next
  case (Cons t ts)
  define st1 where "st1 = on_app (\<lambda>ap. snd (draw_output (tn_view t) (tn_height t) ap)) st0"
  have st1: "loop_ok st1" using drawn.handle_ok [OF Cons.prems(2), of "(tn_view t, tn_height t)"] by (simp add: st1_def)
  show ?case
  proof (cases "ap_running (tl_app st0) \<and> tn_drawn t")
    case True
    with Cons.prems(1) have "tui_run logs ts (handle_event logs (tn_view t) (tn_event t) st1) = (st, ended)"
      by (simp add: Let_def flip: st1_def)
    from Cons.IH [OF this] handled.handle_ok [OF st1, of logs "(tn_view t, tn_event t)"] show ?thesis by simp
  next
    case False
    with Cons.prems(1) have "st = leave_loop st0 \<or> st = leave_loop st1" "ended"
      by (auto simp: Let_def simp flip: st1_def split: if_splits)
    with st1 Cons.prems(2) show ?thesis by (auto simp: loop_ok_def)
  qed
qed

lemma reconnects:
  assumes "tl_reconnect st = Connected" and "n \<le> 10"
  shows "(handle_reconnect ^^ n) st =
    st\<lparr>tl_reconnect := (if n = 0 then Connected else Reconnecting (of_nat n)),
       tl_readers := tl_readers st @ map (\<lambda>i. min (2 ^ i) 30) [0..<n]\<rparr>"
  using assms(2)
proof (induction n)
  case 0
  then show ?case using assms(1) by simp
next
  case (Suc n)
  have n: "unat (of_nat n :: u32) = n" using Suc.prems by (simp add: unat_of_nat)
  have small: "\<not> MAX_RECONNECT_ATTEMPTS \<le> (of_nat n :: u32)"
    using Suc.prems by (simp add: MAX_RECONNECT_ATTEMPTS_def word_le_nat_alt n)
  have "(2::nat) ^ n \<le> 2 ^ 9" using Suc.prems by (intro power_increasing) simp_all
  then have delay: "reconnect_delay (of_nat n) = min (2 ^ n) 30" by (simp add: reconnect_delay_def n)
  have "reconnect_delay 0 = 1" by (simp add: reconnect_delay_def)
  moreover have "(0 :: u32) < MAX_RECONNECT_ATTEMPTS" by (simp add: MAX_RECONNECT_ATTEMPTS_def)
  ultimately show ?case
    using Suc.IH Suc.prems small delay assms(1)
    by (cases "n = 0") (simp_all add: handle_reconnect_def add.commute)
qed

lemma reconnect_failed:
  assumes "tl_reconnect st = Connected"
  shows "(handle_reconnect ^^ Suc k) ((handle_reconnect ^^ 10) st) = st\<lparr>tl_reconnect := ReconnectFailed,
    tl_readers := tl_readers st @ map (\<lambda>i. min (2 ^ i) 30) [0..<10]\<rparr>"
proof (induction k)
  case 0
  have "handle_reconnect ((handle_reconnect ^^ 10) st) = st\<lparr>tl_reconnect := ReconnectFailed,
    tl_readers := tl_readers st @ map (\<lambda>i. min (2 ^ i) 30) [0..<10]\<rparr>"
    unfolding reconnects [OF assms order.refl]
    by (simp add: handle_reconnect_def MAX_RECONNECT_ATTEMPTS_def)
  then show ?case by simp
next
  case (Suc k)
  have "(handle_reconnect ^^ Suc (Suc k)) s0 = handle_reconnect ((handle_reconnect ^^ Suc k) s0)" for s0
    by (simp only: funpow.simps o_apply)
  then have "(handle_reconnect ^^ Suc (Suc k)) ((handle_reconnect ^^ 10) st)
      = handle_reconnect (st\<lparr>tl_reconnect := ReconnectFailed,
          tl_readers := tl_readers st @ map (\<lambda>i. min (2 ^ i) 30) [0..<10]\<rparr>)"
    by (simp only: Suc)
  also have "\<dots> = st\<lparr>tl_reconnect := ReconnectFailed,
          tl_readers := tl_readers st @ map (\<lambda>i. min (2 ^ i) 30) [0..<10]\<rparr>"
    by (simp add: handle_reconnect_def)
  finally show ?case .
qed

section \<open>Properties\<close>

text \<open>C40: the terminal interface stays consistent. Whatever the keys, mouse events, status updates,
  output and closed connections, and whatever the log files hold: the selection is a row of the process
  list; the active filter is never empty; every filter index was built for the active filter and stream
  mode, for a process with a log reader; no live buffer exceeds 10000 lines and its counters are
  right. And the daemon is told to shut down exactly when the interface was left by quit-and-stop: when
  at some turn, with the interface drawn and waiting and no filter being typed, the event was the key
  \<open>Q\<close>, which ends it; no other event sets the flag that leaving looks at.\<close>

theorem tui_stays_consistent:
  assumes "tui_run logs ts st0 = (st, ended)"
    and "tl_app st0 = init_disk_readers vw entries logs app_new" and "tl_requests st0 = []"
    and "ap = tl_app st"
  shows "(ap_processes ap = [] \<or> ap_selected ap < length (ap_processes ap)) \<and>
    ap_filter ap \<noteq> Some [] \<and>
    (\<forall>n fi. hm_get (ap_filtered_indices ap) n = Some fi \<longrightarrow>
       ap_filter ap = Some (fi_filter fi) \<and> fi_stream_mode fi = ap_stream_mode ap \<and>
       hm_contains (ap_disk_readers ap) n) \<and>
    (\<forall>n b. hm_get (ap_buffers ap) n = Some b \<longrightarrow>
       ob_len b \<le> 10000 \<and> ob_stdout_count b = length (stdout_lines b) \<and>
       ob_stderr_count b = length (stderr_lines b)) \<and>
    (ReqShutdown \<in> set (tl_requests st) \<longleftrightarrow> ended \<and> ap_stop_all_on_quit ap) \<and>
    (ReqShutdown \<in> set (tl_requests st) \<longleftrightarrow>
       (\<exists>ts1 t ts2 st1 ctrl. ts = ts1 @ t # ts2 \<and> tui_run logs ts1 st0 = (st1, False) \<and> tn_drawn t \<and>
          tn_event t = EvKey \<lparr>ke_code = KeyChar ''Q'', ke_control = ctrl\<rparr> \<and>
          ap_input_mode (tl_app st1) = NormalMode))"
proof -
  have run: "app_inv ap" "ReqShutdown \<in> set (tl_requests st) \<longleftrightarrow> ended \<and> ap_stop_all_on_quit ap"
    using run_consistent [OF assms(1)] app_inv_init assms(2-4) by (simp_all add: loop_ok_def)
  have "\<not> ap_stop_all_on_quit (tl_app st0)"
    using leaving_init [of vw entries logs app_new] by (simp add: leaving_def assms(2) app_new_def)
  from run_stop_pressed [OF assms(1) this] run(2)
  have stop: "ReqShutdown \<in> set (tl_requests st) \<longleftrightarrow> stop_pressed logs ts st0" by (auto simp: assms(4))
  have "ob_len b \<le> 10000 \<and> ob_stdout_count b = length (stdout_lines b) \<and>
      ob_stderr_count b = length (stderr_lines b)" if "hm_get (ap_buffers ap) n = Some b" for n b
  proof -
    have "buffer_ok b" "ob_max_lines b = 10000"
      using run(1) map_of_SomeD [OF that] by (force simp: app_inv_def MAX_BUFFER_LINES_def)+
    then show ?thesis
      by (simp add: buffer_ok_def count_source_def ob_len_def stdout_lines_def stderr_lines_def)
  qed
  moreover have "ReqShutdown \<in> set (tl_requests st) \<longleftrightarrow>
      (\<exists>ts1 t ts2 st1 ctrl. ts = ts1 @ t # ts2 \<and> tui_run logs ts1 st0 = (st1, False) \<and> tn_drawn t \<and>
        tn_event t = EvKey \<lparr>ke_code = KeyChar ''Q'', ke_control = ctrl\<rparr> \<and>
        ap_input_mode (tl_app st1) = NormalMode)"
    unfolding stop stop_pressed_def stop_key_def by blast
  ultimately show ?thesis
    using run unfolding app_inv_def indices_ok_def hm_contains_iff by (simp add: image_iff)
qed

definition start_loop :: tui_loop where
  "start_loop = \<lparr>tl_app = app_new, tl_reconnect = Connected, tl_requests = [], tl_readers = []\<rparr>"

definition typed :: "string \<Rightarrow> turn" where
  "typed c = \<lparr>tn_view = example_view, tn_height = 10, tn_drawn = True, tn_event = EvKey \<lparr>ke_code = KeyChar c, ke_control = False\<rparr>\<rparr>"

theorem tui_stays_consistent_witness:
  "ReqShutdown \<in> set (tl_requests (fst (tui_run ''/logs'' [typed ''j'', typed ''Q''] start_loop)))"
proof -
  obtain st ended where run: "tui_run ''/logs'' [typed ''j'', typed ''Q''] start_loop = (st, ended)" by fastforce
  have start: "tl_app start_loop = init_disk_readers example_view (Inl (io_err KNotFound [])) ''/logs'' app_new"
      "tl_requests start_loop = []"
    by (simp_all add: start_loop_def init_disk_readers_def)
  have fresh: "snd (draw_output vw h ap) = ap\<lparr>ap_visible_height := h - 2\<rparr>"
    if "ap_processes ap = []" "ap_filter ap = None" "ap_disk_readers ap = []" "ap_buffers ap = []" for vw h ap
    using that by (simp add: draw_output_def selected_name_def visible_lines_def total_line_count_def
        disk_line_count_def with_reader_def hot_line_count_def)
  have "snd (tui_run ''/logs'' [typed ''j'', typed ''Q''] start_loop)"
      "ap_stop_all_on_quit (tl_app (fst (tui_run ''/logs'' [typed ''j'', typed ''Q''] start_loop)))"
    by (simp_all add: start_loop_def typed_def on_app_def fresh handle_event_def handle_tui_key_def
        input_key_def select_next_def quit_and_stop_def app_new_def)
  then have "ended \<and> ap_stop_all_on_quit (tl_app st)" by (simp only: run fst_conv snd_conv)
  with tui_stays_consistent [OF run start refl] show ?thesis by (simp add: run del: tui_run.simps)
qed

text \<open>Reconnecting gives up after ten attempts. From a connected interface, each time the output
  stream ends a new reader is started after 1, 2, 4, 8, 16 and then always 30 seconds, ten times in
  all; the eleventh end in a row is final. A line received in between starts the count again.\<close>

theorem reconnects_with_backoff:
  assumes "tl_reconnect st = Connected"
  shows "let st' = (handle_event logs vw EvOutputStreamClosed ^^ n) st
    in tl_readers st' = tl_readers st @ take n [1, 2, 4, 8, 16, 30, 30, 30, 30, 30] \<and>
       (tl_reconnect st' = ReconnectFailed \<longleftrightarrow> 10 < n) \<and>
       tl_app st' = tl_app st \<and> tl_requests st' = tl_requests st \<and>
       tl_reconnect (handle_event logs vw (EvOutputLine process s line) st') = Connected"
proof -
  have closed: "handle_event logs vw EvOutputStreamClosed = handle_reconnect"
    by (rule ext) (simp add: handle_event_def)
  have delays: "map (\<lambda>i. min (2 ^ i) 30) [0..<10] = [1, 2, 4, 8, 16, 30, 30, 30, 30, 30 :: nat]"
    by (simp add: upt_rec)
  have resets: "tl_reconnect (handle_event logs vw (EvOutputLine process s line) st') = Connected" for st'
    by (simp add: handle_event_def on_app_def)
  show ?thesis
  proof (cases "n \<le> 10")
    case True
    have "map (\<lambda>i. min (2 ^ i) (30 :: nat)) [0..<n] = take n (map (\<lambda>i. min (2 ^ i) 30) [0..<10])"
      using True by (simp add: take_map take_upt)
    with reconnects [OF assms True] True show ?thesis
      unfolding closed delays [symmetric] by (simp add: resets Let_def)
  next
    case False
    note failed = reconnect_failed [OF assms]
    obtain k where k: "n = Suc k + 10" using False by (metis add.commute le_Suc_ex not_less_eq_eq add_Suc)
    have "(handle_reconnect ^^ n) st = (handle_reconnect ^^ Suc k) ((handle_reconnect ^^ 10) st)"
      unfolding k funpow_add by simp
    with False show ?thesis
      unfolding closed failed by (simp only: failed resets Let_def) (simp add: delays)
  qed
qed

theorem reconnects_with_backoff_witness:
  "tl_readers ((handle_event ''/logs'' example_view EvOutputStreamClosed ^^ 3) start_loop) = [1, 2, 4]"
  using reconnects_with_backoff [where st = start_loop and logs = "''/logs''" and vw = example_view and n = 3]
  by (simp add: start_loop_def Let_def)

end
