(* ===== verification/Tui_Screen.thy ===== *)
theory Tui_Screen
  imports Tui_Event_Loop
begin

text \<open>
  What the terminal interface puts on the screen (\<open>src/tui/ui.rs\<close>) as far as the program decides it:
  the text and colours of the process list, the title of the output pane, the status bar;
  and the start and end of the interface (\<open>run\<close> of \<open>src/tui/mod.rs\<close>) with what it does to the terminal.
  Laying out the widgets and interpreting escape sequences is the terminal library's.
\<close>

section \<open>The process list\<close>

datatype color = Green | Red | Yellow | DarkGray | Cyan

record style =
  sy_fg :: color
  sy_bg :: "color option"

text \<open>The symbols as UTF-8: a circle, a check mark, a cross, an open and a closed circle arrow.\<close>

definition utf8 :: "nat list \<Rightarrow> string" where
  "utf8 = map char_of"

definition indicator :: "process_info \<Rightarrow> string \<times> color" where
  "indicator p =
     (case pi_state p of
        PRunning \<Rightarrow> (utf8 [226, 151, 143], Green)
      | PExited \<Rightarrow> (utf8 [226, 156, 147], DarkGray)
      | PFailed \<Rightarrow> (utf8 [226, 159, 179], Yellow)
      | PUnknown \<Rightarrow> (''?'', DarkGray))"

definition restarts_label :: "process_info \<Rightarrow> string" where
  "restarts_label p =
     (case pi_restart_count p of
        Some n \<Rightarrow>
          (if n > 0 then
             (case pi_max_restarts p of
                Some m \<Rightarrow> pi_name p @ '' ('' @ dec_word n @ ''/'' @ dec_word m @ utf8 [226, 134, 187] @ '')''
              | None \<Rightarrow> pi_name p @ '' ('' @ dec_word n @ utf8 [226, 134, 187] @ '')'')
           else pi_name p)
      | None \<Rightarrow> pi_name p)"

definition list_item :: "nat \<Rightarrow> nat \<Rightarrow> process_info \<Rightarrow> string \<times> style" where
  "list_item sel i p =
     (let bg = (if i = sel then Some DarkGray else None)
      in if pi_state p = PExited \<and> pi_exit_code p \<noteq> Some 0 then
           (utf8 [226, 156, 151] @ '' '' @ pi_name p
              @ (case pi_exit_code p of Some c \<Rightarrow> '' ('' @ dec_int c @ '')'' | None \<Rightarrow> []),
            \<lparr>sy_fg = Red, sy_bg = bg\<rparr>)
         else
           (fst (indicator p) @ '' '' @ restarts_label p @ (if pi_watched p = Some True then '' W'' else []),
            \<lparr>sy_fg = snd (indicator p), sy_bg = bg\<rparr>))"

definition draw_process_list :: "app \<Rightarrow> (string \<times> style) list" where
  "draw_process_list ap =
     map (\<lambda>(i, p). list_item (ap_selected ap) i p) (enumerate 0 (ap_processes ap))"

lemma filter_upt_single: "s < n \<Longrightarrow> filter (\<lambda>i. i = s) [0..<n] = [s]"
  by (induction n) (auto simp: less_Suc_eq filter_empty_conv)

text \<open>Exactly one row is marked when the selection is a row.\<close>

lemma marked_row:
  assumes "ap_selected ap < length (ap_processes ap)"
  shows "filter (\<lambda>i. sy_bg (snd (draw_process_list ap ! i)) \<noteq> None) [0..<length (draw_process_list ap)]
    = [ap_selected ap]"
proof -
  have len: "length (draw_process_list ap) = length (ap_processes ap)" by (simp add: draw_process_list_def)
  have "sy_bg (snd (draw_process_list ap ! i)) \<noteq> None \<longleftrightarrow> i = ap_selected ap"
    if "i < length (ap_processes ap)" for i
    using that by (simp add: draw_process_list_def list_item_def nth_enumerate_eq Let_def)
  then have "filter (\<lambda>i. sy_bg (snd (draw_process_list ap ! i)) \<noteq> None) [0..<length (ap_processes ap)]
      = filter (\<lambda>i. i = ap_selected ap) [0..<length (ap_processes ap)]"
    by (intro filter_cong) simp_all
  also have "\<dots> = [ap_selected ap]" using assms by (rule filter_upt_single)
  finally show ?thesis by (simp only: len)
qed

section \<open>The output pane\<close>

definition output_title :: "app \<Rightarrow> string" where
  "output_title ap =
     (let name = (case selected_name ap of Some n \<Rightarrow> n | None \<Rightarrow> ''(none)'');
          mode_label = (case ap_stream_mode ap of ModeStdout \<Rightarrow> ''stdout'' | ModeStderr \<Rightarrow> ''stderr'' | ModeBoth \<Rightarrow> ''all'');
          pause_indicator = (if ap_paused ap then '' [PAUSED]'' else []);
          filter_indicator =
            (case (ap_input_mode ap, ap_filter ap) of
               (FilterInput, _) \<Rightarrow> '' /'' @ ap_filter_buf ap
             | (_, Some pat) \<Rightarrow> '' [filter: '' @ pat @ '']''
             | _ \<Rightarrow> [])
      in '' Output: '' @ name @ '' ('' @ mode_label @ '')'' @ pause_indicator @ filter_indicator @ ''  '')"

section \<open>The status bar\<close>

definition status_keys :: "app \<Rightarrow> string" where
  "status_keys ap =
     (if ap_input_mode ap = FilterInput then '' type to filter, Enter confirm, Esc cancel ''
      else if ap_paused ap then
        '' PgUp/u scroll up  PgDn/d scroll down  g top  G bottom  Space unpause  / filter  Esc clear filter ''
      else
        '' '' @ utf8 [226, 134, 145, 226, 134, 147]
          @ '' select  r restart  x stop  X stop-all  e stream  Space pause  u/d scroll  / filter  q quit  Q down '')"

definition status_counts :: "app \<Rightarrow> string" where
  "status_counts ap =
     (let failed = failed_count ap
      in if failed > 0 then
           '' '' @ dec_nat (running_count ap) @ '' running, '' @ dec_nat failed @ '' failed, ''
             @ dec_nat (exited_count ap) @ '' exited ''
         else
           '' '' @ dec_nat (running_count ap) @ '' running, '' @ dec_nat (exited_count ap) @ '' exited '')"

section \<open>Starting and leaving the interface\<close>

text \<open>What is done to the terminal, in order. \<open>RunLoop\<close> is the event loop.\<close>

datatype term_op =
    EnableRaw | DisableRaw | EnterAlternate | LeaveAlternate | EnableMouse | DisableMouse | RunLoop

record term_env =
  tv_connect :: "client_error + unit"
  tv_raw :: "io_error + unit"
  tv_enter :: "io_error + unit"
  tv_terminal :: "io_error + unit"

definition tui_main :: "term_env \<Rightarrow> string \<Rightarrow> i32 \<times> printed list \<times> term_op list" where
  "tui_main ev session =
     (case tv_connect ev of
        Inl _ \<Rightarrow>
          (1, [PrintErr (''error: no daemon running for session '' @ [CHR 0x27] @ session @ [CHR 0x27]
                 @ ''. Start processes first.'')], [])
      | Inr _ \<Rightarrow>
     (case tv_raw ev of
        Inl e \<Rightarrow> (1, [PrintErr (''error: failed to enable raw mode: '' @ io_text e)], [])
      | Inr _ \<Rightarrow>
     (case tv_enter ev of
        Inl e \<Rightarrow>
          (1, [PrintErr (''error: failed to enter alternate screen: '' @ io_text e)], [EnableRaw, DisableRaw])
      | Inr _ \<Rightarrow>
     (case tv_terminal ev of
        Inl e \<Rightarrow>
          (1, [PrintErr (''error: failed to initialize terminal: '' @ io_text e)],
           [EnableRaw, EnterAlternate, EnableMouse, DisableRaw, LeaveAlternate])
      | Inr _ \<Rightarrow>
          (0, [],
           [EnableRaw, EnterAlternate, EnableMouse, RunLoop, DisableRaw, DisableMouse, LeaveAlternate])))))"

text \<open>Whether raw mode, the alternate screen and mouse capture are on after some operations.\<close>

definition term_state :: "term_op list \<Rightarrow> bool \<times> bool \<times> bool" where
  "term_state ops =
     fold (\<lambda>op (raw, alt, mouse).
             (case op of EnableRaw \<Rightarrow> (True, alt, mouse) | DisableRaw \<Rightarrow> (False, alt, mouse)
              | EnterAlternate \<Rightarrow> (raw, True, mouse) | LeaveAlternate \<Rightarrow> (raw, False, mouse)
              | EnableMouse \<Rightarrow> (raw, alt, True) | DisableMouse \<Rightarrow> (raw, alt, False)
              | RunLoop \<Rightarrow> (raw, alt, mouse)))
       ops (False, False, False)"

text \<open>The terminal is handed back as it was found, except that mouse capture stays on when the
  terminal could not be initialised; the loop runs with all three on, and only then is the exit code 0.\<close>

lemma terminal_restored:
  assumes "tui_main ev session = (code, out, ops)"
  shows "fst (term_state ops) = False \<and> fst (snd (term_state ops)) = False \<and>
    (snd (snd (term_state ops)) \<longleftrightarrow>
       (\<exists>e. tv_connect ev = Inr () \<and> tv_raw ev = Inr () \<and> tv_enter ev = Inr () \<and> tv_terminal ev = Inl e)) \<and>
    (RunLoop \<in> set ops \<longleftrightarrow> code = 0) \<and>
    (code = 0 \<longrightarrow> term_state (takeWhile (\<lambda>op. op \<noteq> RunLoop) ops) = (True, True, True))"
  using assms by (auto simp: tui_main_def term_state_def split: sum.splits)

end
