(* ===== verification/End_To_End.thy ===== *)
theory End_To_End
  imports Two_Streams Tui_View
begin

text \<open>
  From the process to the screen: capture tasks write lines to the log files and broadcast them, the
  terminal interface keeps the broadcast lines in a live buffer, reads the older ones back through the
  indexes, and shows a window over both. The theorem composes \<open>Two_Streams\<close> (what capture leaves on
  disk) with \<open>Tui_View\<close> (what the interface shows of disk and buffer).
\<close>

section \<open>The lines of a stream mode\<close>

definition in_mode :: "stream_mode \<Rightarrow> (line_source \<times> string) list \<Rightarrow> (line_source \<times> string) list" where
  "in_mode mode ls =
     filter (\<lambda>(s, _). case mode of ModeStdout \<Rightarrow> s = SrcStdout | ModeStderr \<Rightarrow> s = SrcStderr | ModeBoth \<Rightarrow> True) ls"

lemma in_mode_simps:
  "in_mode ModeBoth ls = ls"
  "in_mode ModeStdout ls = map (\<lambda>l. (SrcStdout, l)) (of_source SrcStdout ls)"
  "in_mode ModeStderr ls = map (\<lambda>l. (SrcStderr, l)) (of_source SrcStderr ls)"
  by (induction ls) (auto simp: in_mode_def of_source_def)

lemma suffix_in_mode: "suffix ls ls' \<Longrightarrow> suffix (in_mode mode ls) (in_mode mode ls')"
  by (auto simp: suffix_def in_mode_def)

text \<open>What the files serve is what was written, without the lines they have lost.\<close>

lemma kept_mode_lines:
  assumes "unat q + length ws < 2 ^ 64"
  shows "mode_lines (\<lambda>s. of_source s (drop_oldest k (stamp q ws))) mode = in_mode mode (drop_oldest k ws)"
proof -
  have "map (\<lambda>e. (s, fst e)) (of_source s (drop_oldest k (stamp q ws)))
      = map (\<lambda>l. (s, l)) (of_source s (drop_oldest k ws))" for s
  proof -
    have "map (\<lambda>e. (s, fst e)) (of_source s (stamp q ws)) = map (\<lambda>l. (s, l)) (of_source s ws)"
      unfolding of_source_stamp [of s q ws, symmetric] by simp
    then show ?thesis by (simp add: of_source_drop_oldest flip: drop_map)
  qed
  then show ?thesis
    by (cases mode) (simp_all add: mode_lines_def in_mode_simps merged_of_kept [OF assms])
qed

lemma in_mode_single:
  "mode \<noteq> ModeBoth \<Longrightarrow> suffix (in_mode mode (drop_oldest k ws)) (in_mode mode ws)"
  by (cases mode) (simp_all add: in_mode_simps of_source_drop_oldest drop_map [symmetric] suffix_drop)

text \<open>Lines lost from an older part leave the newer part alone.\<close>

lemma drop_oldest_append:
  "\<forall>s. k s \<le> length (of_source s xs) \<Longrightarrow> drop_oldest k (xs @ ys) = drop_oldest k xs @ ys"
proof (induction k xs rule: drop_oldest.induct)
  case (1 k)
  then have "k = (\<lambda>_. 0)" by (intro ext) simp
  then show ?case by simp
next
  case (2 k s x xs)
  show ?case
  proof (cases "0 < k s")
    case True
    have "\<forall>s'. (k(s := k s - 1)) s' \<le> length (of_source s' xs)"
    proof
      fix s'
      show "(k(s := k s - 1)) s' \<le> length (of_source s' xs)" using "2.prems" [rule_format, of s'] True by auto
    qed
    with "2.IH"(1) True show ?thesis by (simp add: fun_upd_def)
  next
    case False
    have "\<forall>s'. k s' \<le> length (of_source s' xs)"
    proof
      fix s'
      show "k s' \<le> length (of_source s' xs)" using "2.prems" [rule_format, of s'] False by (cases "s' = s") auto
    qed
    with "2.IH"(2) False show ?thesis by simp
  qed
qed

section \<open>Receiving without a filter\<close>

lemma receive_unfiltered:
  "ap_filter ap = None \<Longrightarrow> receive r ap = ap\<lparr>ap_buffers := ap_buffers (receive r ap)\<rparr>"
  by (cases r) (simp add: receive_def push_output_def Let_def)

lemma receive_all_unfiltered:
  "ap_filter ap = None \<Longrightarrow> fold receive rs ap = ap\<lparr>ap_buffers := ap_buffers (fold receive rs ap)\<rparr>"
proof (induction rs arbitrary: ap)
  case (Cons r rs)
  obtain bs where bs: "receive r ap = ap\<lparr>ap_buffers := bs\<rparr>" using receive_unfiltered [OF Cons.prems, of r] ..
  have "ap_filter (ap\<lparr>ap_buffers := bs\<rparr>) = None" by (simp add: Cons.prems)
  note rest = Cons.IH [OF this]
  show ?case unfolding fold_simps(2) bs by (rule trans [OF rest]) simp
qed simp

lemma receive_buffers:
  assumes "buffers_ok ap"
  shows "buffers_ok (receive r ap)"
proof -
  have vals: "snd ` set (hm_insert k v m) \<subseteq> insert v (snd ` set m)" for k v and m :: "(string, output_buffer) hashmap"
    by (induction m) auto
  obtain vw process s line where r: "r = (vw, process, s, line)" by (cases r)
  have "buffer_ok (case hm_get (ap_buffers ap) process of None \<Rightarrow> output_buffer_new MAX_BUFFER_LINES | Some b \<Rightarrow> b)"
    using assms by (auto simp: buffers_ok_def buffer_ok_new MAX_BUFFER_LINES_def split: option.split dest!: map_of_SomeD)
  with vals assms show ?thesis
    by (fastforce simp: buffers_ok_def r receive_def push_output_buffers ob_push_ok)
qed

lemma receive_all_buffers: "buffers_ok ap \<Longrightarrow> buffers_ok (fold receive rs ap)"
  by (induction rs arbitrary: ap) (simp_all add: receive_buffers)

lemma hot_lines_recent:
  assumes "recent name ls ap"
  shows "hot_lines name ap = in_mode (ap_stream_mode ap) (last_n MAX_BUFFER_LINES ls)"
proof (cases "hm_get (ap_buffers ap) name")
  case None
  with assms show ?thesis by (simp add: recent_def hot_lines_def in_mode_def)
next
  case (Some b)
  with assms have "ob_lines b = last_n MAX_BUFFER_LINES ls" by (simp add: recent_def)
  with Some show ?thesis
    by (cases "ap_stream_mode ap")
      (simp_all add: hot_lines_def in_mode_simps stdout_lines_def stderr_lines_def all_lines_def of_source_def
        case_prod_unfold)
qed

section \<open>The screen\<close>

text \<open>C22: the screen shows what was printed. Two capture tasks write the lines of a process to fresh
  logs, limited in size or not, interleaved in any way, and finish; the terminal interface receives
  those lines, among the lines of other processes, without a filter. At any scroll position, in any
  stream mode, its window is the window of one list: the last 10000 lines received, preceded by the
  oldest lines still in the files, as many as these have more. In the mode of a single stream that
  list is the end of what was printed and has every line that the files have kept. In any mode it is
  exactly what the files have kept when they still have the last 10000 lines, and all that was
  printed when the logs are not limited in size.\<close>

theorem screen_shows_what_was_printed:
  assumes fresh: "both_rep (path_join dir (process @ ''.'')) [[]] [[]] (out, err, wd)"
    and seq: "unat (wd_seq wd) + length ws < 2 ^ 64"
    and plain: "list_all (\<lambda>w. CHR ''\<newline>'' \<notin> set (snd w)) ws"
    and bytes: "sum_list (map (\<lambda>w. length (snd w) + 1) ws) < 2 ^ 64"
    and files: "lw_max_rotated_files out < ROTATED_LIMIT" "lw_max_rotated_files err < ROTATED_LIMIT"
    and vw: "vw_fs vw = wd_fs (close_both (write_both ws (out, err, wd)))"
    and app: "hm_get (ap_disk_readers ap) process = Some (disk_log_reader_new dir process)" "ap_buffers ap = []"
      "ap_filter ap = None"
    and received: "lines_for process rs = ws"
  shows "let mode = ap_stream_mode ap;
      disk = in_mode mode (drop_oldest (lost out err ws) ws);
      hot = in_mode mode (drop (length ws - 10000) ws);
      printed = take (length disk - length hot) disk @ hot;
      end = length printed - (if ap_paused ap then offset_of process ap else 0)
    in fst (visible_lines vw process h (fold receive rs ap)) = Some (drop (end - h) (take end printed)) \<and>
      (mode \<noteq> ModeBoth \<longrightarrow> suffix printed (in_mode mode ws) \<and> suffix disk printed) \<and>
      ((\<forall>s. lost out err ws s \<le> length (of_source s (take (length ws - 10000) ws))) \<longrightarrow> printed = disk) \<and>
      (lw_max_bytes out = 0 \<and> lw_max_bytes err = 0 \<longrightarrow> printed = in_mode mode ws)"
proof -
  let ?mode = "ap_stream_mode ap" and ?ap = "fold receive rs ap" and ?old = "take (length ws - 10000) ws"
  define disk where "disk = in_mode ?mode (drop_oldest (lost out err ws) ws)"
  define hot where "hot = in_mode ?mode (drop (length ws - 10000) ws)"
  note sees = written_logs_seen [OF fresh plain bytes files vw]
  obtain bs where bs: "?ap = ap\<lparr>ap_buffers := bs\<rparr>" using receive_all_unfiltered [OF app(3), of rs] ..
  have "recent process [] ap" using app(2) by (simp add: recent_def)
  from receive_all_recent [OF this, of rs] have recent: "recent process ws ?ap" by (simp add: received)
  have "hot_lines process ?ap = hot"
    using hot_lines_recent [OF recent] by (simp add: hot_def bs last_n_def MAX_BUFFER_LINES_def)
  moreover have "reads vw ?ap process (\<lambda>s. of_source s (drop_oldest (lost out err ws) (stamp (wd_seq wd) ws)))"
    using app(1) sees by (simp add: bs) (simp add: reads_def)
  moreover have "buffers_ok ?ap" using app(2) by (intro receive_all_buffers) (simp add: buffers_ok_def)
  ultimately have window: "fst (visible_lines vw process h ?ap) =
      Some (tail_window (shown_offset process ap) h (shown_log disk hot))"
    using visible_window [of vw ?ap process _ h] app(3)
    by (simp add: bs disk_def kept_mode_lines [OF seq] shown_offset_def offset_of_def)
  have hot: "suffix hot (in_mode ?mode ws)" unfolding hot_def by (intro suffix_in_mode suffix_drop)
  have single: "suffix (shown_log disk hot) (in_mode ?mode ws) \<and> suffix disk (shown_log disk hot)" if "?mode \<noteq> ModeBoth"
  proof -
    have disk: "suffix disk (in_mode ?mode ws)" unfolding disk_def by (rule in_mode_single [OF that])
    then consider "suffix hot disk" | "suffix disk hot" using suffix_same_cases [OF hot] by blast
    then show ?thesis
    proof cases
      case 1
      with disk show ?thesis by (simp add: shown_log_suffix)
    next
      case 2
      then have "shown_log disk hot = hot" by (auto simp: shown_log_def suffix_def)
      with 2 hot show ?thesis by simp
    qed
  qed
  have live: "shown_log disk hot = disk" if "\<forall>s. lost out err ws s \<le> length (of_source s ?old)"
  proof (rule shown_log_suffix)
    have "drop_oldest (lost out err ws) ws = drop_oldest (lost out err ws) ?old @ drop (length ws - 10000) ws"
      using drop_oldest_append [OF that, of "drop (length ws - 10000) ws"] by simp
    then show "suffix hot disk" by (auto simp: disk_def hot_def suffix_def in_mode_def)
  qed
  have "shown_log disk hot = in_mode ?mode ws" if "lw_max_bytes out = 0" "lw_max_bytes err = 0"
    using live by (simp add: lost_unlimited [OF that]) (simp add: disk_def lost_unlimited [OF that])
  with window single live show ?thesis
    unfolding Let_def disk_def [symmetric] hot_def [symmetric] shown_log_def [symmetric]
    by (simp add: tail_window_drop shown_offset_def)
qed

definition example_screen :: app where
  "example_screen =
     app_new\<lparr>ap_disk_readers := [(''web'', disk_log_reader_new ''/logs'' ''web'')], ap_stream_mode := ModeBoth\<rparr>"

definition example_received :: "received list" where
  "example_received =
     [(example_after_long, ''web'', Stdout, ''boot''), (example_after_long, ''db'', Stdout, ''ready''),
      (example_after_long, ''web'', Stderr, ''warn''), (example_after_long, ''web'', Stdout, ''one''),
      (example_after_long, ''web'', Stdout, ''two''), (example_after_long, ''web'', Stdout, ''six'')]"

text \<open>The witness has limited logs and both streams: the two oldest lines of the standard output are
  gone from the files, and the live lines bring them back.\<close>

theorem screen_shows_what_was_printed_witness:
  "fst (visible_lines example_after_long ''web'' 3 (fold receive example_received example_screen))
     = Some [(SrcStdout, ''one''), (SrcStdout, ''two''), (SrcStdout, ''six'')]"
proof -
  have config: "lw_max_rotated_files example_small < ROTATED_LIMIT"
    by (simp add: example_small_def log_state_new_def ROTATED_LIMIT_def)
  have run: "unat (wd_seq example_shared) + length example_long < 2 ^ 64"
    "list_all (\<lambda>w. CHR ''\<newline>'' \<notin> set (snd w)) example_long"
    "sum_list (map (\<lambda>w. length (snd w) + 1) example_long) < 2 ^ 64"
    by (simp_all add: example_shared_def example_long_def)
  have files: "vw_fs example_after_long
      = wd_fs (close_both (write_both example_long (example_small, example_err, example_shared)))"
    by (simp add: example_after_long_def)
  have app: "hm_get (ap_disk_readers example_screen) ''web'' = Some (disk_log_reader_new ''/logs'' ''web'')"
    "ap_buffers example_screen = []" "ap_filter example_screen = None" "ap_stream_mode example_screen = ModeBoth"
    "\<not> ap_paused example_screen"
    by (simp_all add: example_screen_def app_new_def)
  have received: "lines_for ''web'' example_received = example_long"
    by (simp add: lines_for_def example_received_def example_long_def source_of_stream_def)
  from screen_shows_what_was_printed [OF example_both_small run config example_rotated files app(1-3) received,
      where h = 3] show ?thesis
    by (simp add: example_small_lost app(4,5) in_mode_simps example_long_def Let_def)
qed

end
