(* ===== verification/Teardown.thy ===== *)
theory Teardown
  imports Process_Manager
begin

text \<open>
  The teardown of a process group (\<open>teardown\<close> and \<open>join_capture\<close> of
  \<open>src/daemon/process_manager.rs\<close>): SIGTERM, a grace period of polling, SIGKILL, the reaping of the
  leader and the end of the capture tasks. Time is in milliseconds. What happens meanwhile is the
  record \<open>teardown_env\<close>: what a poll finds, how much longer than asked a sleep takes, when \<open>wait\<close>
  on the child returns, and when the capture tasks end by themselves or after they were cancelled.
\<close>

section \<open>Constants\<close>

definition STOP_GRACE :: nat where
  "STOP_GRACE = 2000"

definition REAP_CAP :: nat where
  "REAP_CAP = 10000"

definition CAPTURE_DRAIN :: nat where
  "CAPTURE_DRAIN = 500"

definition CAPTURE_CANCEL :: nat where
  "CAPTURE_CANCEL = 100"

definition EXIT_POLL :: nat where
  "EXIT_POLL = 50"

section \<open>The environment\<close>

datatype signal = SIGTERM | SIGKILL

datatype td_event = SupervisorClosed | Signalled i32 signal | WaitedFor i32 | CaptureCancelled | Aborted stream

record teardown_env =
  te_peek :: "nat \<Rightarrow> i32 option option"
  te_late :: "nat \<Rightarrow> nat"
  te_wait :: "nat \<Rightarrow> (nat \<times> (io_error + i32 option)) option"
  te_capture_end :: "stream \<Rightarrow> nat option"
  te_cancelled_end :: "nat \<Rightarrow> stream \<Rightarrow> nat option"

definition by_time :: "nat \<Rightarrow> nat option \<Rightarrow> bool" where
  "by_time t e = (case e of None \<Rightarrow> False | Some t' \<Rightarrow> t' \<le> t)"

section \<open>The grace period\<close>

text \<open>The polling loop: the leader's exit as far as known, and the time it leaves the loop.\<close>

function grace ::
  "teardown_env \<Rightarrow> stream list \<Rightarrow> nat \<Rightarrow> i32 option option \<Rightarrow> nat \<Rightarrow> i32 option option \<times> nat" where
  "grace env captures deadline leader_exit t =
     (if t < deadline then
        (let leader_exit = (if leader_exit = None then te_peek env t else leader_exit)
         in if leader_exit \<noteq> None \<and> list_all (\<lambda>s. by_time t (te_capture_end env s)) captures
            then (leader_exit, t)
            else grace env captures deadline leader_exit (t + EXIT_POLL + te_late env t))
      else (leader_exit, t))"
  by auto
termination
  by (relation "measure (\<lambda>(env, captures, deadline, leader_exit, t). deadline - t)")
    (auto simp: EXIT_POLL_def)

declare grace.simps [simp del]

section \<open>The capture tasks\<close>

text \<open>\<open>timeout_at\<close> on one task after the other: those still running at the deadline, and the time.\<close>

fun join_until :: "(stream \<Rightarrow> nat option) \<Rightarrow> nat \<Rightarrow> stream list \<Rightarrow> nat \<Rightarrow> stream list \<times> nat" where
  "join_until ends deadline [] t = ([], t)"
| "join_until ends deadline (h # hs) t =
     (case ends h of
        Some e \<Rightarrow>
          (if e \<le> max t deadline then join_until ends deadline hs (max t e)
           else (let (pending, t) = join_until ends deadline hs (max t deadline) in (h # pending, t)))
      | None \<Rightarrow> (let (pending, t) = join_until ends deadline hs (max t deadline) in (h # pending, t)))"

text \<open>A task that has not ended by the second deadline is aborted and then awaited; an aborted task ends at
  its next suspension point, which is taken to be at once.\<close>

definition join_capture :: "teardown_env \<Rightarrow> stream list \<Rightarrow> nat \<Rightarrow> td_event list \<times> nat" where
  "join_capture env handles t =
     (let (pending, t) = join_until (te_capture_end env) (t + CAPTURE_DRAIN) handles t
      in if pending = [] then ([], t)
         else
           (let (aborted, t) = join_until (te_cancelled_end env t) (t + CAPTURE_CANCEL) pending t
            in (CaptureCancelled # map Aborted aborted, t)))"

section \<open>Teardown\<close>

text \<open>\<open>timeout(REAP_CAP, child.wait())\<close>: the status code if it returned in time.\<close>

definition reap :: "teardown_env \<Rightarrow> nat \<Rightarrow> (io_error + i32 option) option \<times> nat" where
  "reap env t =
     (case te_wait env t of
        Some (done_at, status) \<Rightarrow>
          (if done_at \<le> t + REAP_CAP then (Some status, max t done_at) else (None, t + REAP_CAP))
      | None \<Rightarrow> (None, t + REAP_CAP))"

definition exit_code_of :: "i32 option option \<Rightarrow> (io_error + i32 option) option \<Rightarrow> i32 option" where
  "exit_code_of leader_exit reaped =
     (case leader_exit of
        Some code \<Rightarrow> code
      | None \<Rightarrow>
          (case reaped of
             Some (Inr (Some code)) \<Rightarrow> Some code
           | _ \<Rightarrow> Some (- 9)))"

text \<open>The exit code, what was done in order, and the time.\<close>

definition teardown ::
  "teardown_env \<Rightarrow> incarnation \<Rightarrow> i32 option option \<Rightarrow> nat \<Rightarrow> i32 option \<times> td_event list \<times> nat" where
  "teardown env inc leader_exit t =
     (let deadline = t + STOP_GRACE;
          (leader_exit, t) = grace env (inc_capture inc) deadline leader_exit t;
          (reaped, t) = reap env t;
          code = exit_code_of leader_exit reaped;
          (joins, t) = join_capture env (inc_capture inc) t
      in (code,
          [SupervisorClosed, Signalled (inc_pgid inc) SIGTERM, Signalled (inc_pgid inc) SIGKILL,
           WaitedFor (inc_pgid inc)] @ joins, t))"

section \<open>Bounds\<close>

lemma grace_step:
  "grace env captures deadline le t =
     (if t < deadline \<and> \<not> ((if le = None then te_peek env t else le) \<noteq> None \<and>
           list_all (\<lambda>s. by_time t (te_capture_end env s)) captures)
      then grace env captures deadline (if le = None then te_peek env t else le) (t + EXIT_POLL + te_late env t)
      else (if t < deadline \<and> le = None then te_peek env t else le, t))"
  by (subst grace.simps) (auto simp: Let_def)

lemma grace_time:
  assumes "\<forall>t. te_late env t \<le> late"
  shows "t \<le> snd (grace env captures deadline le t) \<and>
    snd (grace env captures deadline le t) \<le> max t (deadline + EXIT_POLL + late)"
  using assms
proof (induction env captures deadline le t rule: grace.induct)
  case (1 env captures deadline le t)
  have "te_late env t \<le> late" using "1.prems" by blast
  with "1" show ?case
    by (subst (1 2) grace_step) (auto simp: EXIT_POLL_def Let_def max_def split: if_splits)
qed

lemma grace_exit:
  "case le of
     Some code \<Rightarrow> fst (grace env captures deadline le t) = Some code
   | None \<Rightarrow>
       (case fst (grace env captures deadline le t) of
          Some code \<Rightarrow> \<exists>t' \<ge> t. t' < deadline \<and> te_peek env t' = Some code
        | None \<Rightarrow> True)"
proof (induction env captures deadline le t rule: grace.induct)
  case (1 env captures deadline le t)
  define le' where "le' = (if le = None then te_peek env t else le)"
  note step = grace_step [of env captures deadline le t, folded le'_def]
  show ?case
  proof (cases "t < deadline \<and> \<not> (le' \<noteq> None \<and> list_all (\<lambda>s. by_time t (te_capture_end env s)) captures)")
    case True
    have "grace env captures deadline le t = grace env captures deadline le' (t + EXIT_POLL + te_late env t)"
      by (rule trans [OF step if_P [OF True]])
    moreover have "t \<le> t + EXIT_POLL + te_late env t" by simp
    ultimately show ?thesis
      using "1" [of le'] True
      by (cases le; cases le') (auto simp: le'_def split: option.splits dest: order.trans [OF \<open>t \<le> t + EXIT_POLL + te_late env t\<close>])
  next
    case False
    have "grace env captures deadline le t = (if t < deadline \<and> le = None then te_peek env t else le, t)"
      by (rule trans [OF step if_not_P [OF False]])
    then show ?thesis by (auto split: option.splits if_splits)
  qed
qed

lemma join_until_facts:
  "t \<le> snd (join_until ends deadline hs t) \<and> snd (join_until ends deadline hs t) \<le> max t deadline \<and>
   set (fst (join_until ends deadline hs t)) \<subseteq> set hs \<and>
   (\<forall>h \<in> set hs. h \<notin> set (fst (join_until ends deadline hs t)) \<longrightarrow>
      by_time (snd (join_until ends deadline hs t)) (ends h))"
proof (induction hs arbitrary: t)
  case (Cons h hs)
  show ?case
  proof (cases "by_time (max t deadline) (ends h)")
    case True
    then obtain e where e: "ends h = Some e" "e \<le> max t deadline" by (auto simp: by_time_def split: option.splits)
    with Cons [of "max t e"] show ?thesis by (auto simp: by_time_def)
  next
    case False
    then have "join_until ends deadline (h # hs) t = (h # fst (join_until ends deadline hs (max t deadline)),
        snd (join_until ends deadline hs (max t deadline)))"
      by (auto simp: by_time_def case_prod_unfold Let_def split: option.splits)
    with Cons [of "max t deadline"] show ?thesis by auto
  qed
qed simp

lemma by_time_later: "by_time a e \<Longrightarrow> a \<le> b \<Longrightarrow> by_time b e"
  by (auto simp: by_time_def split: option.splits)

lemma reap_time: "t \<le> snd (reap env t)" "snd (reap env t) \<le> t + 10000"
  by (auto simp: reap_def REAP_CAP_def split: option.split)

lemma join_capture_facts:
  assumes "join_capture env hs t = (done, t')"
  shows "t' \<le> t + 600 \<and>
    (\<forall>s \<in> set hs.
       by_time t' (te_capture_end env s) \<or>
       CaptureCancelled \<in> set done \<and> ((\<exists>c \<le> t'. by_time t' (te_cancelled_end env c s)) \<or> Aborted s \<in> set done))"
proof -
  define pend where "pend = fst (join_until (te_capture_end env) (t + CAPTURE_DRAIN) hs t)"
  define t3 where "t3 = snd (join_until (te_capture_end env) (t + CAPTURE_DRAIN) hs t)"
  define ab where "ab = fst (join_until (te_cancelled_end env t3) (t3 + CAPTURE_CANCEL) pend t3)"
  define t4 where "t4 = snd (join_until (te_cancelled_end env t3) (t3 + CAPTURE_CANCEL) pend t3)"
  note defs = pend_def t3_def ab_def t4_def
  have run: "done = (if pend = [] then [] else CaptureCancelled # map Aborted ab)" "t' = (if pend = [] then t3 else t4)"
    using assms by (auto simp: join_capture_def case_prod_unfold Let_def simp flip: defs split: if_splits)
  have drain: "t3 \<le> t + 500" "\<And>s. \<lbrakk>s \<in> set hs; s \<notin> set pend\<rbrakk> \<Longrightarrow> by_time t3 (te_capture_end env s)"
    using join_until_facts [of t "te_capture_end env" "t + CAPTURE_DRAIN" hs, folded pend_def t3_def]
    by (auto simp: CAPTURE_DRAIN_def)
  have cancel: "t3 \<le> t4" "t4 \<le> t3 + 100"
      "\<And>s. \<lbrakk>s \<in> set pend; s \<notin> set ab\<rbrakk> \<Longrightarrow> by_time t4 (te_cancelled_end env t3 s)"
    using join_until_facts [of t3 "te_cancelled_end env t3" "t3 + CAPTURE_CANCEL" pend, folded ab_def t4_def]
    by (auto simp: CAPTURE_CANCEL_def)
  have "by_time t' (te_capture_end env s) \<or>
       CaptureCancelled \<in> set done \<and> ((\<exists>c \<le> t'. by_time t' (te_cancelled_end env c s)) \<or> Aborted s \<in> set done)"
    if "s \<in> set hs" for s
  proof (cases "s \<in> set pend")
    case False
    then have "by_time t' (te_capture_end env s)"
      using drain(2) [OF that] cancel(1) by (simp add: run(2) by_time_later)
    then show ?thesis ..
  next
    case True
    then have "pend \<noteq> []" by auto
    with True cancel(1,3) show ?thesis by (cases "s \<in> set ab") (auto simp: run)
  qed
  moreover have "t' \<le> t + 600" using run(2) drain(1) cancel(1,2) by (simp split: if_splits)
  ultimately show ?thesis by blast
qed

section \<open>Properties\<close>

text \<open>C34: a teardown ends in bounded time and leaves nothing behind. When sleeps oversleep by at most
  \<open>late\<close> milliseconds, it ends within 12.65 seconds and \<open>late\<close>, whatever the processes do: the group is
  first asked and then killed, and every capture task has ended by then, by itself, after its
  cancellation, or aborted. The reported code is the one already known; otherwise one that a poll of
  the grace period found, or the reaped status, or -9.\<close>

theorem teardown_bounded:
  assumes "\<forall>t. te_late env t \<le> late" and "teardown env inc leader_exit t = (code, done, t')"
  shows "t' \<le> t + 12650 + late \<and>
    take 4 done = [SupervisorClosed, Signalled (inc_pgid inc) SIGTERM, Signalled (inc_pgid inc) SIGKILL,
      WaitedFor (inc_pgid inc)] \<and>
    (\<forall>s \<in> set (inc_capture inc).
       by_time t' (te_capture_end env s) \<or>
       CaptureCancelled \<in> set done \<and> ((\<exists>c \<le> t'. by_time t' (te_cancelled_end env c s)) \<or> Aborted s \<in> set done)) \<and>
    (\<forall>known. leader_exit = Some known \<longrightarrow> code = known) \<and>
    (leader_exit = None \<longrightarrow>
      (\<exists>t1 \<ge> t. t1 < t + 2000 \<and> te_peek env t1 = Some code) \<or>
      (\<exists>t2 reaped_at status. te_wait env t2 = Some (reaped_at, Inr (Some status)) \<and> code = Some status) \<or>
      code = Some (- 9))"
proof -
  define le where "le = fst (grace env (inc_capture inc) (t + STOP_GRACE) leader_exit t)"
  define t1 where "t1 = snd (grace env (inc_capture inc) (t + STOP_GRACE) leader_exit t)"
  define t2 where "t2 = snd (reap env t1)"
  obtain joins t4 where j: "join_capture env (inc_capture inc) t2 = (joins, t4)" by fastforce
  then have run: "code = exit_code_of le (fst (reap env t1))"
      "done = [SupervisorClosed, Signalled (inc_pgid inc) SIGTERM, Signalled (inc_pgid inc) SIGKILL,
        WaitedFor (inc_pgid inc)] @ joins" "t' = t4"
    using assms(2) by (auto simp: teardown_def case_prod_unfold Let_def le_def t1_def t2_def)
  have join: "join_capture env (inc_capture inc) t2 = (joins, t')" using j run(3) by simp
  note found = grace_exit [where le = leader_exit and env = env and captures = "inc_capture inc" and deadline = "t + STOP_GRACE" and t = t,
      folded le_def]
  have "t1 \<le> t + 2050 + late"
    using grace_time [OF assms(1), of t "inc_capture inc" "t + STOP_GRACE" leader_exit]
    unfolding t1_def by (auto simp: STOP_GRACE_def EXIT_POLL_def)
  with reap_time(2) [of env t1] join_capture_facts [OF join] have "t' \<le> t + 12650 + late"
    by (simp add: t2_def)
  moreover have "code = known" if "leader_exit = Some known" for known
    using found that
    by (simp add: run(1) exit_code_of_def)
  moreover have "(\<exists>t1 \<ge> t. t1 < t + 2000 \<and> te_peek env t1 = Some code) \<or>
      (\<exists>t2 reaped_at status. te_wait env t2 = Some (reaped_at, Inr (Some status)) \<and> code = Some status) \<or>
      code = Some (- 9)" if "leader_exit = None"
  proof (cases le)
    case (Some c)
    with found that show ?thesis
      by (simp add: run(1) exit_code_of_def STOP_GRACE_def)
  next
    case None
    have "fst (reap env t1) = Some st \<Longrightarrow> \<exists>at. te_wait env t1 = Some (at, st)" for st
      by (auto simp: reap_def split: option.splits prod.splits if_splits)
    with None show ?thesis
      by (auto simp: run(1) exit_code_of_def split: option.splits sum.splits)
  qed
  ultimately show ?thesis using join_capture_facts [OF join] by (auto simp: run(2))
qed

definition stubborn :: teardown_env where
  "stubborn =
     \<lparr>te_peek = (\<lambda>_. None), te_late = (\<lambda>_. 1), te_wait = (\<lambda>_. None), te_capture_end = (\<lambda>_. None),
      te_cancelled_end = (\<lambda>_ _. None)\<rparr>"

theorem teardown_bounded_witness:
  "case teardown stubborn \<lparr>inc_pgid = 4242, inc_capture = [Stdout, Stderr], inc_supervisor = True\<rparr> None 0 of
     (code, done, t') \<Rightarrow> t' \<le> 12651 \<and> code = Some (- 9) \<and> Aborted Stderr \<in> set done"
proof -
  let ?inc = "\<lparr>inc_pgid = 4242, inc_capture = [Stdout, Stderr], inc_supervisor = True\<rparr>"
  obtain code events t' where run: "teardown stubborn ?inc None 0 = (code, events, t')" by (metis prod.exhaust)
  have "\<forall>t. te_late stubborn t \<le> 1" by (simp add: stubborn_def)
  from teardown_bounded [OF this run] show ?thesis
    unfolding run prod.case by (simp add: stubborn_def by_time_def)
qed

end
