(* ===== verification/Watcher.thy ===== *)
theory Watcher
  imports Protocol
begin

text \<open>
  \<open>src/daemon/watcher.rs\<close>: which changed files count, and the debounce that turns bursts of changes
  into single restarts. Compiling a glob and a set of globs is a parameter, as is the source of the
  events. Time is in milliseconds.
\<close>

section \<open>Glob sets\<close>

definition DEFAULT_IGNORE :: "string list" where
  "DEFAULT_IGNORE =
     [''**/.git/**'', ''**/node_modules/**'', ''**/target/**'', ''**/__pycache__/**'', ''**/*.pyc'',
      ''**/.DS_Store'']"

definition DEBOUNCE_MS :: nat where
  "DEBOUNCE_MS = 500"

text \<open>\<open>glob_new\<close> compiles one pattern, \<open>build\<close> a set of compiled ones to its \<open>is_match\<close>.\<close>

record 'g globs =
  gl_new :: "string \<Rightarrow> string + 'g"
  gl_build :: "'g list \<Rightarrow> string + (string \<Rightarrow> bool)"

fun add_globs :: "'g globs \<Rightarrow> string list \<Rightarrow> 'g list \<Rightarrow> string + 'g list" where
  "add_globs gl [] acc = Inr acc"
| "add_globs gl (pat # pats) acc =
     (case gl_new gl pat of Inl e \<Rightarrow> Inl e | Inr g \<Rightarrow> add_globs gl pats (acc @ [g]))"

definition build_watch_set :: "'g globs \<Rightarrow> string list \<Rightarrow> string + (string \<Rightarrow> bool)" where
  "build_watch_set gl paths =
     (case add_globs gl paths [] of Inl e \<Rightarrow> Inl e | Inr gs \<Rightarrow> gl_build gl gs)"

definition build_ignore_set :: "'g globs \<Rightarrow> string list option \<Rightarrow> string + (string \<Rightarrow> bool)" where
  "build_ignore_set gl user_ignore =
     (case add_globs gl DEFAULT_IGNORE [] of
        Inl e \<Rightarrow> Inl e
      | Inr gs \<Rightarrow>
          (case (case user_ignore of None \<Rightarrow> Inr gs | Some patterns \<Rightarrow> add_globs gl patterns gs) of
             Inl e \<Rightarrow> Inl e
           | Inr gs \<Rightarrow> gl_build gl gs))"

definition resolve_watch_dirs :: "string list \<Rightarrow> string \<Rightarrow> string list" where
  "resolve_watch_dirs patterns base = [base]"

section \<open>The event callback\<close>

text \<open>\<open>Path::strip_prefix\<close> by whole components, for paths without a trailing or doubled separator.\<close>

definition strip_prefix :: "string \<Rightarrow> string \<Rightarrow> string option" where
  "strip_prefix base path =
     (if path = base then Some []
      else
        (let b = (if base \<noteq> [] \<and> last base \<noteq> CHR ''/'' then base @ ''/'' else base)
         in if str_starts_with b path then Some (drop (length b) path) else None))"

definition relative_to :: "string \<Rightarrow> string \<Rightarrow> string" where
  "relative_to base path = (case strip_prefix base path of None \<Rightarrow> path | Some rel \<Rightarrow> rel)"

definition counts ::
  "(string \<Rightarrow> bool) \<Rightarrow> (string \<Rightarrow> bool) \<Rightarrow> string \<Rightarrow> string \<Rightarrow> bool" where
  "counts watch_set ignore_set base path =
     (let relative = relative_to base path
      in if \<not> watch_set relative \<and> \<not> watch_set path then False
         else if ignore_set relative \<or> ignore_set path then False
         else True)"

text \<open>One event of the watcher: an error, or the paths it is about. The result are the paths sent to
  the debounce task.\<close>

definition on_notify ::
  "(string \<Rightarrow> bool) \<Rightarrow> (string \<Rightarrow> bool) \<Rightarrow> string \<Rightarrow> string + string list \<Rightarrow> string list" where
  "on_notify watch_set ignore_set base res =
     (case res of Inl _ \<Rightarrow> [] | Inr paths \<Rightarrow> filter (counts watch_set ignore_set base) paths)"

section \<open>Debouncing\<close>

text \<open>The times at which paths arrive, in order; the result are the times at which a restart is
  signalled. \<open>now\<close> is when the task starts to wait. A path that arrives at the deadline is drained.
  The watcher is held, and the manager receives, for as long as paths arrive: dropping either ends the
  task without a signal. The channels are taken to have room: the watcher's callback and the signal to
  the manager would wait while the other side is behind.\<close>

function debounce :: "nat \<Rightarrow> nat list \<Rightarrow> nat list" where
  "debounce now [] = []"
| "debounce now (t # ts) =
     (let deadline = max now t + DEBOUNCE_MS
      in deadline # debounce deadline (dropWhile (\<lambda>t'. t' \<le> deadline) ts))"
  by pat_completeness auto
termination
  by (relation "measure (\<lambda>(now, ts). length ts)") (auto simp: le_imp_less_Suc length_dropWhile_le)

section \<open>Creating a watcher\<close>

text \<open>The events with the time of each, as the watcher reports them; \<open>create\<close> is the error of the
  platform's watcher. The result are the times of the restart signals.\<close>

definition create_watcher ::
  "'g globs \<Rightarrow> string option \<Rightarrow> string list \<Rightarrow> string list option \<Rightarrow> string
     \<Rightarrow> (nat \<times> (string + string list)) list \<Rightarrow> string + nat list" where
  "create_watcher gl create paths ignore base_dir events =
     (case build_ignore_set gl ignore of
        Inl e \<Rightarrow> Inl e
      | Inr ignore_set \<Rightarrow>
          (case build_watch_set gl paths of
             Inl e \<Rightarrow> Inl e
           | Inr watch_set \<Rightarrow>
               (case create of
                  Some e \<Rightarrow> Inl (''failed to create watcher: '' @ e)
                | None \<Rightarrow>
                    Inr (debounce 0
                      (concat (map (\<lambda>(t, res). map (\<lambda>_. t) (on_notify watch_set ignore_set base_dir res)) events))))))"

section \<open>Bursts and restarts\<close>

lemma debounce_later: "d \<in> set (debounce now ts) \<Longrightarrow> now + DEBOUNCE_MS \<le> d"
proof (induction now ts rule: debounce.induct)
  case (2 now t ts)
  then show ?case by (auto simp: Let_def)
qed simp

lemma debounce_spaced: "sorted_wrt (\<lambda>d d'. d + DEBOUNCE_MS \<le> d') (debounce now ts)"
proof (induction now ts rule: debounce.induct)
  case (2 now t ts)
  then show ?case by (auto simp: Let_def dest: debounce_later)
qed simp

lemma debounce_step:
  assumes "now \<le> t"
  shows "debounce now (t # ts) =
    (t + DEBOUNCE_MS) # debounce (t + DEBOUNCE_MS) (dropWhile (\<lambda>t'. t' \<le> t + DEBOUNCE_MS) ts)"
  using assms by (simp add: Let_def max_def)

lemma drained:
  fixes d :: nat
  assumes "sorted ts"
  shows "sorted (dropWhile (\<lambda>t. t \<le> d) ts)" "\<forall>t \<in> set (dropWhile (\<lambda>t. t \<le> d) ts). d \<le> t"
proof -
  define rest where "rest = dropWhile (\<lambda>t. t \<le> d) ts"
  have srt: "sorted rest" using assms by (simp add: rest_def sorted_dropWhile)
  then show "sorted (dropWhile (\<lambda>t. t \<le> d) ts)" by (simp add: rest_def)
  have "\<forall>t \<in> set rest. d \<le> t"
  proof (cases rest)
    case (Cons r rs)
    then have "d < r" by (metis hd_dropWhile list.sel(1) list.simps(3) not_le rest_def)
    with srt Cons show ?thesis by auto
  qed simp
  then show "\<forall>t \<in> set (dropWhile (\<lambda>t. t \<le> d) ts). d \<le> t" by (simp add: rest_def)
qed

lemma debounce_answers:
  assumes "sorted ts" and "\<forall>t \<in> set ts. now \<le> t"
  shows "(\<forall>t \<in> set ts. \<exists>d \<in> set (debounce now ts). t \<le> d \<and> d \<le> t + DEBOUNCE_MS) \<and>
    (\<forall>d \<in> set (debounce now ts). \<exists>t \<in> set ts. d = t + DEBOUNCE_MS)"
  using assms
proof (induction now ts rule: debounce.induct)
  case (2 now t0 ts)
  define d0 where "d0 = t0 + DEBOUNCE_MS"
  define rest where "rest = dropWhile (\<lambda>t'. t' \<le> d0) ts"
  have now: "now \<le> t0" using "2.prems"(2) by simp
  have step: "debounce now (t0 # ts) = d0 # debounce d0 rest"
    using debounce_step [OF now] by (simp add: d0_def rest_def)
  have srt: "sorted ts" using "2.prems"(1) by simp
  have "max now t0 + DEBOUNCE_MS = d0" using now by (simp add: d0_def max_def)
  note IH = "2.IH" [OF this [symmetric], folded rest_def, OF drained [OF srt, of d0, folded rest_def]]
  have "\<exists>d \<in> set (debounce now (t0 # ts)). t \<le> d \<and> d \<le> t + DEBOUNCE_MS" if "t \<in> set (t0 # ts)" for t
  proof (cases "t \<in> set rest")
    case True
    with IH show ?thesis unfolding step by auto
  next
    case False
    have "t0 \<le> t" using "2.prems"(1) that by auto
    moreover have "t \<le> d0"
    proof (cases "t = t0")
      case False
      with that have "t \<in> set (takeWhile (\<lambda>t'. t' \<le> d0) ts)"
        using \<open>t \<notin> set rest\<close> unfolding rest_def by (metis Un_iff set_ConsD set_append takeWhile_dropWhile_id)
      then show ?thesis by (auto dest: set_takeWhileD)
    qed (simp add: d0_def)
    ultimately show ?thesis unfolding step by (intro bexI [of _ d0]) (simp_all add: d0_def)
  qed
  moreover have "set rest \<subseteq> set ts" unfolding rest_def by (rule set_dropWhileD [THEN subsetI])
  then have "\<exists>t \<in> set (t0 # ts). d = t + DEBOUNCE_MS" if "d \<in> set (debounce now (t0 # ts))" for d
  proof (cases "d = d0")
    case False
    with that have "d \<in> set (debounce d0 rest)" unfolding step by simp
    with IH obtain t where "t \<in> set rest" "d = t + DEBOUNCE_MS" by blast
    with \<open>set rest \<subseteq> set ts\<close> show ?thesis by (intro bexI [of _ t]) auto
  qed (simp add: d0_def)
  ultimately show ?case by blast
qed simp

lemma sorted_concat_at:
  fixes at :: "'a \<Rightarrow> nat" and f :: "'a \<Rightarrow> nat list"
  assumes "\<And>e. set (f e) \<subseteq> {at e}" and "\<And>e. sorted (f e)" and "sorted (map at es)"
  shows "sorted (concat (map f es))"
  using assms(3)
proof (induction es)
  case (Cons e es)
  have "x \<le> y" if "x \<in> set (f e)" "y \<in> set (f e')" "e' \<in> set es" for x y e'
    using Cons.prems that assms(1) [of e] assms(1) [of e'] by auto
  with Cons show ?case by (auto simp: sorted_append assms(2))
qed simp

section \<open>Properties\<close>

text \<open>C29: a burst of changes is one restart, soon. When a watcher was created, every change of a
  file that matches the watch patterns and no ignore pattern is followed by a restart signal within
  half a second; every signal comes exactly half a second after such a change; and two signals are at
  least half a second apart.\<close>

theorem changes_are_debounced:
  assumes "create_watcher gl create paths ignore base events = Inr signals" and "sorted (map fst events)"
    and "build_watch_set gl paths = Inr watched" and "build_ignore_set gl ignore = Inr ignored"
    and "relevant = (\<lambda>p. (watched (relative_to base p) \<or> watched p) \<and> \<not> ignored (relative_to base p) \<and> \<not> ignored p)"
  shows "(\<forall>(t, res) \<in> set events. \<forall>ps. res = Inr ps \<longrightarrow> (\<exists>p \<in> set ps. relevant p) \<longrightarrow>
      (\<exists>d \<in> set signals. t \<le> d \<and> d \<le> t + 500)) \<and>
    (\<forall>d \<in> set signals. \<exists>(t, res) \<in> set events. \<exists>ps. res = Inr ps \<and> (\<exists>p \<in> set ps. relevant p) \<and> d = t + 500) \<and>
    sorted_wrt (\<lambda>d d'. d + 500 \<le> d') signals"
proof -
  define sent where "sent = (\<lambda>(t :: nat, res). map (\<lambda>_. t) (on_notify watched ignored base res))"
  define ts where "ts = concat (map sent events)"
  have signals: "signals = debounce 0 ts"
    using assms(1,3,4) by (auto simp: create_watcher_def ts_def sent_def split: option.splits)
  have ms: "DEBOUNCE_MS = 500" by (simp add: DEBOUNCE_MS_def)
  have "set (sent e) \<subseteq> {fst e}" for e by (cases e) (auto simp: sent_def)
  moreover have "sorted (sent e)" for e by (cases e) (simp add: sent_def map_replicate_const)
  ultimately have "sorted ts" using assms(2) unfolding ts_def by (intro sorted_concat_at)
  from debounce_answers [OF this, of 0] have
    answers: "\<forall>t \<in> set ts. \<exists>d \<in> set signals. t \<le> d \<and> d \<le> t + 500"
    and causes: "\<forall>d \<in> set signals. \<exists>t \<in> set ts. d = t + 500"
    by (simp_all add: signals ms)
  have "relevant p = counts watched ignored base p" for p by (simp add: assms(5) counts_def Let_def)
  then have ts: "t \<in> set ts \<longleftrightarrow> (\<exists>ps. (t, Inr ps) \<in> set events \<and> (\<exists>p \<in> set ps. relevant p))" for t
    by (force simp: ts_def sent_def on_notify_def split: sum.splits)
  have "\<exists>d \<in> set signals. t \<le> d \<and> d \<le> t + 500" if "(t, Inr ps) \<in> set events" "\<exists>p \<in> set ps. relevant p" for t ps
    using answers ts that by blast
  moreover have "\<exists>(t, res) \<in> set events. \<exists>ps. res = Inr ps \<and> (\<exists>p \<in> set ps. relevant p) \<and> d = t + 500"
    if "d \<in> set signals" for d
    using causes ts that by fastforce
  ultimately show ?thesis
    using debounce_spaced [of 0 ts] by (auto simp: signals ms)
qed

definition literal_globs :: "string globs" where
  "literal_globs = \<lparr>gl_new = Inr, gl_build = (\<lambda>gs. Inr (\<lambda>p. p \<in> set gs))\<rparr>"

theorem changes_are_debounced_witness:
  "\<exists>signals. create_watcher literal_globs None [''src/main.rs''] (Some [''notes'']) ''/w''
      [(100, Inr [''/w/src/main.rs'']), (300, Inr [''/w/src/main.rs'', ''/w/notes'']), (400, Inl ''overflow''), (900, Inr [''/w/src/main.rs''])]
      = Inr signals \<and> sorted_wrt (\<lambda>d d'. d + 500 \<le> d') signals \<and> (\<exists>d \<in> set signals. 300 \<le> d \<and> d \<le> 800)"
proof -
  let ?ev = "[(100, Inr [''/w/src/main.rs'']), (300, Inr [''/w/src/main.rs'', ''/w/notes'']), (400, Inl ''overflow''), (900, Inr [''/w/src/main.rs''])] :: (nat \<times> (string + string list)) list"
  obtain watched where w: "build_watch_set literal_globs [''src/main.rs''] = Inr watched" "watched = (\<lambda>p. p = ''src/main.rs'')"
    by (auto simp: build_watch_set_def literal_globs_def)
  obtain ignored where i: "build_ignore_set literal_globs (Some [''notes'']) = Inr ignored"
      "ignored = (\<lambda>p. p \<in> set (DEFAULT_IGNORE @ [''notes'']))"
    by (auto simp: build_ignore_set_def literal_globs_def DEFAULT_IGNORE_def)
  obtain signals where run: "create_watcher literal_globs None [''src/main.rs''] (Some [''notes'']) ''/w'' ?ev = Inr signals"
    by (simp add: create_watcher_def w(1) i(1))
  have rel: "relative_to ''/w'' ''/w/src/main.rs'' = ''src/main.rs''"
    by (simp add: relative_to_def strip_prefix_def str_starts_with_def)
  have "\<exists>p \<in> set [''/w/src/main.rs'', ''/w/notes'']. (watched (relative_to ''/w'' p) \<or> watched p) \<and>
      \<not> ignored (relative_to ''/w'' p) \<and> \<not> ignored p"
    by (simp add: rel w(2) i(2) DEFAULT_IGNORE_def)
  moreover have "sorted (map fst ?ev)" by simp
  ultimately show ?thesis
    using changes_are_debounced [OF run _ w(1) i(1) refl] run by fastforce
qed

end
