(* ===== verification/Waiting_Clients.thy ===== *)
theory Waiting_Clients
  imports Restart_Properties
begin

text \<open>
  What becomes of the clients that wait on a stopping record: whatever other messages the actor handles
  until the teardown reports, they stay on the record, in the order they asked, and the report answers
  each of them.
\<close>

section \<open>A stopping record\<close>

definition waits :: "string \<Rightarrow> nat \<Rightarrow> waiter list \<Rightarrow> actor \<Rightarrow> bool" where
  "waits k g ws a \<longleftrightarrow>
     (\<exists>p leader thn ws'. record_at k a = Some p \<and> mp_generation p = g \<and> mp_life p = Stopping leader thn (ws @ ws'))"

lemma waits_frame [simp]:
  "waits k g ws (emit es a) = waits k g ws a"
  "waits k g ws (publish_proxy_state a) = waits k g ws a"
  "waits k g ws (a\<lparr>ac_stop_all := b\<rparr>) = waits k g ws a"
  "waits k g ws (a\<lparr>ac_outbox := es\<rparr>) = waits k g ws a"
  by (simp_all add: waits_def record_at_def)

lemma waits_cong: "record_at k a = record_at k b \<Longrightarrow> waits k g ws a = waits k g ws b"
  by (simp add: waits_def)

lemma waits_observed: "waits k g ws a \<Longrightarrow> record_at k a = Some p \<Longrightarrow> observed os p = p"
  by (auto simp: waits_def observed_def)

lemma stop_all_one_waits:
  assumes "record_at j (fst st) = Some q" and "waits k g ws (fst st)"
  shows "waits k g ws (fst (stop_all_one j st))"
proof (cases "k = j")
  case False
  then have "record_at k (fst (stop_all_one j st)) = record_at k (fst st)"
    using record_at_stop_all_one [OF assms(1)] by blast
  with assms(2) show ?thesis using waits_cong by blast
next
  case True
  obtain a rest where st: "st = (a, rest)" by force
  from assms True obtain leader thn ws' where "mp_generation q = g" "mp_life q = Stopping leader thn (ws @ ws')"
    by (auto simp: waits_def)
  moreover have "find_entry (ac_pm a) j = Some (j, q)" using assms(1) by (simp add: st record_at_def)
  ultimately show ?thesis by (simp add: st stop_all_one_def True waits_def)
qed

section \<open>Commands\<close>

lemma targeted_waits:
  assumes e: "find_entry (ac_pm a) t = Some (k, p)" and w: "waits k g ws a" and p: "record_at k a = Some p"
    and dist: "distinct (hm_keys (pm_processes (ac_pm a)))"
  shows "waits k g ws (handle_stop os t r a)" "waits k g ws (handle_restart os t r a)"
    "waits k g ws (handle_auto_restart t g' a)" "waits k g ws (handle_watch_restart t g' a)"
proof -
  from w p obtain leader thn ws' where g: "mp_generation p = g" and l: "mp_life p = Stopping leader thn (ws @ ws')"
    by (auto simp: waits_def)
  have obs: "observed os p = p" using waits_observed [OF w p] .
  have found: "find_entry (ac_pm (refresh os a)) t = Some (k, p)"
    using e obs by (simp add: find_entry_refresh refresh_def on_pm_def)
  show "waits k g ws (handle_stop os t r a)" "waits k g ws (handle_restart os t r a)"
    using found l g w obs p
    by (auto simp: handle_stop_def handle_restart_def Let_def waits_def reply_def)
  show "waits k g ws (handle_auto_restart t g' a)" "waits k g ws (handle_watch_restart t g' a)"
    using e l w by (auto simp: handle_auto_restart_def handle_watch_restart_def watch_restartable_def)
qed

lemma waits_stop_all:
  assumes inv: "pm_inv (ac_pm a)" and w: "waits k g ws a"
  shows "waits k g ws (handle_stop_all os r a) \<or> pm_processes (ac_pm (handle_stop_all os r a)) = []"
proof (cases "ac_stop_all a")
  case (Some b)
  with w show ?thesis by (simp add: handle_stop_all_def)
next
  case None
  let ?Q = "\<lambda>x. \<exists>p leader thn ws'. x = Some p \<and> mp_generation p = g \<and> mp_life p = Stopping leader thn (ws @ ws')"
  have Q: "?Q (record_at k b) = waits k g ws b" for b by (simp add: waits_def)
  have "?Q (map_option (observed os) (record_at k a))"
    using w by (auto simp: waits_def observed_def)
  from record_at_stop_all_rule [where Q = ?Q and k = k, OF inv None _ this] show ?thesis
    unfolding Q using stop_all_one_waits by blast
qed

lemma waits_count:
  assumes "daemon_inv s" and "waits k g ws (dm_actor s)"
  shows "count (dm_tasks s) (k, g) = 1"
proof -
  note facts = daemon_inv_facts [OF assms(1)]
  have "distinct (hm_keys (pm_processes (ac_pm (dm_actor s))))"
    using facts(1) by (simp add: pm_inv_def)
  from count_tasks [OF this, of k g] assms(2) show ?thesis
    by (auto simp: pm_tasks_def waits_def record_at_def simp flip: facts(3))
qed

lemma task_generation:
  assumes "daemon_inv s" and "(k, g) \<in># dm_tasks s"
  obtains p where "record_at k (dm_actor s) = Some p" "mp_generation p = g" "is_stopping (mp_life p)"
proof -
  note facts = daemon_inv_facts [OF assms(1)]
  have "distinct (hm_keys (pm_processes (ac_pm (dm_actor s))))"
    using facts(1) by (simp add: pm_inv_def)
  from count_tasks [OF this, of k g] assms(2) that show thesis
    by (auto simp: pm_tasks_def record_at_def simp flip: facts(3) count_greater_zero_iff split: if_splits)
qed

lemma waits_command:
  assumes inv: "daemon_inv s" and tasks: "cmd_tasks cmd \<subseteq># dm_tasks s" and src: "cmd_sources cmd \<subseteq> dm_sources s"
    and w: "waits k g ws (dm_actor s)" and other: "(k, g) \<notin># cmd_tasks cmd"
  shows "waits k g ws (handle_command os cmd (dm_actor s)) \<or>
    pm_processes (ac_pm (handle_command os cmd (dm_actor s))) = []"
proof -
  note facts = daemon_inv_facts [OF inv]
  from w obtain p where p: "record_at k (dm_actor s) = Some p" by (auto simp: waits_def)
  consider (all) r where "cmd = CmdStopAll r"
    | (target) t q where "cmd_target cmd = Some t" "find_entry (ac_pm (dm_actor s)) t = Some (k, q)"
    | (others) "\<not> is_stop_all cmd"
      "\<And>t q. cmd_target cmd = Some t \<Longrightarrow> find_entry (ac_pm (dm_actor s)) t \<noteq> Some (k, q)"
    by (cases cmd) fastforce+
  then show ?thesis
  proof cases
    case all
    with waits_stop_all [OF facts(1) w] facts(2) show ?thesis by (simp add: handle_command_def)
  next
    case others
    from handle_command_record [OF inv tasks src p others, of os] waits_observed [OF w p, of os] w p
    show ?thesis by (auto simp: waits_def)
  next
    case target
    have dist: "distinct (hm_keys (pm_processes (ac_pm (dm_actor s))))"
      using facts(1) by (simp add: pm_inv_def)
    have no_report: "cmd \<noteq> CmdStopFinished n h code" for n h code
    proof
      assume c: "cmd = CmdStopFinished n h code"
      then have h: "(n, h) \<in># dm_tasks s" using tasks by simp
      with inv obtain q' where "record_at n (dm_actor s) = Some q'" "mp_generation q' = h"
        by (rule task_generation)
      moreover from this c target have "n = k" by (simp add: record_at_def)
      ultimately show False using w c other by (auto simp: waits_def)
    qed
    have "find_entry (ac_pm (dm_actor s)) t = Some (k, p)"
      using target(2) p find_entry_inv(1) [OF facts(1) target(2)] by (simp add: record_at_def)
    note kept = targeted_waits [OF this w p dist]
    show ?thesis
      using target(1) no_report kept facts(2) by (cases cmd) (auto simp: handle_command_def)
  qed
qed

section \<open>While the teardown is in flight\<close>

definition tearing_down :: "string \<times> nat \<Rightarrow> daemon \<Rightarrow> daemon \<Rightarrow> bool" where
  "tearing_down task s t \<longleftrightarrow> daemon_step s t \<and> task \<in># dm_tasks t"

lemma report_ends_task:
  assumes inv: "daemon_inv s" and w: "waits k g ws (dm_actor s)"
  shows "(k, g) \<notin># dm_tasks (deliver os (CmdStopFinished k g code) s)"
proof -
  show ?thesis
    using daemon_inv_facts(2,7) [OF inv] waits_count [OF inv w]
    by (simp add: deliver_def absorb_def handle_command_def finish_teardown_tasks not_in_iff)
qed

lemma waits_step:
  assumes inv: "daemon_inv s" and w: "waits k g ws (dm_actor s)" and step: "tearing_down (k, g) s t"
  shows "daemon_inv t \<and> waits k g ws (dm_actor t)"
proof
  from step have st: "daemon_step s t" and task: "(k, g) \<in># dm_tasks t" by (auto simp: tearing_down_def)
  show inv': "daemon_inv t" by (rule daemon.inv_step [OF inv st])
  from st show "waits k g ws (dm_actor t)"
  proof (cases rule: daemon_step_cases)
    case (command cmd os)
    have "(k, g) \<notin># cmd_tasks cmd"
      using report_ends_task [OF inv w] task command(1) by (cases cmd) auto
    from waits_command [OF inv command(2,3) w this, of os] task_generation [OF inv' task] command(1)
    show ?thesis by (force simp: deliver_def absorb_def record_at_def)
  next
    case (exit_refresh os)
    from w obtain p where p: "record_at k (dm_actor s) = Some p" by (auto simp: waits_def)
    moreover from p w have "candidate_of (observed os p) = Skip"
      by (auto simp: waits_observed [OF w p] waits_def candidate_of_def)
    ultimately have "record_at k (tick os (dm_actor s)) = Some p"
      using record_at_tick [OF daemon_inv_facts(1) [OF inv], of k p os] waits_observed [OF w p] by simp
    with w p have "waits k g ws (tick os (dm_actor s))" by (simp add: waits_def)
    then show ?thesis by (simp add: exit_refresh absorb_def)
  qed
qed

interpretation in_flight: invariant_system "\<lambda>s. daemon_inv s \<and> waits k g ws (dm_actor s)"
    "tearing_down (k, g)" "\<lambda>s. daemon_inv s \<and> waits k g ws (dm_actor s)" for k g ws
  by unfold_locales (assumption, elim conjE, rule waits_step)

section \<open>The report\<close>

lemma report_outbox:
  assumes out: "\<not> ac_panicked a" and p: "record_at n a = Some p" and l: "mp_life p = Stopping leader thn ws"
  obtains sent resp later where
    "ac_outbox (handle_command os (CmdStopFinished n (mp_generation p) code) a)
      = sent @ map (waiter_reply n resp) ws @ later"
    and "resp = (case thn of
        Park \<Rightarrow> RespError General ''restart superseded by stop''
      | Respawn reason \<Rightarrow> fst (respawn os n reason code
          (on_pm (set_proc n (p\<lparr>mp_life := Exited code ManualStop None False\<rparr>)) a)))"
proof -
  have e: "find_entry (ac_pm a) n = Some (n, p)" using p by (simp add: record_at_def)
  define a1 where "a1 = on_pm (set_proc n (p\<lparr>mp_life := Exited code ManualStop None False\<rparr>)) a"
  obtain resp a2 where run: "(case thn of
      Park \<Rightarrow> (actor_error ''restart superseded by stop'', a1)
    | Respawn reason \<Rightarrow> respawn os n reason code a1) = (resp, a2)" by force
  let ?a3 = "emit (map (waiter_reply n resp) ws) a2"
  have "\<exists>later. ac_outbox (case ac_stop_all ?a3 of
         None \<Rightarrow> ?a3
       | Some batch \<Rightarrow>
           (let rest = removeAll n (sab_remaining batch);
                a = ?a3\<lparr>ac_stop_all := Some (batch\<lparr>sab_remaining := rest\<rparr>)\<rparr>
            in if rest = [] then finish_stop_all a else a)) = ac_outbox ?a3 @ later"
    by (simp add: finish_stop_all_def Let_def split: option.split)
  then obtain later where
    "ac_outbox (finish_teardown os n (mp_generation p) code a) = ac_outbox ?a3 @ later"
    using finish_teardown_run [OF e refl l run [unfolded a1_def] refl] by auto
  then have "ac_outbox (handle_command os (CmdStopFinished n (mp_generation p) code) a)
      = ac_outbox a2 @ map (waiter_reply n resp) ws @ later"
    using out by (simp add: handle_command_def)
  moreover have "resp = (case thn of
        Park \<Rightarrow> RespError General ''restart superseded by stop''
      | Respawn reason \<Rightarrow> fst (respawn os n reason code
          (on_pm (set_proc n (p\<lparr>mp_life := Exited code ManualStop None False\<rparr>)) a)))"
    using run by (auto simp: a1_def actor_error_def split: after_stop.splits)
  ultimately show thesis by (rule that)
qed

lemma waiter_reply_eq:
  "waiter_reply n resp = (\<lambda>w. case w of
      WaitStop r \<Rightarrow> Reply r (RResponse (RespOk (''stopped '' @ n)))
    | WaitRestart r \<Rightarrow> Reply r (RResponse resp))"
  by (auto simp: fun_eq_iff stopped_def split: waiter.split)

text \<open>C12: a client that waits for a stop or a restart is answered, whatever happens meanwhile. Let a
  record be stopping with some clients waiting on it, and let the daemon take any steps whatever
  (other requests for the same process, stop-alls, restarts, timers, file changes, checks) while the
  teardown is in flight. Then those clients are still waiting, first in line and in the order they asked,
  and the report of the teardown answers all of them: those that asked to stop are told that the
  process is stopped; those that asked to restart get the outcome of the respawn, or, when the last
  request was a stop, that their restart was superseded.\<close>

theorem waiting_clients_are_answered:
  assumes "reaches daemon_step (daemon_new session) s"
    and "hm_get (pm_processes (ac_pm (dm_actor s))) n = Some p"
    and "mp_life p = Stopping leader thn ws"
    and "reaches (tearing_down (n, mp_generation p)) s t"
  shows "\<exists>q leader' thn' more sent restarted later.
    hm_get (pm_processes (ac_pm (dm_actor t))) n = Some q \<and>
    mp_life q = Stopping leader' thn' (ws @ more) \<and>
    ac_outbox (handle_command os (CmdStopFinished n (mp_generation p) code) (dm_actor t)) =
      sent @ map (\<lambda>w. case w of
          WaitStop r \<Rightarrow> Reply r (RResponse (RespOk (''stopped '' @ n)))
        | WaitRestart r \<Rightarrow> Reply r (RResponse restarted)) (ws @ more) @ later \<and>
    restarted = (case thn' of
        Park \<Rightarrow> RespError General ''restart superseded by stop''
      | Respawn reason \<Rightarrow> fst (respawn os n reason code
          (on_pm (set_proc n (q\<lparr>mp_life := Exited code ManualStop None False\<rparr>)) (dm_actor t))))"
proof -
  have "waits n (mp_generation p) ws (dm_actor s)"
    using assms(2,3) by (auto simp: waits_def record_at_def)
  with in_flight.inv_along [OF assms(4)] reachable_inv [OF assms(1)]
  have inv: "daemon_inv t" and w: "waits n (mp_generation p) ws (dm_actor t)" by blast+
  from w obtain q leader' thn' more where q: "record_at n (dm_actor t) = Some q"
    and g: "mp_generation q = mp_generation p" and l: "mp_life q = Stopping leader' thn' (ws @ more)"
    by (auto simp: waits_def)
  from daemon_inv_facts(2) [OF inv] q l obtain sent resp later where
    "ac_outbox (handle_command os (CmdStopFinished n (mp_generation q) code) (dm_actor t))
      = sent @ map (waiter_reply n resp) (ws @ more) @ later"
    and "resp = (case thn' of
        Park \<Rightarrow> RespError General ''restart superseded by stop''
      | Respawn reason \<Rightarrow> fst (respawn os n reason code
          (on_pm (set_proc n (q\<lparr>mp_life := Exited code ManualStop None False\<rparr>)) (dm_actor t))))"
    by (rule report_outbox [where os = os and code = code])
  then show ?thesis
    using q g l by (auto simp: record_at_def waiter_reply_eq)
qed

text \<open>A client restarts the process another client is stopping; both are answered.\<close>

definition example_overtaken :: daemon where
  "example_overtaken = deliver example_os (CmdRestart ''web'' 3) example_stopping"

lemma example_overtaken_waits: "reaches (tearing_down (''web'', 1)) example_stopping example_overtaken"
proof -
  have "daemon_step example_stopping example_overtaken"
    unfolding example_overtaken_def by (rule daemon_step.client) simp_all
  moreover have "(''web'', 1) \<in># dm_tasks example_overtaken"
    unfolding example_overtaken_def by code_simp
  ultimately show ?thesis
    by (auto simp: tearing_down_def intro: reaches.there reaches.here)
qed

theorem waiting_clients_are_answered_witness:
  "Reply 2 (RResponse (RespOk (''stopped '' @ ''web''))) \<in> set (ac_outbox
     (handle_command example_os (CmdStopFinished ''web'' 1 (Some 0)) (dm_actor example_overtaken)))"
proof -
  have p: "hm_get (pm_processes (ac_pm (dm_actor example_stopping))) ''web''
      = Some (example_web (Stopping None Park [WaitStop 2]))"
    by (simp add: example_stopping_eq example_actor_def)
  have path: "reaches (tearing_down (''web'', mp_generation (example_web (Stopping None Park [WaitStop 2]))))
      example_stopping example_overtaken"
    using example_overtaken_waits by (simp add: example_web_def)
  from waiting_clients_are_answered
      [where os = example_os and code = "Some 0", OF example_stopping_reachable p _ path]
  show ?thesis by (force simp: example_web_def)
qed

end
