(* ===== verification/Tui_Tasks.thy ===== *)
theory Tui_Tasks
  imports Tui_Event_Loop
begin

text \<open>
  The tasks that feed the event loop (\<open>spawn_background_tasks\<close> and \<open>key_reader\<close> of
  \<open>src/tui/event_loop.rs\<close>): the output stream, the status poller, the terminal and the signal
  handler send into one channel. What the loop receives is an interleaving of the four.
\<close>

section \<open>The tasks\<close>

text \<open>The events of the terminal library; all but keys and the mouse are skipped, an error or the end
  of the stream ends the task.\<close>

datatype term_event = TermKey key_event | TermMouse mouse_event | TermOther nat

fun key_reader :: "('e + term_event) list \<Rightarrow> app_event list" where
  "key_reader (Inr (TermKey key) # es) = EvKey key # key_reader es"
| "key_reader (Inr (TermMouse mouse) # es) = EvMouse mouse # key_reader es"
| "key_reader (Inr (TermOther _) # es) = key_reader es"
| "key_reader _ = []"

definition quit_key :: key_event where
  "quit_key = \<lparr>ke_code = KeyChar ''q'', ke_control = False\<rparr>"

text \<open>Whether the handler could be installed, and whether the signal came.\<close>

definition sigterm_task :: "bool \<Rightarrow> bool \<Rightarrow> app_event list" where
  "sigterm_task installed received = (if installed \<and> received then [EvKey quit_key] else [])"

primrec interleavings :: "'a list list \<Rightarrow> 'a list set" where
  "interleavings [] = {[]}"
| "interleavings (xs # xss) = (\<Union>ys \<in> interleavings xss. shuffles xs ys)"

record task_env =
  te_client :: client_env
  te_session :: string
  te_incoming :: "(io_error + string) list"
  te_status :: "(client_error + response) list"
  te_terminal :: "(io_error + term_event) list"
  te_sigterm_installed :: bool
  te_sigterm_received :: bool

definition spawn_background_tasks :: "task_env \<Rightarrow> app_event list set" where
  "spawn_background_tasks te =
     interleavings
       [output_stream_reader (te_client te) (te_session te) (te_incoming te),
        status_events (te_status te),
        key_reader (te_terminal te),
        sigterm_task (te_sigterm_installed te) (te_sigterm_received te)]"

section \<open>Interleavings\<close>

lemma interleavings_mset: "zs \<in> interleavings xss \<Longrightarrow> mset zs = sum_list (map mset xss)"
  by (induction xss arbitrary: zs) (auto simp: mset_shuffles)

lemma filter_none [simp]: "filter P xs = [] \<longleftrightarrow> list_all (\<lambda>x. \<not> P x) xs"
  by (simp add: filter_empty_conv list_all_iff)

text \<open>Events that only one task sends arrive in the order it sends them.\<close>

lemma shuffles_filter:
  assumes "zs \<in> shuffles xs ys"
  shows "filter P zs \<in> shuffles (filter P xs) (filter P ys)"
  using assms by (metis filter_shuffles image_eqI)

lemma interleavings_source:
  assumes "zs \<in> interleavings (as @ xs # bs)" and "\<forall>ys \<in> set (as @ bs). list_all (\<lambda>e. \<not> P e) ys"
  shows "filter P zs = filter P xs"
  using assms
proof (induction as arbitrary: zs)
  case Nil
  then obtain ys where ys: "ys \<in> interleavings bs" "zs \<in> shuffles xs ys" by auto
  have "mset ys = sum_list (map mset bs)" by (rule interleavings_mset [OF ys(1)])
  then have "set ys = \<Union> (set (map set bs))"
    by (metis (no_types, lifting) set_mset_mset set_mset_sum_list map_map comp_def list.map_cong0 set_map image_image)
  with Nil(2) have "filter P ys = []" by (auto simp: list_all_iff)
  with shuffles_filter [OF ys(2), of P] show ?case by simp
next
  case (Cons a as)
  then obtain ys where ys: "ys \<in> interleavings (as @ xs # bs)" "zs \<in> shuffles a ys" by auto
  have "filter P a = []" using Cons.prems(2) by simp
  with shuffles_filter [OF ys(2), of P] Cons.IH [OF ys(1)] Cons.prems(2) show ?case by simp
qed

fun is_output :: "app_event \<Rightarrow> bool" where
  "is_output (EvOutputLine _ _ _) = True"
| "is_output _ = False"

lemma key_reader_no_output: "list_all (\<lambda>e. \<not> is_output e) (key_reader es)"
  by (induction es rule: key_reader.induct) simp_all

lemma status_events_no_output: "list_all (\<lambda>e. \<not> is_output e) (status_events rs)"
  by (auto simp: status_events_def List.map_filter_def list_all_iff split: sum.splits response.splits)

text \<open>The lines reach the application in the order the daemon sent them.\<close>

theorem output_in_order:
  assumes "evs \<in> spawn_background_tasks te"
  shows "filter is_output evs
    = filter is_output (output_stream_reader (te_client te) (te_session te) (te_incoming te))"
proof (rule interleavings_source [where as = "[]"])
  show "evs \<in> interleavings ([] @ output_stream_reader (te_client te) (te_session te) (te_incoming te)
      # [status_events (te_status te), key_reader (te_terminal te),
         sigterm_task (te_sigterm_installed te) (te_sigterm_received te)])"
    using assms by (simp add: spawn_background_tasks_def)
qed (simp add: key_reader_no_output status_events_no_output sigterm_task_def)

section \<open>Leaving on SIGTERM\<close>

text \<open>The signal is the key \<open>q\<close>: it ends the interface, whatever came before, unless a filter is being
  typed. Then it is one more character of the filter and the interface stays.\<close>

theorem sigterm_leaves_unless_filtering:
  assumes "tui_run logs ts st = (st', False)" and "tn_drawn t"
    and "tn_event t \<in> set (sigterm_task True True)"
  shows "if ap_input_mode (tl_app st') = FilterInput
    then snd (tui_run logs (ts @ [t]) st) = False \<and>
      ap_filter_buf (tl_app (fst (tui_run logs (ts @ [t]) st))) = ap_filter_buf (tl_app st') @ ''q''
    else snd (tui_run logs (ts @ [t]) st)"
proof -
  let ?drawn = "on_app (\<lambda>ap. snd (draw_output (tn_view t) (tn_height t) ap)) st'"
  have ev: "tn_event t = EvKey quit_key" using assms(3) by (simp add: sigterm_task_def)
  have run: "tui_run logs (ts @ [t]) st = tui_run logs [] (handle_tui_key (tn_view t) quit_key ?drawn)"
    using waiting_runs [OF assms(1)] assms(1,2)
    by (simp add: tui_run_append handle_event_def ev Let_def del: tui_run.simps(1))
  have mode: "ap_input_mode (tl_app ?drawn) = ap_input_mode (tl_app st')"
    "ap_filter_buf (tl_app ?drawn) = ap_filter_buf (tl_app st')" "ap_running (tl_app ?drawn)"
    using waiting_runs [OF assms(1)] by (simp_all add: on_app_def draw_output_frame)
  show ?thesis
  proof (cases "ap_input_mode (tl_app st') = FilterInput")
    case True
    then show ?thesis
      unfolding run using mode
      by (simp add: handle_tui_key_def handle_filter_input_def input_filter_key_def quit_key_def on_app_def)
  next
    case False
    then show ?thesis
      unfolding run using mode
      by (simp add: handle_tui_key_def input_key_def quit_key_def on_app_def app_quit_def)
  qed
qed

end
