(* ===== verification/Tui_Layout.thy ===== *)
theory Tui_Layout
  imports Tui_Screen
begin

text \<open>
  The frame (\<open>draw\<close> of \<open>src/tui/ui.rs\<close>): which widget goes into which area, and what a click on the
  frame hits. The layout solver (\<open>split\<close>) and the parser of escape sequences are the terminal library's
  and arguments here; the laws of the solver the clicks rely on are stated where they are used.
\<close>

section \<open>Areas\<close>

record rect =
  rc_x :: nat
  rc_y :: nat
  rc_width :: nat
  rc_height :: nat

datatype direction = Vertical | Horizontal

datatype constraint = CMin nat | CLength nat

type_synonym solver = "direction \<Rightarrow> constraint list \<Rightarrow> rect \<Rightarrow> rect list"

section \<open>Widgets\<close>

text \<open>A line is what the parser of escape sequences makes of it, or plain text in a colour.\<close>

datatype 'l drawn_line = Parsed 'l | Plain string "color option"

type_synonym 'l ansi_parser = "string \<Rightarrow> string + 'l list"

definition ansi_line :: "'l ansi_parser \<Rightarrow> string \<Rightarrow> color option \<Rightarrow> 'l drawn_line" where
  "ansi_line into_text text fallback_style =
     (case into_text text of
        Inr lines \<Rightarrow> (case lines of line # _ \<Rightarrow> Parsed line | [] \<Rightarrow> Plain text None)
      | Inl _ \<Rightarrow> Plain text fallback_style)"

datatype 'l widget =
    ProcessList string "(string \<times> style) list"
  | OutputPane string "'l drawn_line list"
  | KeysBar string
  | CountsBar string

section \<open>Drawing\<close>

text \<open>The lines of the pane, with the height of the area inside the border.\<close>

definition pane_lines :: "'l ansi_parser \<Rightarrow> (line_source \<times> string) list \<Rightarrow> app \<Rightarrow> 'l drawn_line list" where
  "pane_lines into_text window ap =
     (let name = (case selected_name ap of Some n \<Rightarrow> n | None \<Rightarrow> ''(none)'')
      in if window = [] \<and> \<not> hm_contains (ap_buffers ap) name then [Plain ''No output yet'' (Some DarkGray)]
         else map (\<lambda>(src, l). ansi_line into_text l (if src = SrcStderr then Some Yellow else None)) window)"

definition draw_status_bar :: "solver \<Rightarrow> app \<Rightarrow> rect \<Rightarrow> (rect \<times> 'l widget) list" where
  "draw_status_bar split ap area =
     (let counts = status_counts ap;
          chunks = split Horizontal [CMin 20, CLength (length counts mod 2 ^ 16 + 2)] area
      in [(chunks ! 0, KeysBar (status_keys ap)), (chunks ! 1, CountsBar counts)])"

text \<open>The whole frame, and the application with the height of its pane and its refreshed readers.\<close>

definition draw :: "solver \<Rightarrow> 'l ansi_parser \<Rightarrow> view \<Rightarrow> rect \<Rightarrow> app \<Rightarrow> (rect \<times> 'l widget) list \<times> app" where
  "draw split into_text vw area ap =
     (let chunks = split Vertical [CMin 3, CLength 2] area;
          main_chunks = split Horizontal [CLength 22, CMin 30] (chunks ! 0);
          list = (main_chunks ! 0, ProcessList '' Processes '' (draw_process_list ap));
          title = output_title ap;
          (window, ap) = draw_output vw (rc_height (main_chunks ! 1)) ap;
          output = (main_chunks ! 1, OutputPane title (pane_lines into_text window ap))
      in ([list, output] @ draw_status_bar split ap (chunks ! 1), ap))"

section \<open>What a click hits\<close>

text \<open>A list with a border shows one item per row, from the top, without scrolling.\<close>

definition item_at :: "(rect \<times> 'l widget) list \<Rightarrow> nat \<Rightarrow> nat \<Rightarrow> nat option" where
  "item_at frame x y =
     (case frame of
        (r, ProcessList _ items) # _ \<Rightarrow>
          (if rc_x r \<le> x \<and> x < rc_x r + rc_width r \<and> rc_y r < y \<and> y + 1 < rc_y r + rc_height r \<and>
              y - rc_y r - 1 < length items
           then Some (y - rc_y r - 1) else None)
      | _ \<Rightarrow> None)"

text \<open>What the solver does with a minimum and a length that fit.\<close>

definition honours_lengths :: "solver \<Rightarrow> bool" where
  "honours_lengths split \<longleftrightarrow>
     (\<forall>r m n. m + n \<le> rc_height r \<longrightarrow>
        split Vertical [CMin m, CLength n] r =
          [r\<lparr>rc_height := rc_height r - n\<rparr>, r\<lparr>rc_y := rc_y r + (rc_height r - n), rc_height := n\<rparr>]) \<and>
     (\<forall>r m n. n + m \<le> rc_width r \<longrightarrow>
        split Horizontal [CLength n, CMin m] r =
          [r\<lparr>rc_width := n\<rparr>, r\<lparr>rc_x := rc_x r + n, rc_width := rc_width r - n\<rparr>])"

lemma process_list_area:
  assumes "honours_lengths split" and "5 \<le> rc_height area" and "52 \<le> rc_width area"
  shows "fst (draw split into_text vw area ap) ! 0
      = (area\<lparr>rc_width := 22, rc_height := rc_height area - 2\<rparr>, ProcessList '' Processes '' (draw_process_list ap))"
proof -
  have "split Vertical [CMin 3, CLength 2] area
      = [area\<lparr>rc_height := rc_height area - 2\<rparr>,
         area\<lparr>rc_y := rc_y area + (rc_height area - 2), rc_height := 2\<rparr>]"
    using assms by (simp add: honours_lengths_def)
  moreover have "split Horizontal [CLength 22, CMin 30] (area\<lparr>rc_height := rc_height area - 2\<rparr>)
      = [area\<lparr>rc_height := rc_height area - 2, rc_width := 22\<rparr>,
         area\<lparr>rc_height := rc_height area - 2, rc_x := rc_x area + 22, rc_width := rc_width area - 22\<rparr>]"
    using assms by (simp add: honours_lengths_def)
  ultimately show ?thesis by (simp add: draw_def Let_def split_beta)
qed

text \<open>A click with the left button on a row that shows a process selects that process. The converse
  fails on two kinds of rows: the border above the list selects the first process, and the rows below
  the list's area select processes that are not shown when there are more than fit.\<close>

theorem click_selects_shown:
  assumes "honours_lengths split" and "5 \<le> rc_height area" and "52 \<le> rc_width area"
    and "rc_x area = 0" and "rc_y area = 0"
    and "me_kind mouse = MouseDownLeft"
  shows "case item_at (fst (draw split into_text vw area ap)) (unat (me_column mouse)) (unat (me_row mouse)) of
      Some i \<Rightarrow> ap_selected (handle_mouse vw' mouse ap) = i
    | None \<Rightarrow> ap_selected (handle_mouse vw' mouse ap) = ap_selected ap \<or>
        me_column mouse < 22 \<and>
        (me_row mouse = 0 \<and> ap_selected (handle_mouse vw' mouse ap) = 0 \<or>
         rc_height area - 3 \<le> unat (me_row mouse) \<and>
           ap_selected (handle_mouse vw' mouse ap) = unat (me_row mouse) - 1)"
proof -
  obtain rest where frame: "fst (draw split into_text vw area ap)
      = (area\<lparr>rc_width := 22, rc_height := rc_height area - 2\<rparr>, ProcessList '' Processes '' (draw_process_list ap)) # rest"
    using process_list_area [OF assms(1-3), of into_text vw ap]
    by (cases "fst (draw split into_text vw area ap)") (auto simp: draw_def Let_def split_beta)
  have col: "me_column mouse < 22 \<longleftrightarrow> unat (me_column mouse) < 22"
    by (simp add: word_less_nat_alt)
  have len: "length (draw_process_list ap) = length (ap_processes ap)" by (simp add: draw_process_list_def)
  have row: "me_row mouse = 0 \<longleftrightarrow> unat (me_row mouse) = 0" by (simp add: unat_eq_0)
  show ?thesis
    unfolding frame item_at_def using assms(4-6)
    by (auto simp: handle_mouse_def Let_def col len row)
qed

end
