(* ===== verification/Daemon_Lifecycle.thy ===== *)
theory Daemon_Lifecycle
  imports Proxy_Server Server_Properties
begin

text \<open>
  The daemon's two accept loops (\<open>run\<close> of \<open>src/daemon/server.rs\<close>, \<open>start_proxy\<close> of
  \<open>src/daemon/proxy.rs\<close>) and the shutdown signal both wait for. What a loop sees next (a connection,
  an error, the signal) is an argument; of the signal (\<open>tokio::sync::Notify\<close>) it is used that
  \<open>notify_one\<close> leaves one permit, which lets one waiter go on.
\<close>

section \<open>The server's loop\<close>

datatype listen_event = ConnAccepted nat | AcceptError | ConnEnded nat | ShutdownNotified

text \<open>The connections, and whether the loop has ended.\<close>

fun server_loop :: "listen_event list \<Rightarrow> connections \<Rightarrow> connections \<times> bool" where
  "server_loop [] s = (s, False)"
| "server_loop (ConnAccepted conn # es) s = server_loop es (fst (accept_connection conn s))"
| "server_loop (AcceptError # es) s = server_loop es s"
| "server_loop (ConnEnded conn # es) s =
     server_loop es (if conn \<in># cn_tasks s then drop_guard conn s else s)"
| "server_loop (ShutdownNotified # es) s = (s, True)"

definition server_run :: "io_error + unit \<Rightarrow> listen_event list \<Rightarrow> io_error + connections \<times> bool" where
  "server_run bound events =
     (case bound of
        Inl e \<Rightarrow> Inl e
      | Inr _ \<Rightarrow> Inr (server_loop events \<lparr>cn_active = 0, cn_tasks = {#}\<rparr>))"

lemma server_loop_reaches: "server_loop es s = (s', ended) \<Longrightarrow> reaches connection_step t s \<Longrightarrow> reaches connection_step t s'"
proof (induction es s rule: server_loop.induct)
  case (2 conn es s)
  then show ?case by (auto intro: reaches.there connection_step.accepted)
next
  case (4 conn es s)
  then show ?case by (auto split: if_splits intro: reaches.there connection_step.closed)
qed simp_all

text \<open>Whatever arrives, the daemon serves at most 64 connections at a time, and counts them right.\<close>

lemma server_run_bounded:
  assumes "server_run bound events = Inr (s, ended)"
  shows "cn_active s = size (cn_tasks s) \<and> size (cn_tasks s) \<le> 64"
proof -
  define s0 :: connections where "s0 = \<lparr>cn_active = 0, cn_tasks = {#}\<rparr>"
  have "server_loop events s0 = (s, ended)"
    using assms by (simp add: server_run_def s0_def split: sum.splits)
  then have "reaches connection_step s0 s" by (rule server_loop_reaches) (rule reaches.here)
  then have "connections_inv s"
    by (rule connections.inv_reachable [rotated]) (simp add: connections_start_def s0_def)
  then show ?thesis by (simp add: connections_inv_def MAX_CONCURRENT_CONNECTIONS_def)
qed

section \<open>The proxy's loop\<close>

text \<open>A connection is a sequence of requests, each with the daemon's status and the routes published
  when it is handled.\<close>

datatype 'b proxy_event =
    ProxyAccepted "(response \<times> (string, u16) hashmap \<times> 'b http_request) list"
  | ProxyAcceptError
  | ProxyShutdown

definition serve_proxy_connection ::
  "(string \<Rightarrow> string option) \<Rightarrow> ('b http_request \<Rightarrow> string + 'b http_response) \<Rightarrow> u16
     \<Rightarrow> (response \<times> (string, u16) hashmap \<times> 'b http_request) list \<Rightarrow> 'b proxy_reply list" where
  "serve_proxy_connection path_and_query client proxy_port requests =
     map (\<lambda>(snapshot, routes, req). handle_proxy_request path_and_query client snapshot routes proxy_port req)
       requests"

text \<open>The replies on each connection, in the order they were accepted.\<close>

fun proxy_loop ::
  "(string \<Rightarrow> string option) \<Rightarrow> ('b http_request \<Rightarrow> string + 'b http_response) \<Rightarrow> u16
     \<Rightarrow> 'b proxy_event list \<Rightarrow> 'b proxy_reply list list \<times> bool" where
  "proxy_loop pq client proxy_port [] = ([], False)"
| "proxy_loop pq client proxy_port (ProxyAccepted requests # es) =
     (let (replies, ended) = proxy_loop pq client proxy_port es
      in (serve_proxy_connection pq client proxy_port requests # replies, ended))"
| "proxy_loop pq client proxy_port (ProxyAcceptError # es) = proxy_loop pq client proxy_port es"
| "proxy_loop pq client proxy_port (ProxyShutdown # es) = ([], True)"

definition start_proxy ::
  "io_error + unit \<Rightarrow> io_error + unit \<Rightarrow> (string \<Rightarrow> string option)
     \<Rightarrow> ('b http_request \<Rightarrow> string + 'b http_response) \<Rightarrow> u16
     \<Rightarrow> 'b proxy_event list \<Rightarrow> io_error + 'b proxy_reply list list \<times> bool" where
  "start_proxy nonblocking listener pq client proxy_port events =
     (case nonblocking of
        Inl e \<Rightarrow> Inl e
      | Inr _ \<Rightarrow>
          (case listener of
             Inl e \<Rightarrow> Inl e
           | Inr _ \<Rightarrow> Inr (proxy_loop pq client proxy_port events)))"

lemma proxy_loop_replies:
  "fst (proxy_loop pq client proxy_port events) =
     map (serve_proxy_connection pq client proxy_port)
       (List.map_filter (\<lambda>e. case e of ProxyAccepted rs \<Rightarrow> Some rs | _ \<Rightarrow> None)
         (takeWhile (\<lambda>e. e \<noteq> ProxyShutdown) events))"
  by (induction pq client proxy_port events rule: proxy_loop.induct)
    (auto simp: List.map_filter_simps split: prod.split)

section \<open>Shutting down\<close>

text \<open>Whether the server's loop runs, whether the proxy's does (\<open>None\<close> before it is enabled), the
  permit of the signal, and the shutdown requests answered so far.\<close>

record lifecycle =
  lc_server :: bool
  lc_proxy :: "bool option"
  lc_permit :: bool
  lc_requests :: nat

inductive lifecycle_step :: "lifecycle \<Rightarrow> lifecycle \<Rightarrow> bool" where
  proxy_enabled: "\<lbrakk>lc_server s; lc_proxy s = None\<rbrakk> \<Longrightarrow> lifecycle_step s (s\<lparr>lc_proxy := Some True\<rparr>)"
| requested: "lc_server s \<Longrightarrow> lifecycle_step s (s\<lparr>lc_permit := True, lc_requests := lc_requests s + 1\<rparr>)"
| server_notified: "\<lbrakk>lc_server s; lc_permit s\<rbrakk> \<Longrightarrow> lifecycle_step s (s\<lparr>lc_server := False, lc_permit := False\<rparr>)"
| proxy_notified: "\<lbrakk>lc_proxy s = Some True; lc_permit s\<rbrakk> \<Longrightarrow>
    lifecycle_step s (s\<lparr>lc_proxy := Some False, lc_permit := False\<rparr>)"

inductive_simps lifecycle_step_iff: "lifecycle_step s t"

definition lifecycle_new :: lifecycle where
  "lifecycle_new = \<lparr>lc_server = True, lc_proxy = None, lc_permit = False, lc_requests = 0\<rparr>"

definition ended_loops :: "lifecycle \<Rightarrow> nat" where
  "ended_loops s = of_bool (\<not> lc_server s) + of_bool (lc_proxy s = Some False)"

interpretation lifecycle: invariant_system "\<lambda>s. s = lifecycle_new" lifecycle_step
    "\<lambda>s. ended_loops s + of_bool (lc_permit s) \<le> lc_requests s"
  by unfold_locales (auto simp: lifecycle_step_iff lifecycle_new_def ended_loops_def)

text \<open>A shutdown request ends one loop. Without a proxy that is the server's, with one it may be the
  proxy's: then the client was told that the daemon is shutting down, and it runs on.\<close>

theorem shutdown_ends_one_loop:
  assumes "reaches lifecycle_step lifecycle_new s"
  shows "ended_loops s \<le> lc_requests s"
    and "lc_proxy s \<noteq> None \<and> lc_requests s = 1 \<longrightarrow> lc_server s \<or> lc_proxy s = Some True"
proof -
  show "ended_loops s \<le> lc_requests s"
    using lifecycle.inv_reachable [OF refl assms] by simp
  then show "lc_proxy s \<noteq> None \<and> lc_requests s = 1 \<longrightarrow> lc_server s \<or> lc_proxy s = Some True"
    by (auto simp: ended_loops_def of_bool_def split: if_splits)
qed

theorem shutdown_may_miss_the_server:
  "\<exists>s. reaches lifecycle_step lifecycle_new s \<and> lc_requests s = 1 \<and> lc_server s \<and>
     (\<forall>t. lifecycle_step s t \<longrightarrow> lc_server t)"
proof (intro exI conjI allI impI)
  let ?s = "\<lparr>lc_server = True, lc_proxy = Some False, lc_permit = False, lc_requests = 1\<rparr>"
  have "lifecycle_step lifecycle_new \<lparr>lc_server = True, lc_proxy = Some True, lc_permit = False, lc_requests = 0\<rparr>"
    "lifecycle_step \<lparr>lc_server = True, lc_proxy = Some True, lc_permit = False, lc_requests = 0\<rparr>
       \<lparr>lc_server = True, lc_proxy = Some True, lc_permit = True, lc_requests = 1\<rparr>"
    "lifecycle_step \<lparr>lc_server = True, lc_proxy = Some True, lc_permit = True, lc_requests = 1\<rparr> ?s"
    by (simp_all add: lifecycle_step_iff lifecycle_new_def)
  then show "reaches lifecycle_step lifecycle_new ?s" by (blast intro: reaches.intros)
  show "lc_server t" if "lifecycle_step ?s t" for t using that by (auto simp: lifecycle_step_iff)
qed simp_all

end
