(* ===== verification/Observations.thy ===== *)
theory Observations
  imports Tui_Event_Loop End_To_End Server_Properties Client_Commands
begin

text \<open>
  Behaviour of the code that its authors may not intend, each stated and proved of the model: what the
  properties have to except. (\<open>Daemon_Lifecycle\<close>, \<open>Tui_Tasks\<close>, \<open>Tui_Layout\<close> and \<open>Tui_Screen\<close> hold those
  of the shutdown signal, of SIGTERM, of clicks and of mouse capture.)
\<close>

section \<open>Requests\<close>

text \<open>A follow that asks for no line gets one (\<open>follow_loop\<close> compares after sending).\<close>

lemma follow_of_no_lines_sends_one:
  "handle_follow_stream None True False (Some 0) (FollowLine (process, Stdout, line) True # es)
     = [RespLogLine process Stdout line, RespLogEnd]"
  by (simp add: handle_follow_stream_def follow_skips_def log_line_response_def)

text \<open>A process's ID as the target of a follow selects nothing: lines carry names.\<close>

lemma follow_by_id_is_silent:
  assumes "\<forall>l \<in> set ls. fst l \<noteq> target"
  shows "handle_follow_stream (Some target) False stderr_only max_lines (map (\<lambda>l. FollowLine l True) ls @ [FollowClosed])
     = [RespLogEnd]"
proof -
  have "follow_loop (Some target) False stderr_only max_lines n (map (\<lambda>l. FollowLine l True) ls @ [FollowClosed])
      = ([], True)" for n
    using assms by (induction ls) (auto simp: follow_skips_def)
  then show ?thesis by (simp add: handle_follow_stream_def)
qed

text \<open>The pattern of a wait that does not compile is searched for as text in what the log holds.\<close>

lemma invalid_regex_is_searched_as_text:
  assumes "handle_has_process (sv_ask ev) target" and "sv_regex ev pat = Inl e"
    and "fs_open (path_join (log_dir (sv_paths ev) (handle_session_name (sv_ask ev))) (target @ ''.stdout'')) (sv_fs ev)
      = Inr content"
    and "find (str_contains pat) (file_lines content) = Some line"
  shows "handle_wait ev target (Some pat) True exit = Some (RespWaitMatch line)"
proof -
  have "line_matches None pat = str_contains pat" by (rule ext) (simp add: line_matches_def)
  with assms show ?thesis by (simp add: handle_wait_def history_match_def)
qed

text \<open>Enabling the proxy again on the port it listens on is refused: the port is bound first.\<close>

lemma own_proxy_port_is_refused:
  assumes "handle_enable_proxy_port (sv_ask ev) port = Some port" and "\<not> sv_bind ev port"
  shows "handle_enable_proxy_request ev (Some port)
      = (RespError General (proxy_error_display (PortUnavailable port (sv_bind_error ev port))), None)"
  using assms by (simp add: handle_enable_proxy_request_def bind_proxy_port_def)

section \<open>Names\<close>

text \<open>\<open>trim_end_matches\<close> strips the suffix more than once.\<close>

lemma suffix_is_stripped_repeatedly:
  "trim_end_matches ''.pid'' ''x.pid.pid'' = ''x''"
  "trim_end_matches ''.stdout'' ''a.stdout.stdout'' = ''a''"
  by (simp_all add: trim_end_matches.simps str_ends_with_def suffix_def)

text \<open>Cleaning a stale session \<open>x.pid\<close> removes the socket of the session \<open>x\<close>, which may be alive.\<close>

lemma clean_removes_another_socket:
  assumes "\<not> entry_alive kill vars fs ''x.pid.pid''"
  shows "snd (snd (session_clean kill vars (Inr ()) [''x.pid.pid''] fs)) (fst (socket_path vars ''x'')) = None"
proof -
  have "pid_entries [''x.pid.pid''] = [(''x'', ''x.pid.pid'')]"
    unfolding pid_entries_def list.map filter.simps suffix_is_stripped_repeatedly(1) by code_simp
  with assms show ?thesis
    by (simp add: session_clean_def runtime_dir_usable_def clean_entry_def fs_remove_def fs_remove_dir_all_def)
qed

text \<open>A PID file that holds 0 counts as alive when the client can signal its own group.\<close>

lemma pid_zero_is_alive: "is_daemon_alive kill (Inr (bytes_of ''0'')) = kill 0"
  by code_simp

section \<open>Logs\<close>

text \<open>When the log cannot be created again, the line is dropped and the size kept, so the next line
  rotates again.\<close>

lemma failed_rotation_repeats:
  assumes "create (lw_log_path st) = Some e"
    and "0 < lw_max_bytes st" "lw_max_bytes st < lw_bytes_written st + (length line + 1)"
    and "write_line create line st wd = (st', wd')"
  shows "wd_sent wd' = wd_sent wd \<and> lw_bytes_written st' = lw_bytes_written st \<and>
    lw_max_bytes st' = lw_max_bytes st \<and> lw_log_path st' = lw_log_path st \<and>
    wd_fs wd' = rotate_log_files (lw_log_path st) (lw_max_rotated_files st) (wd_fs (snd (flush_index st wd)))"
  using assms
  by (auto simp: write_line_def rotate_for_line_def flush_index_def put_index_def Let_def split: if_splits)

section \<open>The interface\<close>

text \<open>The top of a log shows nothing: the offset is the number of lines, not that less the height.\<close>

lemma top_of_the_log_is_empty:
  assumes "reads vw ap name L" and "ap_filter ap = None" and "selected_name ap = Some name" and "buffers_ok ap"
  shows "fst (visible_lines vw name h (scroll_to_top vw ap)) = Some []"
proof -
  define disk where "disk = mode_lines L (ap_stream_mode ap)"
  define hot where "hot = hot_lines name ap"
  define ap1 where "ap1 = ap\<lparr>ap_paused := True\<rparr>"
  define ap2 where "ap2 = snd (disk_line_count vw name ap1)"
  have ap1: "reads vw ap1 name L" "buffers_ok ap1" "ap_filter ap1 = None" "selected_name ap1 = Some name"
      "ap_stream_mode ap1 = ap_stream_mode ap" "hot_lines name ap1 = hot"
    using assms(1-4) by (simp_all add: ap1_def reads_def buffers_ok_def selected_name_def hot_def hot_lines_def
        cong: option.case_cong split: if_splits)
  have ap2: "reads vw ap2 name L" "fst (disk_line_count vw name ap1) = length disk" "buffers_ok ap2"
      "ap_filter ap2 = None" "ap_stream_mode ap2 = ap_stream_mode ap" "hot_lines name ap2 = hot" "ap_paused ap2"
    using with_reader_reads [OF ap1(1) answers_count, of 0] ap1
    by (simp_all add: ap2_def disk_line_count_def disk_def buffers_ok_def) (simp add: ap1_def)
  define ap3 where "ap3 = set_offset name (max (length disk) (length hot)) ap2"
  have "(if \<not> ap_paused ap then ap\<lparr>ap_paused := True\<rparr> else ap) = ap1"
    unfolding ap1_def by (cases "ap_paused ap") simp_all
  moreover have "line_count_for vw name ap1 = (max (length disk) (length hot), ap2)"
    using ap1(3) hot_line_count_length [OF ap1(2), of name] ap1(6) ap2(2)
    by (simp add: line_count_for_def total_line_count_def case_prod_unfold Let_def ap2_def)
  ultimately have "scroll_to_top vw ap = ap3"
    using ap1(4) unfolding scroll_to_top_def Let_def by (simp add: ap3_def)
  moreover have "reads vw ap3 name L" "buffers_ok ap3" "ap_filter ap3 = None" "ap_stream_mode ap3 = ap_stream_mode ap"
      "hot_lines name ap3 = hot" "shown_offset name ap3 = max (length disk) (length hot)"
    using ap2 by (simp_all add: ap3_def set_offset_def reads_def buffers_ok_def hot_lines_def shown_offset_def
        offset_of_def cong: option.case_cong)
  ultimately show ?thesis
    using visible_window [of vw ap3 name L h]
    by (simp add: disk_def [symmetric] hot_def [symmetric] tail_window_def last_n_def)
qed

text \<open>A process that appears while a filter is set gets a reader and no index, and shows nothing.\<close>

lemma late_process_shows_nothing:
  assumes "ap_filter ap = Some pat" and "hm_get (ap_filtered_indices ap) (pi_name p) = None"
  shows "fst (visible_lines vw (pi_name p) h (add_reader logs p ap)) = Some []"
  using assms
  by (simp add: visible_lines_def filtered_visible_lines_def matching_count_def add_reader_def Let_def)

text \<open>An output stream whose request cannot be sent ends without the event that reconnects.\<close>

lemma unsent_stream_request_is_silent:
  assumes "connect ev session False = Inr x" and "send_request ev (ReqLogs None 0 True False True None None) = Inl e"
  shows "output_stream_reader ev session incoming = []"
  using assms by (simp add: output_stream_reader_def)

end
