(* ===== verification/Unit_Tests.thy ===== *)
theory Unit_Tests
  imports Config Proxy_Server
begin

text \<open>
  The program's own unit tests, translated with the model's operations in place of the code's: each is
  a definition of its assertions, and a lemma that they hold. They tie the definitions to the behaviour
  the authors expect, independently of the properties. Where a test uses the machine it runs on (its
  user, its environment) the translation is for every such machine. This theory holds the tests of
  \<open>src/config.rs\<close>, \<open>src/session.rs\<close>, \<open>src/paths.rs\<close>, \<open>src/daemon/log_index.rs\<close> and \<open>src/daemon/proxy.rs\<close>.
\<close>

section \<open>\<open>src/config.rs\<close>\<close>

definition proc_def :: "string \<Rightarrow> string list \<Rightarrow> process_def" where
  "proc_def cmd depends_on =
     \<lparr>pd_cmd = cmd, pd_cwd = None, pd_env = [], pd_ready = None, pd_depends_on = depends_on,
      pd_port = None, pd_autorestart = None, pd_max_restarts = None, pd_restart_delay = None,
      pd_watch = None, pd_watch_ignore = None\<rparr>"

definition config_with :: "(string \<times> string list) list \<Rightarrow> project_config" where
  "config_with procs =
     \<lparr>pc_session = None, pc_processes = map (\<lambda>(name, deps). (name, proc_def ''true'' deps)) procs,
      pc_proxy = None, pc_proxy_port = None\<rparr>"

definition test_startup_order_no_deps :: bool where
  "test_startup_order_no_deps \<longleftrightarrow>
     (case startup_order (config_with [(''a'', []), (''b'', []), (''c'', [])]) of
        Inl _ \<Rightarrow> False
      | Inr groups \<Rightarrow> length groups = 1 \<and> sort (groups ! 0) = [''a'', ''b'', ''c''])"

definition test_startup_order_linear_chain :: bool where
  "test_startup_order_linear_chain \<longleftrightarrow>
     (case startup_order (config_with [(''a'', []), (''b'', [''a'']), (''c'', [''b''])]) of
        Inl _ \<Rightarrow> False
      | Inr groups \<Rightarrow>
          length groups = 3 \<and> groups ! 0 = [''a''] \<and> groups ! 1 = [''b''] \<and> groups ! 2 = [''c''])"

definition test_startup_order_diamond :: bool where
  "test_startup_order_diamond \<longleftrightarrow>
     (case startup_order (config_with [(''a'', []), (''b'', [''a'']), (''c'', [''a'']), (''d'', [''b'', ''c''])]) of
        Inl _ \<Rightarrow> False
      | Inr groups \<Rightarrow>
          length groups = 3 \<and> groups ! 0 = [''a''] \<and> sort (groups ! 1) = [''b'', ''c''] \<and> groups ! 2 = [''d''])"

definition test_startup_order_cycle_detected :: bool where
  "test_startup_order_cycle_detected \<longleftrightarrow>
     (case startup_order (config_with [(''a'', [''b'']), (''b'', [''a''])]) of
        Inl CycleDetected \<Rightarrow> True | _ \<Rightarrow> False)"

definition test_startup_order_unknown_dep :: bool where
  "test_startup_order_unknown_dep \<longleftrightarrow>
     (case startup_order (config_with [(''a'', [''nonexistent''])]) of
        Inl (UnknownDep _ _) \<Rightarrow> True | _ \<Rightarrow> False)"

definition test_startup_order_empty :: bool where
  "test_startup_order_empty \<longleftrightarrow>
     (case startup_order (config_with []) of Inr groups \<Rightarrow> groups = [] | Inl _ \<Rightarrow> False)"

text \<open>The temporary directory is empty, or holds the file the test writes; of the directories above it
  nothing is found.\<close>

definition test_discover_config_finds_file :: bool where
  "test_discover_config_finds_file \<longleftrightarrow>
     (let config_path = path_join ''/tmp/t'' ''agent-procs.yaml'';
          fs = [config_path \<mapsto> bytes_of ''processes: {}'']
      in discover_config fs ''/tmp/t'' = Some config_path)"

definition test_discover_config_not_found :: bool where
  "test_discover_config_not_found \<longleftrightarrow> discover_config Map.empty ''/tmp/t'' = None"

definition test_load_config_parse_error :: "(string \<Rightarrow> string + project_config) \<Rightarrow> bool" where
  "test_load_config_parse_error parse \<longleftrightarrow>
     (let config_path = path_join ''/tmp/t'' ''bad.yaml'';
          fs = [config_path \<mapsto> bytes_of ''{{{{not valid yaml at all'']
      in (case load_config fs (Inr ''/'') parse (Some config_path) of Inl (Parse _) \<Rightarrow> True | _ \<Rightarrow> False))"

definition test_resolve_session_priority :: bool where
  "test_resolve_session_priority \<longleftrightarrow>
     resolve_session (Some ''cli'') (Some ''config'') = ''cli'' \<and>
     resolve_session None (Some ''config'') = ''config'' \<and>
     resolve_session None None = DEFAULT_SESSION"

lemma startup_order_tests:
  test_startup_order_no_deps test_startup_order_linear_chain test_startup_order_diamond
  test_startup_order_cycle_detected test_startup_order_unknown_dep test_startup_order_empty
  by code_simp+

lemma discover_config_tests: test_discover_config_finds_file test_discover_config_not_found
  by code_simp+

lemma load_config_tests:
  "(\<exists>e. parse ''{{{{not valid yaml at all'' = Inl e) \<Longrightarrow> test_load_config_parse_error parse"
  by (auto simp: test_load_config_parse_error_def load_config_def fs_open_def)

lemma resolve_session_tests: test_resolve_session_priority
  by code_simp

section \<open>\<open>src/session.rs\<close>\<close>

definition test_id_counter_sequential :: bool where
  "test_id_counter_sequential \<longleftrightarrow>
     (let (a, counter) = next_id id_counter_new;
          (b, counter) = next_id counter;
          (c, counter) = next_id counter
      in a = ''p1'' \<and> b = ''p2'' \<and> c = ''p3'')"

definition test_id_counter_default :: bool where
  "test_id_counter_default \<longleftrightarrow> fst (next_id id_counter_new) = ''p1''"

lemma id_counter_tests: test_id_counter_sequential test_id_counter_default
  by code_simp+

section \<open>\<open>src/daemon/proxy.rs\<close>\<close>

definition test_extract_subdomain_simple :: bool where
  "test_extract_subdomain_simple \<longleftrightarrow> extract_subdomain ''api.localhost:9090'' = Some ''api''"

definition test_extract_subdomain_nested :: bool where
  "test_extract_subdomain_nested \<longleftrightarrow> extract_subdomain ''tenant.api.localhost:9090'' = Some ''api''"

definition test_extract_subdomain_bare_localhost :: bool where
  "test_extract_subdomain_bare_localhost \<longleftrightarrow> extract_subdomain ''localhost:9090'' = None"

definition test_extract_subdomain_no_port :: bool where
  "test_extract_subdomain_no_port \<longleftrightarrow> extract_subdomain ''api.localhost'' = Some ''api''"

lemma extract_subdomain_tests:
  test_extract_subdomain_simple test_extract_subdomain_nested test_extract_subdomain_bare_localhost
  test_extract_subdomain_no_port
  by code_simp+

section \<open>\<open>src/paths.rs\<close>\<close>

text \<open>A directory of the given owner and mode, on a file system where \<open>fchmod\<close> works.\<close>

definition dir_of :: "u32 \<Rightarrow> u32 \<Rightarrow> dir_handle" where
  "dir_of uid mode =
     \<lparr>dh_open = None, dh_metadata_err = None, dh_uid = uid, dh_mode = mode, dh_chmod = (\<lambda>m. Inr m)\<rparr>"

definition not_opened :: "errno \<Rightarrow> dir_handle" where
  "not_opened e =
     \<lparr>dh_open = Some e, dh_metadata_err = None, dh_uid = 0, dh_mode = 0x1ED, dh_chmod = (\<lambda>m. Inr m)\<rparr>"

definition refused_with :: "string \<Rightarrow> (io_error + unit) \<times> u32 \<Rightarrow> bool" where
  "refused_with text res \<longleftrightarrow> (case fst res of Inl e \<Rightarrow> str_contains text (io_text e) | Inr _ \<Rightarrow> False)"

definition check_private_dir_accepts_own_0700_dir :: "u32 \<Rightarrow> bool" where
  "check_private_dir_accepts_own_0700_dir euid \<longleftrightarrow>
     fst (check_private_dir ''/tmp/t/rt'' euid (dir_of euid 0x1C0)) = Inr ()"

definition check_private_dir_tightens_own_loose_dir :: "u32 \<Rightarrow> bool" where
  "check_private_dir_tightens_own_loose_dir euid \<longleftrightarrow>
     (case check_private_dir ''/tmp/t/rt'' euid (dir_of euid 0x1ED) of
        (res, mode) \<Rightarrow> res = Inr () \<and> and mode 0x1FF = 0x1C0)"

definition check_private_dir_refuses_other_owner :: "u32 \<Rightarrow> bool" where
  "check_private_dir_refuses_other_owner euid \<longleftrightarrow>
     (case check_private_dir ''/tmp/t/rt'' (euid + 1) (dir_of euid 0x1C0) of
        (res, mode) \<Rightarrow>
          (case res of
             Inl e \<Rightarrow> io_kind e = KPermissionDenied \<and> str_contains ''owned by uid'' (io_text e)
           | Inr _ \<Rightarrow> False) \<and> and mode 0x1FF = 0x1C0)"

definition check_private_dir_refuses_symlink_and_leaves_target_alone :: "u32 \<Rightarrow> bool" where
  "check_private_dir_refuses_symlink_and_leaves_target_alone euid \<longleftrightarrow>
     (let res = check_private_dir ''/tmp/t/link'' euid (not_opened ELOOP)
      in refused_with ''not a real directory'' res \<and> and (snd res) 0x1FF = 0x1ED)"

definition check_private_dir_refuses_unreadable_dir_with_clear_message :: "u32 \<Rightarrow> bool" where
  "check_private_dir_refuses_unreadable_dir_with_clear_message euid \<longleftrightarrow>
     refused_with ''refusing to use runtime directory'' (check_private_dir ''/tmp/t/rt'' euid (not_opened EACCES))"

definition check_private_dir_refuses_regular_file :: "u32 \<Rightarrow> bool" where
  "check_private_dir_refuses_regular_file euid \<longleftrightarrow>
     refused_with ''not a real directory'' (check_private_dir ''/tmp/t/f'' euid (not_opened ENOTDIR))"

definition check_private_dir_missing_is_not_found :: "u32 \<Rightarrow> string \<Rightarrow> bool" where
  "check_private_dir_missing_is_not_found euid enoent \<longleftrightarrow>
     (case fst (check_private_dir ''/tmp/t/nope'' euid (not_opened (OtherErrno (io_err KNotFound enoent)))) of
        Inl e \<Rightarrow> io_kind e = KNotFound | Inr _ \<Rightarrow> False)"

definition test_socket_base_dir_contains_uid :: "env_vars \<Rightarrow> bool" where
  "test_socket_base_dir_contains_uid ev \<longleftrightarrow> str_contains (dec_word (ev_euid ev)) (socket_base_dir ev)"

definition test_socket_path_format :: "env_vars \<Rightarrow> bool" where
  "test_socket_path_format ev \<longleftrightarrow>
     (let path = fst (socket_path ev ''mysession'')
      in str_ends_with ''.sock'' path \<and> str_contains ''mysession'' path)"

definition test_pid_path_format :: "env_vars \<Rightarrow> bool" where
  "test_pid_path_format ev \<longleftrightarrow>
     (let path = pid_path ev ''mysession''
      in str_ends_with ''.pid'' path \<and> str_contains ''mysession'' path)"

definition test_log_dir_under_state_dir :: "env_vars \<Rightarrow> bool" where
  "test_log_dir_under_state_dir ev \<longleftrightarrow>
     str_starts_with (state_dir ev ''test-session'' @ ''/'') (log_dir ev ''test-session'')"

lemmas path_tests = check_private_dir_def dir_of_def not_opened_def refused_with_def refuse_def loose_def

lemma str_contains_append [simp]:
  "str_contains p s \<Longrightarrow> str_contains p (a @ s)" "str_contains p s \<Longrightarrow> str_contains p (s @ b)"
  by (auto simp: str_contains_iff sublist_def) (metis append.assoc)+

lemma str_contains_self [simp]: "str_contains s s"
  by (simp add: str_contains_iff)

lemma check_private_dir_tests:
  "check_private_dir_accepts_own_0700_dir euid"
  "check_private_dir_tightens_own_loose_dir euid"
  "check_private_dir_refuses_other_owner euid"
  "check_private_dir_refuses_symlink_and_leaves_target_alone euid"
  "check_private_dir_refuses_unreadable_dir_with_clear_message euid"
  "check_private_dir_refuses_regular_file euid"
  "check_private_dir_missing_is_not_found euid enoent"
proof -
  show "check_private_dir_accepts_own_0700_dir euid"
    by (simp add: check_private_dir_accepts_own_0700_dir_def path_tests)
  show "check_private_dir_tightens_own_loose_dir euid"
    by (simp add: check_private_dir_tightens_own_loose_dir_def path_tests)
  show "check_private_dir_refuses_other_owner euid"
    by (simp add: check_private_dir_refuses_other_owner_def path_tests)
  show "check_private_dir_refuses_symlink_and_leaves_target_alone euid"
    by (simp add: check_private_dir_refuses_symlink_and_leaves_target_alone_def path_tests)
  show "check_private_dir_refuses_unreadable_dir_with_clear_message euid"
    by (simp add: check_private_dir_refuses_unreadable_dir_with_clear_message_def path_tests)
  show "check_private_dir_refuses_regular_file euid"
    by (simp add: check_private_dir_refuses_regular_file_def path_tests)
  show "check_private_dir_missing_is_not_found euid enoent"
    by (simp add: check_private_dir_missing_is_not_found_def path_tests)
qed

lemma path_join_ends:
  assumes "b \<noteq> []" and "hd b \<noteq> CHR ''/''"
  obtains p where "path_join a b = p @ b"
proof (cases "a = []")
  case True
  with assms that [of "[]"] show thesis by (cases b) (simp_all add: path_join_def str_starts_with_def)
next
  case False
  with assms that [of "if last a = CHR ''/'' then a else a @ ''/''"] show thesis
    by (cases b) (auto simp: path_join_def str_starts_with_def split: if_splits)
qed

lemma path_format_tests:
  "ev_test_runtime_dir ev = None \<Longrightarrow> test_socket_base_dir_contains_uid ev"
  "test_socket_path_format ev" "test_pid_path_format ev" "test_log_dir_under_state_dir ev"
proof -
  show "test_socket_base_dir_contains_uid ev" if "ev_test_runtime_dir ev = None"
    using that by (simp add: test_socket_base_dir_contains_uid_def socket_base_dir_def)
  obtain p where "fst (socket_path ev ''mysession'') = p @ ''mysession.sock''"
    using path_join_ends [of "''mysession.sock''" "socket_base_dir ev"]
    by (auto simp: socket_path_def Let_def)
  then show "test_socket_path_format ev"
    by (simp add: test_socket_path_format_def str_ends_with_def suffix_def)
  obtain q where "pid_path ev ''mysession'' = q @ ''mysession.pid''"
    using path_join_ends [of "''mysession.pid''" "socket_base_dir ev"] by (auto simp: pid_path_def)
  then show "test_pid_path_format ev"
    by (simp add: test_pid_path_format_def str_ends_with_def suffix_def)
  obtain d where "state_dir ev ''test-session'' = d @ ''test-session''"
    using path_join_ends [of "''test-session''"] by (auto simp: state_dir_def Let_def)
  then show "test_log_dir_under_state_dir ev"
    by (simp add: test_log_dir_under_state_dir_def log_dir_def path_join_def str_starts_with_def)
qed

section \<open>\<open>src/daemon/log_index.rs\<close>\<close>

definition ix :: "u64 \<Rightarrow> u64 \<Rightarrow> index_record" where
  "ix byte_offset seq = \<lparr>ix_byte_offset = byte_offset, ix_seq = seq\<rparr>"

text \<open>The records, written to a new file, flushed and opened.\<close>

definition reopened :: "u64 \<Rightarrow> index_record list \<Rightarrow> io_error + index_reader option" where
  "reopened seq_base rs = index_open (Inr (bw_disk (index_flush (fold index_append rs (index_create seq_base)))))"

definition test_write_read_roundtrip :: bool where
  "test_write_read_roundtrip \<longleftrightarrow>
     (case reopened 100 [ix 0 100, ix 42 101, ix 100 102] of
        Inr (Some reader) \<Rightarrow>
          ir_line_count reader = 3 \<and> ir_seq_base reader = 100 \<and>
          index_read_record reader 0 = Inr (ix 0 100) \<and>
          index_read_record reader 1 = Inr (ix 42 101) \<and>
          index_read_record reader 2 = Inr (ix 100 102)
      | _ \<Rightarrow> False)"

definition test_read_range :: bool where
  "test_read_range \<longleftrightarrow>
     (case reopened 0 (map (\<lambda>i. ix (of_nat i * 50) (of_nat i)) [0..<10]) of
        Inr (Some reader) \<Rightarrow>
          ir_line_count reader = 10 \<and>
          (case index_read_range reader 3 4 of
             Inr recs \<Rightarrow> length recs = 4 \<and> ix_seq (recs ! 0) = 3 \<and> ix_seq (recs ! 3) = 6
           | Inl _ \<Rightarrow> False)
      | _ \<Rightarrow> False)"

definition test_idx_path_for :: bool where
  "test_idx_path_for \<longleftrightarrow>
     idx_path_for ''/tmp/logs/web.stdout'' = ''/tmp/logs/web.stdout.idx'' \<and>
     idx_path_for ''/tmp/logs/web.stdout.1'' = ''/tmp/logs/web.stdout.1.idx''"

definition test_empty_file_rejected :: bool where
  "test_empty_file_rejected \<longleftrightarrow> index_open (Inr (bytes_of ''tiny'')) = Inr None"

definition test_wrong_magic_rejected :: bool where
  "test_wrong_magic_rejected \<longleftrightarrow> index_open (Inr (bytes_of ''XXXX'' @ replicate 12 0)) = Inr None"

definition test_line_count_from_metadata :: bool where
  "test_line_count_from_metadata \<longleftrightarrow>
     line_count_from_metadata (Inr (bw_disk (index_flush (fold index_append [ix 0 0, ix 10 1] (index_create 0)))))
       = Inr 2"

lemma reopened_eq:
  "reopened b rs = Inr (Some \<lparr>ir_file = index_bytes b rs, ir_line_count = length rs, ir_seq_base = b\<rparr>)"
  by (simp add: reopened_def index_written index_open_bytes)

lemma log_index_tests:
  test_write_read_roundtrip test_read_range test_idx_path_for test_empty_file_rejected
  test_wrong_magic_rejected test_line_count_from_metadata
proof -
  show test_write_read_roundtrip
    by (simp add: test_write_read_roundtrip_def reopened_eq index_read_record_bytes
        [of _ 100 "[ix 0 100, ix 42 101, ix 100 102]"])
  show test_read_range
    by (simp add: test_read_range_def reopened_eq index_read_range_bytes [OF index_reader.select_convs(1)] upt_rec ix_def)
  show test_line_count_from_metadata
    unfolding test_line_count_from_metadata_def index_written line_count_bytes by simp
qed code_simp+

end
