(* ===== verification/Unit_Tests_Manager.thy ===== *)
theory Unit_Tests_Manager
  imports Daemon_Properties Teardown
begin

text \<open>
  The unit tests of \<open>src/daemon/process_manager.rs\<close>: host labels, the life of a process from spawn
  to teardown and respawn, and which processes a periodic check restarts. The processes the tests
  start are children of an operating system on which every spawn works and the child has exited with
  a given code; the wait for it is one refresh.
\<close>

section \<open>Host labels\<close>

definition test_valid_dns_labels :: bool where
  "test_valid_dns_labels \<longleftrightarrow>
     is_valid_dns_label ''api'' \<and> is_valid_dns_label ''my-app'' \<and> is_valid_dns_label ''a'' \<and>
     is_valid_dns_label ''a1'' \<and> is_valid_dns_label ''123''"

definition test_invalid_dns_labels :: bool where
  "test_invalid_dns_labels \<longleftrightarrow>
     \<not> is_valid_dns_label [] \<and> \<not> is_valid_dns_label ''-start'' \<and> \<not> is_valid_dns_label ''end-'' \<and>
     \<not> is_valid_dns_label ''UPPER'' \<and> \<not> is_valid_dns_label ''has.dot'' \<and>
     \<not> is_valid_dns_label ''has space'' \<and> \<not> is_valid_dns_label (replicate 64 CHR ''a'') \<and>
     \<not> is_valid_dns_label ''has_underscore''"

lemma dns_label_tests: test_valid_dns_labels test_invalid_dns_labels
  by code_simp+

section \<open>Exits and respawns\<close>

definition exited_os :: "i32 \<Rightarrow> os_env" where
  "exited_os code = example_os\<lparr>os_waitid := (\<lambda>pgid. WaitInfo pgid code True)\<rparr>"

definition is_run_ok :: "response \<Rightarrow> bool" where
  "is_run_ok resp = (case resp of RespRunOk _ _ _ _ _ \<Rightarrow> True | _ \<Rightarrow> False)"

definition take_exited_incarnation ::
  "string \<Rightarrow> process_manager \<Rightarrow> ((incarnation \<times> i32 option) \<times> process_manager) option" where
  "take_exited_incarnation name pm =
     (case pm_find pm name of
        None \<Rightarrow> None
      | Some p \<Rightarrow>
          (case mp_life p of
             Exited code _ (Some inc) _ \<Rightarrow> Some ((inc, code), find_mut name (\<lambda>p. p\<lparr>mp_life := vacant\<rparr>) pm)
           | _ \<Rightarrow> None))"

text \<open>Spawned, its exit observed: the response, and the manager.\<close>

definition spawn_and_exit :: "os_env \<Rightarrow> string \<Rightarrow> (managed_process \<Rightarrow> managed_process) \<Rightarrow> process_manager
    \<Rightarrow> response \<times> process_manager" where
  "spawn_and_exit os command change pm =
     (let (resp, _, pm) = spawn_process os command (Some ''worker'') None None None pm
      in (resp, snd (refresh_exit_states os (find_mut ''worker'' change pm))))"

definition test_exit_is_observed_without_reaping :: "teardown_env \<Rightarrow> nat \<Rightarrow> bool" where
  "test_exit_is_observed_without_reaping env t \<longleftrightarrow>
     (let os = exited_os 3; (resp, pm) = spawn_and_exit os ''exit 3'' id (pm_new ''test-peek'')
      in is_run_ok resp \<and> fst (is_process_exited os ''worker'' pm) = Some (Some 3) \<and>
         (case take_exited_incarnation ''worker'' pm of
            None \<Rightarrow> False
          | Some ((inc, code), pm) \<Rightarrow>
              peek_exit (os_waitid os) (inc_pgid inc) = Some (Some 3) \<and>
              (case teardown env inc (Some code) t of
                 (code, done, _) \<Rightarrow> code = Some 3 \<and> WaitedFor (inc_pgid inc) \<in> set done)))"

definition on_failure_policy :: restart_policy where
  "on_failure_policy = \<lparr>rp_mode = OnFailure, rp_max_restarts = Some 5, rp_restart_delay_ms = 1000\<rparr>"

definition test_respawn_preserves_metadata :: bool where
  "test_respawn_preserves_metadata \<longleftrightarrow>
     (let os = exited_os 0;
          (resp, pm) = spawn_and_exit os ''echo hello''
            (\<lambda>p. p\<lparr>mp_restart_policy := Some on_failure_policy, mp_restart_count := 3\<rparr>) (pm_new ''test-respawn'')
      in is_run_ok resp \<and>
         (case (pm_find pm ''worker'', take_exited_incarnation ''worker'' pm) of
            (Some old, Some (_, pm)) \<Rightarrow>
              (case pm_respawn os ''worker'' True pm of
                 (resp, _, _, pm) \<Rightarrow>
                   is_run_ok resp \<and>
                   (case pm_find pm ''worker'' of
                      None \<Rightarrow> False
                    | Some p \<Rightarrow>
                        (case mp_life p of Running _ \<Rightarrow> True | _ \<Rightarrow> False) \<and>
                        mp_generation p > mp_generation old \<and> mp_restart_count p = 3 \<and>
                        map_option rp_mode (mp_restart_policy p) = Some OnFailure))
          | _ \<Rightarrow> False))"

text \<open>The log is a directory when the process is respawned, so it cannot be opened.\<close>

definition test_respawn_failure_keeps_failed_record :: bool where
  "test_respawn_failure_keeps_failed_record \<longleftrightarrow>
     (let os = exited_os 0;
          log = log_path (log_dir (os_vars os) ''test-respawn-fail'') ''worker'' Stdout;
          os' = os\<lparr>os_create := (\<lambda>path. if path = log then Some (io_err KOther ''Is a directory (os error 21)'') else None)\<rparr>;
          (resp, pm) = spawn_and_exit os ''true'' (\<lambda>p. p\<lparr>mp_restart_count := 2\<rparr>) (pm_new ''test-respawn-fail'')
      in is_run_ok resp \<and>
         (case take_exited_incarnation ''worker'' pm of
            None \<Rightarrow> False
          | Some (_, pm) \<Rightarrow>
              (case pm_respawn os' ''worker'' False pm of
                 (resp, _, _, pm) \<Rightarrow>
                   (case resp of RespError _ _ \<Rightarrow> True | _ \<Rightarrow> False) \<and>
                   (case pm_find pm ''worker'' of
                      None \<Rightarrow> False
                    | Some p \<Rightarrow>
                        (case mp_life p of Exited _ SpawnFailed None _ \<Rightarrow> True | _ \<Rightarrow> False) \<and>
                        mp_restart_count p = 2) \<and>
                   (case status_snapshot os' pm of
                      RespStatus processes \<Rightarrow> pi_state (processes ! 0) = PFailed
                    | _ \<Rightarrow> False))))"

lemma respawn_tests: test_respawn_preserves_metadata test_respawn_failure_keeps_failed_record
  by code_simp+

lemma exit_tests: "test_exit_is_observed_without_reaping env t"
proof -
  let ?inc = "\<lparr>inc_pgid = 4242, inc_capture = [Stdout, Stderr], inc_supervisor = True\<rparr>"
  have "case spawn_and_exit (exited_os 3) ''exit 3'' id (pm_new ''test-peek'') of (resp, pm) \<Rightarrow>
      is_run_ok resp \<and> fst (is_process_exited (exited_os 3) ''worker'' pm) = Some (Some 3) \<and>
      map_option fst (take_exited_incarnation ''worker'' pm) = Some (?inc, Some 3) \<and>
      peek_exit (os_waitid (exited_os 3)) 4242 = Some (Some 3)"
    by code_simp
  moreover have "fst (teardown env ?inc (Some (Some 3)) t) = Some 3"
    using grace_exit [where le = "Some (Some 3)" and env = env and captures = "[Stdout, Stderr]" and deadline = "t + STOP_GRACE" and t = t]
    by (simp add: teardown_def exit_code_of_def case_prod_unfold Let_def)
  moreover have "WaitedFor 4242 \<in> set (fst (snd (teardown env ?inc (Some (Some 3)) t)))"
    by (simp add: teardown_def case_prod_unfold Let_def)
  ultimately show ?thesis
    by (auto simp: test_exit_is_observed_without_reaping_def Let_def case_prod_unfold split: option.splits)
qed

section \<open>Restart candidates\<close>

definition make_exited_process :: "string \<Rightarrow> i32 option \<Rightarrow> managed_process" where
  "make_exited_process name code =
     \<lparr>mp_name = name, mp_id = ''id-'' @ name, mp_command = ''true'', mp_cwd = None, mp_env = [],
      mp_pid = 0, mp_started_at = 0, mp_port = None, mp_restart_policy = None, mp_watch_config = None,
      mp_restart_count = 0, mp_generation = 0, mp_life = Exited code Natural None False,
      mp_watch_handle = None\<rparr>"

definition policy :: "restart_mode \<Rightarrow> u32 option \<Rightarrow> restart_policy" where
  "policy mode limit = \<lparr>rp_mode = mode, rp_max_restarts = limit, rp_restart_delay_ms = 0\<rparr>"

text \<open>The candidates of a new manager with one process.\<close>

definition classified :: "string \<Rightarrow> managed_process \<Rightarrow> string list \<times> string list" where
  "classified session p =
     classify_restart_candidates ((pm_new session)\<lparr>pm_processes := hm_insert (mp_name p) p []\<rparr>)"

definition test_classify_skips_running_process :: bool where
  "test_classify_skips_running_process \<longleftrightarrow>
     (case spawn_process example_os ''sleep 60'' (Some ''runner'') None None None (pm_new ''test-classify-running'') of
        (resp, _, pm) \<Rightarrow>
          is_run_ok resp \<and>
          classify_restart_candidates (find_mut ''runner'' (\<lambda>p. p\<lparr>mp_restart_policy := Some (policy Always None)\<rparr>) pm)
            = ([], []))"

definition test_classify_skips_manually_stopped :: bool where
  "test_classify_skips_manually_stopped \<longleftrightarrow>
     classified ''test-classify-stopped''
       ((make_exited_process ''stopped'' (Some 1))
          \<lparr>mp_restart_policy := Some (policy Always None), mp_life := Exited (Some 1) ManualStop None False\<rparr>)
     = ([], [])"

definition test_classify_skips_clean_exit_on_failure_mode :: bool where
  "test_classify_skips_clean_exit_on_failure_mode \<longleftrightarrow>
     classified ''test-classify-clean''
       ((make_exited_process ''clean'' (Some 0))\<lparr>mp_restart_policy := Some (policy OnFailure None)\<rparr>)
     = ([], [])"

definition test_classify_skips_restart_pending :: bool where
  "test_classify_skips_restart_pending \<longleftrightarrow>
     classified ''test-classify-pending''
       ((make_exited_process ''pending'' (Some 1))
          \<lparr>mp_restart_policy := Some (policy Always None), mp_life := Exited (Some 1) Natural None True\<rparr>)
     = ([], [])"

definition test_classify_restartable_on_failure :: bool where
  "test_classify_restartable_on_failure \<longleftrightarrow>
     classified ''test-classify-on-failure''
       ((make_exited_process ''crasher'' (Some 1))\<lparr>mp_restart_policy := Some (policy OnFailure None)\<rparr>)
     = ([''crasher''], [])"

definition test_classify_exhausted :: bool where
  "test_classify_exhausted \<longleftrightarrow>
     classified ''test-classify-exhausted''
       ((make_exited_process ''tired'' (Some 1))
          \<lparr>mp_restart_policy := Some (policy Always (Some 3)), mp_restart_count := 3\<rparr>)
     = ([], [''tired''])"

definition test_classify_always_mode_clean_exit :: bool where
  "test_classify_always_mode_clean_exit \<longleftrightarrow>
     classified ''test-classify-always-clean''
       ((make_exited_process ''always-on'' (Some 0))\<lparr>mp_restart_policy := Some (policy Always None)\<rparr>)
     = ([''always-on''], [])"

lemma classify_tests:
  test_classify_skips_running_process test_classify_skips_manually_stopped
  test_classify_skips_clean_exit_on_failure_mode test_classify_skips_restart_pending
  test_classify_restartable_on_failure test_classify_exhausted test_classify_always_mode_clean_exit
  by code_simp+

end
