(* ===== verification/Unit_Tests_Logs.thy ===== *)
theory Unit_Tests_Logs
  imports Two_Streams
begin

text \<open>
  The unit tests of \<open>src/daemon/log_writer.rs\<close> and \<open>src/tui/disk_log_reader.rs\<close>, in a directory
  \<open>/t\<close> for the temporary one: what a capture leaves on disk, and what a reader makes of files with,
  without and with a rewritten index. The readers' results hold at every instant, so a test takes
  the clock \<open>now\<close>.
\<close>

section \<open>\<open>src/daemon/log_writer.rs\<close>\<close>

text \<open>\<open>LogSink::open\<close> and a capture until its input ends.\<close>

definition captured_world ::
  "string \<Rightarrow> stream \<Rightarrow> nat \<Rightarrow> nat \<Rightarrow> capture_event list \<Rightarrow> log_world \<Rightarrow> log_world" where
  "captured_world log stream max_bytes max_rotated_files events wd =
     (let wd = wd\<lparr>wd_fs := (wd_fs wd)(log \<mapsto> [], idx_path_for log \<mapsto> bw_disk (index_create (wd_seq wd)))\<rparr>
      in snd (capture_output (\<lambda>_. None) events
                (log_state_new log ''test'' stream max_bytes max_rotated_files (wd_seq wd)) wd))"

text \<open>The supervisor channel of the tests that do not use it is closed from the start.\<close>

definition piped :: "string list \<Rightarrow> capture_event list" where
  "piped lines = SupClosed # map PipeLine lines @ [PipeEnd]"

definition empty_world :: log_world where
  "empty_world = \<lparr>wd_fs = Map.empty, wd_seq = 0, wd_sent = []\<rparr>"

definition test_capture_output_creates_index :: bool where
  "test_capture_output_creates_index \<longleftrightarrow>
     (let log = ''/t/test.stdout'';
          wd = captured_world log Stdout (1024 * 1024) 5
                 (piped [''line 0'', ''line 1'', ''line 2'', ''line 3'', ''line 4'']) empty_world
      in (case fs_open log (wd_fs wd) of
            Inl _ \<Rightarrow> False
          | Inr content \<Rightarrow> length (file_lines content) = 5) \<and>
         (case index_open (fs_open (idx_path_for log) (wd_fs wd)) of
            Inr (Some idx) \<Rightarrow>
              ir_line_count idx = 5 \<and>
              index_read_record idx 0 = Inr \<lparr>ix_byte_offset = 0, ix_seq = 0\<rparr> \<and>
              index_read_record idx 1 = Inr \<lparr>ix_byte_offset = 7, ix_seq = 1\<rparr>
          | _ \<Rightarrow> False) \<and>
         wd_seq wd = 5)"

definition test_capture_output_shared_seq_counter :: bool where
  "test_capture_output_shared_seq_counter \<longleftrightarrow>
     (let wd1 = captured_world ''/t/test.stdout'' Stdout (1024 * 1024) 5 (piped [''out1'', ''out2'']) empty_world;
          wd2 = captured_world ''/t/test.stderr'' Stderr (1024 * 1024) 5 (piped [''err1'', ''err2'']) wd1
      in wd_seq wd1 = 2 \<and> wd_seq wd2 = 4 \<and>
         (case index_open (fs_open (idx_path_for ''/t/test.stderr'') (wd_fs wd2)) of
            Inr (Some idx) \<Rightarrow>
              (case index_read_record idx 0 of Inr r \<Rightarrow> ix_seq r = 2 | Inl _ \<Rightarrow> False) \<and>
              (case index_read_record idx 1 of Inr r \<Rightarrow> ix_seq r = 3 | Inl _ \<Rightarrow> False)
          | _ \<Rightarrow> False))"

definition two_digits :: "nat \<Rightarrow> string" where
  "two_digits i = [dec_digit (i div 10), dec_digit (i mod 10)]"

definition test_capture_output_rotation_creates_idx_companions :: bool where
  "test_capture_output_rotation_creates_idx_companions \<longleftrightarrow>
     (let log = ''/t/test.stdout'';
          wd = captured_world log Stdout 50 3 (piped (map (\<lambda>i. ''line '' @ two_digits i) [0..<20])) empty_world;
          rotated = with_extension log ''stdout.1''
      in fs_exists log (wd_fs wd) \<and> fs_exists (idx_path_for log) (wd_fs wd) \<and>
         fs_exists rotated (wd_fs wd) \<and> fs_exists (idx_path_for rotated) (wd_fs wd))"

definition test_capture_output_supervisor_channel :: bool where
  "test_capture_output_supervisor_channel \<longleftrightarrow>
     (let log = ''/t/test.stdout'';
          wd = captured_world log Stdout (1024 * 1024) 5
                 [PipeLine ''line 0'', PipeLine ''line 1'', PipeEnd, SupLine ''[agent-procs] Restarted'', SupClosed]
                 empty_world
      in (case fs_open log (wd_fs wd) of
            Inl _ \<Rightarrow> False
          | Inr content \<Rightarrow>
              file_lines content = [''line 0'', ''line 1'', ''[agent-procs] Restarted'']) \<and>
         (case index_open (fs_open (idx_path_for log) (wd_fs wd)) of
            Inr (Some idx) \<Rightarrow> ir_line_count idx = 3
          | _ \<Rightarrow> False) \<and>
         wd_seq wd = 3)"

text \<open>A capture into a log that has no rotated files writes the abstract log, and no other file.\<close>

lemma write_lines_other:
  assumes "log_rep ext segs st wd" and "x \<notin> log_files (lw_log_path st)"
  shows "wd_fs (snd (fold (\<lambda>line (st, wd). write_line (\<lambda>_. None) line st wd) ls (st, wd))) x = wd_fs wd x"
  using assms
proof (induction ls arbitrary: segs st wd)
  case (Cons l ls)
  obtain st' wd' where step: "write_line (\<lambda>_. None) l st wd = (st', wd')" by fastforce
  note rep = write_line_rep [OF Cons.prems(1), of l, unfolded step fst_conv snd_conv]
  then have "lw_log_path st' = lw_log_path st" by (simp add: writer_config_def)
  with Cons.IH [OF conjunct1 [OF rep]] write_line_other [OF Cons.prems, of l] Cons.prems(2) show ?case
    by (simp add: step)
qed simp

lemma capture_stores:
  fixes events :: "capture_event list"
  assumes log: "is_log_path log ext" and m: "0 < m" and fresh: "rotated_on_disk log (wd_fs wd) []"
  defines "lines \<equiv> captured_lines events"
  shows "stored log (wd_fs (captured_world log stream b m events wd))
      (fold (log_write b m) (numbered (wd_seq wd) lines) [[]])"
    "wd_seq (captured_world log stream b m events wd) = wd_seq wd + of_nat (length lines)"
    "x \<notin> log_files log \<Longrightarrow> wd_fs (captured_world log stream b m events wd) x = wd_fs wd x"
proof -
  define wd0 where "wd0 = wd\<lparr>wd_fs := (wd_fs wd)(log \<mapsto> [], idx_path_for log \<mapsto> bw_disk (index_create (wd_seq wd)))\<rparr>"
  define st0 where "st0 = log_state_new log ''test'' stream b m (wd_seq wd)"
  have rep: "log_rep ext [[]] st0 wd0"
    unfolding st0_def by (rule log_rep_opened [OF log m])
      (use fresh in \<open>simp_all add: wd0_def index_create_content\<close>)
  obtain st1 wd1 where run: "fold (\<lambda>line (st, wd). write_line (\<lambda>_. None) line st wd) lines (st0, wd0) = (st1, wd1)"
    by fastforce
  note rep1 = write_lines_rep [OF rep, of lines, unfolded run prod.case]
  have eq: "captured_world log stream b m events wd = snd (flush_index st1 wd1)"
    using run by (simp add: captured_world_def capture_output_def lines_def wd0_def st0_def Let_def)
  have path: "lw_log_path st0 = log" "lw_log_path st1 = log" "lw_max_bytes st0 = b"
      "lw_max_rotated_files st0 = m" "wd_seq wd0 = wd_seq wd"
    using rep1 by (simp_all add: writer_config_def st0_def wd0_def log_state_new_def)
  show "stored log (wd_fs (captured_world log stream b m events wd))
      (fold (log_write b m) (numbered (wd_seq wd) lines) [[]])"
    using log_rep_stored [OF conjunct1 [OF rep1]] by (simp add: eq path)
  show "wd_seq (captured_world log stream b m events wd) = wd_seq wd + of_nat (length lines)"
    using rep1 by (simp add: eq path)
  show "wd_fs (captured_world log stream b m events wd) x = wd_fs wd x" if x: "x \<notin> log_files log"
  proof -
    have "wd_fs wd1 x = wd_fs wd0 x"
      using write_lines_other [OF rep, of x lines] x by (simp add: path run)
    moreover have "wd_fs wd0 x = wd_fs wd x" using x by (auto simp: wd0_def)
    ultimately show ?thesis using flush_index_other [of x st1 wd1] x by (simp add: eq path)
  qed
qed

text \<open>Without rotation the log is one segment.\<close>

lemma one_segment:
  "length (seg_text (cur @ es)) \<le> b \<Longrightarrow> fold (log_write b m) es [cur] = [cur @ es]"
  by (induction es arbitrary: cur) (simp_all add: log_write_def)

lemma stored_one:
  assumes "stored log fs [es]"
  obtains b where "fs_open log fs = Inr (seg_text es)"
    "index_open (fs_open (idx_path_for log) fs) = Inr (Some \<lparr>ir_file = index_bytes b (seg_records 0 es),
       ir_line_count = length es, ir_seq_base = b\<rparr>)"
proof -
  have "seg_on_disk log fs 0 es" using assms [unfolded stored_def, rule_format, of 0] by simp
  then show thesis using that by (auto simp: seg_on_disk_def fs_open_def index_open_bytes)
qed

lemma captured_piped [simp]: "captured_lines (piped lines) = lines"
proof -
  have "captured_lines (map PipeLine lines @ [PipeEnd]) = lines" by (induction lines) simp_all
  then show ?thesis by (simp add: piped_def)
qed

lemma test_paths: "is_log_path ''/t/test.stdout'' ''stdout''" "is_log_path ''/t/test.stderr'' ''stderr''"
  unfolding is_log_path_def
  by (intro conjI disjI1 disjI2 exI [of _ "''/t''"] exI [of _ "''test''"]; simp)+

lemma empty_world_fresh: "rotated_on_disk log (wd_fs empty_world) []"
  by (simp add: rotated_on_disk_def seg_absent_def empty_world_def)

lemma file_lines_seg: "list_all log_line (map fst es) \<Longrightarrow> file_lines (seg_text es) = map fst es"
  using file_lines_text [of "map fst es"] by (simp add: seg_text_def)

lemmas captured_to_test = capture_stores [OF test_paths(1) _ empty_world_fresh]

text \<open>A whole capture within the limit, as the file and its index.\<close>

lemma small_capture:
  assumes "stored log (wd_fs wd) (fold (log_write b m) (numbered q ls) [[]])"
    and "length (seg_text (numbered q ls)) \<le> b" and "list_all log_line ls"
  obtains content c where "fs_open log (wd_fs wd) = Inr content" "file_lines content = ls"
    "index_open (fs_open (idx_path_for log) (wd_fs wd)) =
       Inr (Some \<lparr>ir_file = index_bytes c (seg_records 0 (numbered q ls)), ir_line_count = length ls, ir_seq_base = c\<rparr>)"
proof -
  have "stored log (wd_fs wd) [numbered q ls]"
    using assms(1) one_segment [of "[]" "numbered q ls" b m] assms(2) by simp
  moreover have "length (numbered q ls) = length ls" by (metis fst_numbered length_map)
  ultimately show thesis
    using file_lines_seg [of "numbered q ls"] assms(3) that by (auto elim!: stored_one)
qed

lemma capture_index_test: test_capture_output_creates_index
proof -
  define ls where "ls = [''line 0'', ''line 1'', ''line 2'', ''line 3'', ''line 4'']"
  define wd where "wd = captured_world ''/t/test.stdout'' Stdout (1024 * 1024) 5 (piped ls) empty_world"
  note stores = captured_to_test [where m = 5 and stream = Stdout and b = "1024 * 1024" and events = "piped ls", folded wd_def, simplified]
  obtain content c where "fs_open ''/t/test.stdout'' (wd_fs wd) = Inr content" "file_lines content = ls"
    "index_open (fs_open (idx_path_for ''/t/test.stdout'') (wd_fs wd)) = Inr (Some
       \<lparr>ir_file = index_bytes c (seg_records 0 (numbered 0 ls)), ir_line_count = length ls, ir_seq_base = c\<rparr>)"
    by (rule small_capture [of _ wd "1024 * 1024" 5 0 ls])
      (use stores(1) in \<open>simp_all add: empty_world_def, simp_all add: ls_def log_line_def\<close>)
  moreover have "seg_records 0 (numbered 0 ls) ! 0 = \<lparr>ix_byte_offset = 0, ix_seq = 0\<rparr>"
    "seg_records 0 (numbered 0 ls) ! 1 = \<lparr>ix_byte_offset = 7, ix_seq = 1\<rparr>"
    "length ls = 5" "length (numbered 0 ls) = 5"
    by (simp_all add: ls_def)
  moreover have "wd_seq wd = 5" using stores(2) by (simp add: empty_world_def ls_def)
  ultimately show ?thesis
    unfolding test_capture_output_creates_index_def Let_def ls_def [symmetric] wd_def [symmetric]
    by (simp add: index_read_record_bytes [OF index_reader.select_convs(1)])
qed

lemma capture_supervisor_test: test_capture_output_supervisor_channel
proof -
  define ls where "ls = [''line 0'', ''line 1'', ''[agent-procs] Restarted'']"
  define es where "es = [PipeLine ''line 0'', PipeLine ''line 1'', PipeEnd, SupLine ''[agent-procs] Restarted'', SupClosed]"
  define wd where "wd = captured_world ''/t/test.stdout'' Stdout (1024 * 1024) 5 es empty_world"
  have ls: "captured_lines es = ls" by (simp add: es_def ls_def)
  note stores = captured_to_test [where m = 5 and stream = Stdout and b = "1024 * 1024" and events = es, folded wd_def, unfolded ls, simplified]
  obtain content c where "fs_open ''/t/test.stdout'' (wd_fs wd) = Inr content" "file_lines content = ls"
    "index_open (fs_open (idx_path_for ''/t/test.stdout'') (wd_fs wd)) = Inr (Some
       \<lparr>ir_file = index_bytes c (seg_records 0 (numbered 0 ls)), ir_line_count = length ls, ir_seq_base = c\<rparr>)"
    by (rule small_capture [of _ wd "1024 * 1024" 5 0 ls])
      (use stores(1) in \<open>simp_all add: empty_world_def, simp_all add: ls_def log_line_def\<close>)
  moreover have "wd_seq wd = 3" using stores(2) by (simp add: empty_world_def ls_def)
  ultimately show ?thesis
    unfolding test_capture_output_supervisor_channel_def Let_def es_def [symmetric] wd_def [symmetric]
    by (simp add: ls_def)
qed

lemma capture_shared_test: test_capture_output_shared_seq_counter
proof -
  define errs where "errs = [''err1'', ''err2'']"
  define wd1 where "wd1 = captured_world ''/t/test.stdout'' Stdout (1024 * 1024) 5 (piped [''out1'', ''out2'']) empty_world"
  define wd2 where "wd2 = captured_world ''/t/test.stderr'' Stderr (1024 * 1024) 5 (piped errs) wd1"
  have seq1: "wd_seq wd1 = 2"
    using captured_to_test(2) [where m = 5] by (simp add: wd1_def empty_world_def)
  have "wd_fs wd1 x = None" if "x \<in> log_files ''/t/test.stderr''" for x
  proof -
    have "x \<notin> log_files ''/t/test.stdout''" using stream_files_disjoint [of "''/t/test.''"] that by auto
    with captured_to_test(3) [where m = 5] show ?thesis by (simp add: wd1_def empty_world_def)
  qed
  then have "rotated_on_disk ''/t/test.stderr'' (wd_fs wd1) []"
    by (simp add: rotated_on_disk_def seg_absent_def)
  note stores = capture_stores [OF test_paths(2) _ this, where m = 5 and stream = Stderr and b = "1024 * 1024" and
      events = "piped errs",
      folded wd2_def, simplified]
  obtain content c where "fs_open ''/t/test.stderr'' (wd_fs wd2) = Inr content"
    "index_open (fs_open (idx_path_for ''/t/test.stderr'') (wd_fs wd2)) = Inr (Some
       \<lparr>ir_file = index_bytes c (seg_records 0 (numbered 2 errs)), ir_line_count = length errs, ir_seq_base = c\<rparr>)"
    by (rule small_capture [of _ wd2 "1024 * 1024" 5 2 errs])
      (use stores(1) seq1 in \<open>simp_all, simp_all add: errs_def log_line_def\<close>)
  with seq1 stores(2) show ?thesis
    unfolding test_capture_output_shared_seq_counter_def Let_def errs_def [symmetric] wd1_def [symmetric] wd2_def [symmetric]
    by (simp add: errs_def index_read_record_bytes [OF index_reader.select_convs(1)])
qed

lemma take_numbered: "take k (numbered q ls) = numbered q (take k ls)"
  by (induction ls arbitrary: k q) (auto simp: take_Cons split: nat.split)

text \<open>Writing keeps the number of segments or adds to it, up to the limit.\<close>

lemma segments_grow:
  assumes "2 \<le> length segs" "2 \<le> Suc m"
  shows "2 \<le> length (fold (log_write b m) es segs)"
  using assms by (induction es arbitrary: segs) (auto simp: log_write_def)

lemma capture_rotation_test: test_capture_output_rotation_creates_idx_companions
proof -
  define ls where "ls = map (\<lambda>i. ''line '' @ two_digits i) [0..<20]"
  define wd where "wd = captured_world ''/t/test.stdout'' Stdout 50 3 (piped ls) empty_world"
  define segs where "segs = fold (log_write 50 3) (numbered 0 ls) [[]]"
  have stored: "stored ''/t/test.stdout'' (wd_fs wd) segs"
    using captured_to_test(1) [where m = 3 and stream = Stdout and b = 50 and events = "piped ls"]
    by (simp add: wd_def segs_def empty_world_def)
  have two: "1 < length segs"
  proof -
    have "take 7 ls = [''line 00'', ''line 01'', ''line 02'', ''line 03'', ''line 04'', ''line 05'', ''line 06'']"
      unfolding ls_def by code_simp
    then have first: "take 7 (numbered 0 ls) = [(''line 00'', 0), (''line 01'', 1), (''line 02'', 2),
        (''line 03'', 3), (''line 04'', 4), (''line 05'', 5), (''line 06'', 6)]"
      by (simp add: take_numbered)
    have "2 \<le> length (fold (log_write 50 3) (take 7 (numbered 0 ls)) [[]])"
      unfolding first by (simp add: log_write_def)
    then have "2 \<le> length (fold (log_write 50 3) (drop 7 (numbered 0 ls)) (fold (log_write 50 3) (take 7 (numbered 0 ls)) [[]]))"
      by (rule segments_grow) simp
    also have "\<dots> = length segs"
      unfolding segs_def by (metis append_take_drop_id fold_append comp_apply)
    finally show ?thesis by simp
  qed
  then have "0 < length segs" by linarith
  with two have "seg_on_disk ''/t/test.stdout'' (wd_fs wd) 0 (segs ! 0)"
    "seg_on_disk ''/t/test.stdout'' (wd_fs wd) 1 (segs ! 1)"
    using stored [unfolded stored_def, rule_format, of 0] stored [unfolded stored_def, rule_format, of 1]
    by simp_all
  moreover have "with_extension ''/t/test.stdout'' ''stdout.1'' = seg_path ''/t/test.stdout'' 1"
    using rotated_seg_path [OF test_paths(1), of 1] by (simp add: rotated_path_def dec_nat_1)
  ultimately show ?thesis
    unfolding test_capture_output_rotation_creates_idx_companions_def Let_def ls_def [symmetric] wd_def [symmetric]
    by (auto simp: seg_on_disk_def fs_exists_def)
qed

section \<open>\<open>src/tui/disk_log_reader.rs\<close>\<close>

text \<open>The helper: a log of the given lines and its index, in one loop.\<close>

definition create_log_with_index :: "string \<Rightarrow> string \<Rightarrow> string list \<Rightarrow> u64 \<Rightarrow> fs \<Rightarrow> fs" where
  "create_log_with_index dir filename lines seq_base fs =
     (let log_path = path_join dir filename;
          idx_path = idx_path_for log_path;
          (log_content, writer, offset) =
            fold (\<lambda>(i, line) (log_content, writer, offset).
                (log_content @ bytes_of (line @ ''\<newline>''),
                 index_append \<lparr>ix_byte_offset = offset, ix_seq = seq_base + of_nat i\<rparr> writer,
                 offset + of_nat (length line) + 1))
              (enumerate 0 lines) ([], index_create seq_base, 0)
      in fs(idx_path \<mapsto> bw_disk (index_flush writer), log_path \<mapsto> log_content))"

lemma create_log_with_index_files:
  "create_log_with_index dir filename lines b fs =
     fs(idx_path_for (path_join dir filename) \<mapsto> index_bytes b (seg_records 0 (numbered b lines)),
        path_join dir filename \<mapsto> seg_text (numbered b lines))"
proof -
  have "fold (\<lambda>(i, line) (log_content, writer, offset).
        (log_content @ bytes_of (line @ ''\<newline>''),
         index_append \<lparr>ix_byte_offset = offset, ix_seq = b + of_nat i\<rparr> writer,
         offset + of_nat (length line) + 1))
      (enumerate n lines) (content, writer, o64)
    = (content @ seg_text (numbered q lines), fold index_append (seg_records off (numbered q lines)) writer,
       of_nat (off + length (seg_text (numbered q lines))))"
    if "q = b + of_nat n" "o64 = of_nat off" for n q content writer o64 off
    using that
  proof (induction lines arbitrary: n q content writer o64 off)
    case (Cons l lines)
    have "fold (\<lambda>(i, line) (log_content, writer, offset).
        (log_content @ bytes_of (line @ ''\<newline>''),
         index_append \<lparr>ix_byte_offset = offset, ix_seq = b + of_nat i\<rparr> writer,
         offset + of_nat (length line) + 1))
      (enumerate (Suc n) lines) (content @ line_bytes l, w, o64 + of_nat (length l) + 1)
    = ((content @ line_bytes l) @ seg_text (numbered (q + 1) lines),
       fold index_append (seg_records (off + length (line_bytes l)) (numbered (q + 1) lines)) w,
       of_nat (off + length (line_bytes l) + length (seg_text (numbered (q + 1) lines))))" for w
      by (rule Cons.IH) (simp_all add: Cons.prems)
    then show ?case using Cons.prems by (simp add: line_bytes_def)
  qed simp
  from this [of b 0 0 0 "[]" "index_create b"] show ?thesis
    by (simp add: create_log_with_index_def Let_def index_written)
qed

text \<open>The reader of the tests, and the file system at the instant \<open>now\<close>.\<close>

definition test_reader :: disk_log_reader where
  "test_reader = disk_log_reader_new ''/t'' ''test''"

definition at_instant :: "nat \<Rightarrow> fs \<Rightarrow> view" where
  "at_instant now fs = \<lparr>vw_fs = fs, vw_now = now\<rparr>"

definition test_line_count_single_file :: "nat \<Rightarrow> bool" where
  "test_line_count_single_file now \<longleftrightarrow>
     (let vw = at_instant now
                 (create_log_with_index ''/t'' ''test.stdout'' [''line1'', ''line2'', ''line3''] 0 Map.empty);
          (outs, r) = line_count vw SrcStdout test_reader;
          (errs, r) = line_count vw SrcStderr r
      in outs = 3 \<and> errs = 0)"

definition test_read_lines_single_file :: "nat \<Rightarrow> bool" where
  "test_read_lines_single_file now \<longleftrightarrow>
     (let vw = at_instant now
                 (create_log_with_index ''/t'' ''test.stdout'' [''aaa'', ''bbb'', ''ccc'', ''ddd'', ''eee''] 0 Map.empty)
      in fst (read_lines vw SrcStdout 1 3 test_reader) = Inr [''bbb'', ''ccc'', ''ddd''])"

definition test_read_lines_across_rotated :: "nat \<Rightarrow> bool" where
  "test_read_lines_across_rotated now \<longleftrightarrow>
     (let fs = create_log_with_index ''/t'' ''test.stdout.2'' [''old1'', ''old2''] 0 Map.empty;
          fs = create_log_with_index ''/t'' ''test.stdout.1'' [''mid1'', ''mid2''] 2 fs;
          fs = create_log_with_index ''/t'' ''test.stdout'' [''new1'', ''new2''] 4 fs;
          vw = at_instant now fs;
          (cnt, r) = line_count vw SrcStdout test_reader
      in cnt = 6 \<and> fst (read_lines vw SrcStdout 1 4 r) = Inr [''old2'', ''mid1'', ''mid2'', ''new1''])"

text \<open>\<open>IndexWriter::create\<close>, the records, \<open>flush\<close>.\<close>

definition write_index :: "string \<Rightarrow> u64 \<Rightarrow> (u64 \<times> u64) list \<Rightarrow> fs \<Rightarrow> fs" where
  "write_index log seq_base rs fs =
     fs(idx_path_for log \<mapsto> bw_disk (index_flush (fold index_append
          (map (\<lambda>(byte_offset, seq). \<lparr>ix_byte_offset = byte_offset, ix_seq = seq\<rparr>) rs)
          (index_create seq_base))))"

definition test_read_interleaved :: "nat \<Rightarrow> bool" where
  "test_read_interleaved now \<longleftrightarrow>
     (let fs = create_log_with_index ''/t'' ''test.stdout'' [''out0'', ''out2'', ''out4''] 0 Map.empty;
          fs = write_index ''/t/test.stdout'' 0 [(0, 0), (5, 2), (10, 4)] fs;
          fs = fs(''/t/test.stderr'' \<mapsto> bytes_of ''err1\<newline>err3\<newline>'');
          fs = write_index ''/t/test.stderr'' 1 [(0, 1), (5, 3)] fs;
          vw = at_instant now fs;
          (cnt, r) = line_count_both vw test_reader
      in cnt = 5 \<and>
         fst (read_interleaved vw 0 5 r) =
           Inr [(SrcStdout, ''out0''), (SrcStderr, ''err1''), (SrcStdout, ''out2''), (SrcStderr, ''err3''),
                (SrcStdout, ''out4'')])"

definition test_fallback_no_index :: "nat \<Rightarrow> bool" where
  "test_fallback_no_index now \<longleftrightarrow>
     (let vw = at_instant now [''/t/test.stdout'' \<mapsto> bytes_of ''aaa\<newline>bbb\<newline>ccc\<newline>''];
          (cnt, r) = line_count vw SrcStdout test_reader
      in cnt = 3 \<and> fst (read_lines vw SrcStdout 1 2 r) = Inr [''bbb'', ''ccc''])"

definition test_scan_matching_lines_stdout :: "nat \<Rightarrow> bool" where
  "test_scan_matching_lines_stdout now \<longleftrightarrow>
     (let vw = at_instant now (create_log_with_index ''/t'' ''test.stdout''
                 [''hello world'', ''goodbye world'', ''hello again'', ''foo bar'', ''hello!''] 0 Map.empty);
          (hello, r) = scan_matching_lines vw ''hello'' ModeStdout test_reader;
          (world, r) = scan_matching_lines vw ''world'' ModeStdout r;
          (nonexistent, r) = scan_matching_lines vw ''nonexistent'' ModeStdout r
      in hello = [0, 2, 4] \<and> world = [0, 1] \<and> nonexistent = [])"

definition test_scan_matching_lines_both :: "nat \<Rightarrow> bool" where
  "test_scan_matching_lines_both now \<longleftrightarrow>
     (let fs = [''/t/test.stdout'' \<mapsto> bytes_of ''out-hello\<newline>out-world\<newline>''];
          fs = write_index ''/t/test.stdout'' 0 [(0, 0), (10, 2)] fs;
          fs = fs(''/t/test.stderr'' \<mapsto> bytes_of ''err-hello\<newline>'');
          fs = write_index ''/t/test.stderr'' 1 [(0, 1)] fs
      in fst (scan_matching_lines (at_instant now fs) ''hello'' ModeBoth test_reader) = [0, 1])"

definition test_read_scattered_lines :: "nat \<Rightarrow> bool" where
  "test_read_scattered_lines now \<longleftrightarrow>
     (let vw = at_instant now (create_log_with_index ''/t'' ''test.stdout''
                 [''line0'', ''line1'', ''line2'', ''line3'', ''line4''] 0 Map.empty)
      in fst (read_scattered_lines vw ModeStdout [0, 2, 4] test_reader) =
           [(SrcStdout, ''line0''), (SrcStdout, ''line2''), (SrcStdout, ''line4'')])"

definition test_empty_dir :: "nat \<Rightarrow> bool" where
  "test_empty_dir now \<longleftrightarrow>
     (let vw = at_instant now Map.empty;
          (outs, r) = line_count vw SrcStdout test_reader;
          (both, r) = line_count_both vw r
      in outs = 0 \<and> both = 0)"

text \<open>What the test's reader sees when both streams' files are complete.\<close>

definition streams :: "'a \<Rightarrow> 'a \<Rightarrow> line_source \<Rightarrow> 'a" where
  "streams outs errs source = (case source of SrcStdout \<Rightarrow> outs | SrcStderr \<Rightarrow> errs)"

lemma process_reader_sees:
  assumes process: "process \<noteq> []" "CHR ''/'' \<notin> set process"
    and "readable (''/t/'' @ process @ ''.stdout'') fs (map (\<lambda>es. (es, length es)) outs)"
    and "readable (''/t/'' @ process @ ''.stderr'') fs (map (\<lambda>es. (es, length es)) errs)"
    and "length outs \<le> 3" "length errs \<le> 3"
    and "list_all (\<lambda>es. plain (es, length es)) (outs @ errs)"
  shows "sees (at_instant now fs) (streams (log_entries outs) (log_entries errs)) (disk_log_reader_new ''/t'' process)"
proof -
  define svs where "svs = (\<lambda>source. map (\<lambda>es. (es, length es)) (streams outs errs source))"
  have paths: "path_join ''/t'' (process @ ''.'' @ source_ext source) = ''/t/'' @ process @ ''.'' @ source_ext source" for source
    using process by (cases process) (auto simp: path_join_def str_starts_with_def)
  have log_path: "is_log_path (''/t/'' @ process @ ''.'' @ source_ext source) (source_ext source)" for source
  proof -
    have "source_ext source = ''stdout'' \<or> source_ext source = ''stderr''"
      by (cases source) (simp_all add: source_ext_def)
    moreover have "''/t/'' @ process @ ''.'' @ source_ext source = ''/t'' @ ''/'' @ process @ ''.'' @ source_ext source"
      by simp
    ultimately show ?thesis using process unfolding is_log_path_def by blast
  qed
  have "logs_found ''/t'' process fs svs"
    unfolding logs_found_def all_line_source paths
    using assms(3-) log_path [of SrcStdout] log_path [of SrcStderr]
    by (simp add: svs_def streams_def source_ext_def ROTATED_LIMIT_def list_all_iff)
  then have "sees (at_instant now fs) (visible \<circ> svs) (disk_log_reader_new ''/t'' process)"
    by (intro logs_found_sees) (simp add: at_instant_def)
  moreover have "visible \<circ> svs = streams (log_entries outs) (log_entries errs)"
    by (rule line_source_eqI) (simp_all add: svs_def streams_def visible_complete)
  ultimately show ?thesis by simp
qed

lemmas test_reader_sees = process_reader_sees [of "''test''", folded test_reader_def, simplified]

lemma test_joins:
  "path_join ''/t'' ''test.stdout'' = ''/t/test.stdout''"
  "path_join ''/t'' ''test.stdout.1'' = ''/t/test.stdout.1''"
  "path_join ''/t'' ''test.stdout.2'' = ''/t/test.stdout.2''"
  by (simp_all add: path_join_def str_starts_with_def)

lemma readable_none: "(\<And>n. fs (seg_path log n) = None) \<Longrightarrow> readable log fs []"
  by (simp add: readable_def)

lemma readable_one:
  assumes "fs log = Some (seg_text es)" "fs (idx_path_for log) = Some (index_bytes b (seg_records 0 es))"
    and "\<And>n. fs (log @ ''.'' @ dec_nat n) = None"
  shows "readable log fs (map (\<lambda>es. (es, length es)) [es])"
  using assms by (auto simp: readable_def seg_readable_def seg_path_def)

text \<open>A single indexed log of standard output.\<close>

lemma single_log_sees:
  assumes process: "process \<noteq> []" "CHR ''/'' \<notin> set process"
    and "list_all (\<lambda>l. CHR ''\<newline>'' \<notin> set l) lines" "length (seg_text (numbered 0 lines)) < 2 ^ 64"
  shows "sees (at_instant now (create_log_with_index ''/t'' (process @ ''.stdout'') lines 0 Map.empty))
    (streams (numbered 0 lines) []) (disk_log_reader_new ''/t'' process)"
proof -
  let ?fs = "create_log_with_index ''/t'' (process @ ''.stdout'') lines 0 Map.empty"
  have join: "path_join ''/t'' (process @ ''.stdout'') = ''/t/'' @ process @ ''.stdout''"
    using process by (cases process) (auto simp: path_join_def str_starts_with_def)
  have "list_all (\<lambda>e. CHR ''\<newline>'' \<notin> set (fst e)) (numbered 0 lines)"
    using assms(3) by (metis (no_types, lifting) fst_numbered list.pred_map list_all_cong comp_apply)
  moreover have "readable (''/t/'' @ process @ ''.stdout'') ?fs (map (\<lambda>es. (es, length es)) [numbered 0 lines])"
    by (rule readable_one) (simp_all add: create_log_with_index_files join idx_path_for_def dec_nat_not_idx)
  moreover have "readable (''/t/'' @ process @ ''.stderr'') ?fs []"
    by (rule readable_none) (simp add: create_log_with_index_files join idx_path_for_def seg_path_def)
  ultimately show ?thesis
    using process_reader_sees [OF process, of ?fs "[numbered 0 lines]" "[]" now] assms(4)
    by (simp add: plain_def log_entries_def)
qed

lemmas test_log_sees = single_log_sees [of "''test''", folded test_reader_def, simplified]

lemmas reader_answers = line_count_sees read_lines_sees read_interleaved_sees

lemma count_tests: "test_line_count_single_file now" "test_read_lines_single_file now"
proof -
  note sees = test_log_sees [of "[''line1'', ''line2'', ''line3'']" now, simplified]
  show "test_line_count_single_file now"
    unfolding test_line_count_single_file_def Let_def case_prod_unfold
    using sees by (simp add: reader_answers [OF sees] reader_answers [OF line_count_sees(2) [OF sees]] streams_def)
  note sees = test_log_sees [of "[''aaa'', ''bbb'', ''ccc'', ''ddd'', ''eee'']" now, simplified]
  show "test_read_lines_single_file now"
    unfolding test_read_lines_single_file_def Let_def by (simp add: reader_answers [OF sees] streams_def)
qed

lemma scattered_test: "test_read_scattered_lines now"
proof -
  note sees = test_log_sees [of "[''line0'', ''line1'', ''line2'', ''line3'', ''line4'']" now, simplified]
  show ?thesis
    unfolding test_read_scattered_lines_def Let_def
    using scattered_sees [OF sees, of "[0, 2, 4]" ModeStdout] by (simp add: mode_lines_def streams_def)
qed

lemma scan_stdout_test: "test_scan_matching_lines_stdout now"
proof -
  note sees = test_log_sees [of "[''hello world'', ''goodbye world'', ''hello again'', ''foo bar'', ''hello!'']" now,
      simplified]
  note scan = scan_sees [of _ _ _ _ _ 0, folded scan_matching_lines_def]
  note first = scan(2) [OF sees, of "''hello''" ModeStdout]
  note second = scan(2) [OF first, of "''world''" ModeStdout]
  show ?thesis
    unfolding test_scan_matching_lines_stdout_def Let_def case_prod_unfold
    by (simp add: scan(1) [OF sees] scan(1) [OF first] scan(1) [OF second] mode_lines_def streams_def
        upt_rec str_starts_with_def)
qed

lemma empty_dir_test: "test_empty_dir now"
proof -
  have sees: "sees (at_instant now Map.empty) (streams [] []) test_reader"
    using test_reader_sees [of Map.empty "[]" "[]" now] by (simp add: readable_none log_entries_def)
  show ?thesis
    unfolding test_empty_dir_def Let_def case_prod_unfold
    by (simp add: reader_answers [OF sees] reader_answers [OF line_count_sees(2) [OF sees]] streams_def)
qed

lemma dec_nat_2: "dec_nat 2 = ''2''"
  by code_simp

lemma dec_nat_is_2: "dec_nat n = ''2'' \<longleftrightarrow> n = 2" "''2'' = dec_nat n \<longleftrightarrow> n = 2"
  using dec_nat_inject [of n 2] by (auto simp: dec_nat_2 simp del: dec_nat_inject)

lemma dec_nat_not_2_idx: "dec_nat n \<noteq> ''2.idx''"
  using last_dec_nat [of n] dec_digit_not_x by (metis last.simps list.distinct(1))

lemma rotated_test: "test_read_lines_across_rotated now"
proof -
  define news where "news = numbered 4 [''new1'', ''new2'']"
  define mids where "mids = numbered 2 [''mid1'', ''mid2'']"
  define olds where "olds = numbered 0 [''old1'', ''old2'']"
  define fs where "fs = create_log_with_index ''/t'' ''test.stdout'' [''new1'', ''new2''] 4
    (create_log_with_index ''/t'' ''test.stdout.1'' [''mid1'', ''mid2''] 2
      (create_log_with_index ''/t'' ''test.stdout.2'' [''old1'', ''old2''] 0 Map.empty))"
  note files = fs_def create_log_with_index_files test_joins idx_path_for_def seg_path_def
  have "readable ''/t/test.stdout'' fs (map (\<lambda>es. (es, length es)) [news, mids, olds])"
    unfolding readable_def
  proof
    fix n :: nat
    consider "n = 0" | "n = 1" | "n = 2" | "2 < n" by linarith
    then show "if n < length (map (\<lambda>es. (es, length es)) [news, mids, olds])
      then seg_readable ''/t/test.stdout'' fs n (map (\<lambda>es. (es, length es)) [news, mids, olds] ! n)
      else fs (seg_path ''/t/test.stdout'' n) = None"
      by cases (auto simp: files seg_readable_def dec_nat_1 dec_nat_2 dec_nat_is_1 dec_nat_is_2 dec_nat_not_idx
          dec_nat_not_2_idx news_def mids_def olds_def)
  qed
  moreover have "readable ''/t/test.stderr'' fs []"
    by (rule readable_none) (simp add: files)
  ultimately have sees: "sees (at_instant now fs) (streams (olds @ mids @ news) []) test_reader"
    using test_reader_sees [of fs "[news, mids, olds]" "[]" now]
    by (simp add: plain_def log_entries_def news_def mids_def olds_def)
  show ?thesis
    unfolding test_read_lines_across_rotated_def Let_def case_prod_unfold fs_def [symmetric]
    by (simp add: reader_answers [OF sees] reader_answers [OF line_count_sees(2) [OF sees]] streams_def
        news_def mids_def olds_def)
qed

text \<open>Two streams whose indexes are written by hand.\<close>

definition hand_indexed :: "log_entry list \<Rightarrow> log_entry list \<Rightarrow> fs \<Rightarrow> bool" where
  "hand_indexed outs errs fs \<longleftrightarrow>
     (\<exists>b. fs = [''/t/test.stdout'' \<mapsto> seg_text outs, ''/t/test.stdout.idx'' \<mapsto> index_bytes 0 (seg_records 0 outs),
        ''/t/test.stderr'' \<mapsto> seg_text errs, ''/t/test.stderr.idx'' \<mapsto> index_bytes b (seg_records 0 errs)])"

lemma hand_indexed_sees:
  assumes "hand_indexed outs errs fs" "plain (outs, length outs)" "plain (errs, length errs)"
  shows "sees (at_instant now fs) (streams outs errs) test_reader"
proof -
  have "readable ''/t/test.stdout'' fs (map (\<lambda>es. (es, length es)) [outs])"
    "readable ''/t/test.stderr'' fs (map (\<lambda>es. (es, length es)) [errs])"
    using assms(1) unfolding hand_indexed_def
    by (elim exE, intro readable_one; simp add: idx_path_for_def dec_nat_not_idx)+
  then show ?thesis
    using test_reader_sees [of fs "[outs]" "[errs]" now] assms(2,3) by (simp add: log_entries_def)
qed

lemma write_index_file:
  "write_index log b rs fs = fs(idx_path_for log \<mapsto> index_bytes b
     (map (\<lambda>(byte_offset, seq). \<lparr>ix_byte_offset = byte_offset, ix_seq = seq\<rparr>) rs))"
  by (simp only: write_index_def index_written)

lemma interleaved_tests: "test_read_interleaved now" "test_scan_matching_lines_both now"
proof -
  define outs :: "log_entry list" where "outs = [(''out0'', 0), (''out2'', 2), (''out4'', 4)]"
  define errs :: "log_entry list" where "errs = [(''err1'', 1), (''err3'', 3)]"
  let ?fs = "write_index ''/t/test.stderr'' 1 [(0, 1), (5, 3)]
    ((write_index ''/t/test.stdout'' 0 [(0, 0), (5, 2), (10, 4)]
      (create_log_with_index ''/t'' ''test.stdout'' [''out0'', ''out2'', ''out4''] 0 Map.empty))
      (''/t/test.stderr'' \<mapsto> bytes_of ''err1\<newline>err3\<newline>''))"
  have "hand_indexed outs errs ?fs"
    unfolding hand_indexed_def
    by (rule exI [of _ 1]) (simp add: write_index_file create_log_with_index_files test_joins
        idx_path_for_def outs_def errs_def fun_eq_iff line_bytes_def bytes_of_def)
  then have sees: "sees (at_instant now ?fs) (streams outs errs) test_reader"
    by (rule hand_indexed_sees) (simp_all add: outs_def errs_def plain_def)
  have "merged_view (streams outs errs)
      = [(SrcStdout, ''out0''), (SrcStderr, ''err1''), (SrcStdout, ''out2''), (SrcStderr, ''err3''), (SrcStdout, ''out4'')]"
    unfolding outs_def errs_def by code_simp
  then show "test_read_interleaved now"
    unfolding test_read_interleaved_def Let_def case_prod_unfold
    by (simp add: reader_answers [OF sees] reader_answers [OF line_count_sees(4) [OF sees]])
      (simp add: streams_def outs_def errs_def)
  define outs :: "log_entry list" where "outs = [(''out-hello'', 0), (''out-world'', 2)]"
  define errs :: "log_entry list" where "errs = [(''err-hello'', 1)]"
  let ?fs = "write_index ''/t/test.stderr'' 1 [(0, 1)]
    ((write_index ''/t/test.stdout'' 0 [(0, 0), (10, 2)]
      [''/t/test.stdout'' \<mapsto> bytes_of ''out-hello\<newline>out-world\<newline>''])
      (''/t/test.stderr'' \<mapsto> bytes_of ''err-hello\<newline>''))"
  have "hand_indexed outs errs ?fs"
    unfolding hand_indexed_def
    by (rule exI [of _ 1]) (simp add: write_index_file
        idx_path_for_def outs_def errs_def fun_eq_iff line_bytes_def bytes_of_def)
  then have sees: "sees (at_instant now ?fs) (streams outs errs) test_reader"
    by (rule hand_indexed_sees) (simp_all add: outs_def errs_def plain_def)
  have merged: "merged_view (streams outs errs)
      = [(SrcStdout, ''out-hello''), (SrcStderr, ''err-hello''), (SrcStdout, ''out-world'')]"
    unfolding outs_def errs_def by code_simp
  have "fst (scan_matching_lines (at_instant now ?fs) ''hello'' ModeBoth test_reader)
    = filter (\<lambda>i. str_contains ''hello'' (snd (mode_lines (streams outs errs) ModeBoth ! i)))
        [0..<length (mode_lines (streams outs errs) ModeBoth)]"
    unfolding scan_matching_lines_def by (rule scan_sees(1) [OF sees])
  also have "\<dots> = [0, 1]"
    unfolding mode_lines_def stream_mode.case merged by (simp add: upt_rec str_starts_with_def)
  finally show "test_scan_matching_lines_both now"
    unfolding test_scan_matching_lines_both_def Let_def .
qed

text \<open>Without an index the lines of the file are counted and skipped.\<close>

lemma fallback_test: "test_fallback_no_index now"
proof -
  define ls where "ls = [''aaa'', ''bbb'', ''ccc'']"
  define content where "content = concat (map line_bytes ls)"
  define fs :: fs where "fs = [''/t/test.stdout'' \<mapsto> content]"
  have lines: "file_lines content = ls"
    unfolding content_def by (rule file_lines_text) (simp add: ls_def log_line_def)
  have path: "with_extension ''/t/test.stdout'' (''stdout'' @ ''.'' @ dec_nat 1) = ''/t/test.stdout.1''"
    using rotated_seg_path [OF test_paths(1), of 1] by (simp add: rotated_path_def seg_path_def dec_nat_1)
  have "rotated_segments fs ''/t/test.stdout'' ''stdout'' 1 ROTATED_LIMIT = []"
    by (subst rotated_segments.simps) (simp add: path [simplified] fs_exists_def fs_def)
  then have segs: "fst (segments (at_instant now fs) SrcStdout test_reader)
      = [\<lparr>sg_log_path = ''/t/test.stdout'', sg_idx_path = ''/t/test.stdout.idx'', sg_line_count = 3\<rparr>]"
    by (simp add: segments_def test_reader_def disk_log_reader_new_def discover_cache_def discover_segments_def
        Let_def at_instant_def source_ext_def test_joins fs_exists_def segment_at_def idx_line_count_def
        count_lines_in_file_def fs_open_def idx_path_for_def line_count_from_metadata_def)
      (simp add: fs_def count_lines_in_file_def fs_open_def lines, simp add: ls_def)
  have vw: "vw_fs (at_instant now fs) = fs" by (simp add: at_instant_def)
  have "read_lines_from_segment fs ''/t/test.stdout'' ''/t/test.stdout.idx'' 1 2 = Inr [''bbb'', ''ccc'']"
    by (simp add: read_lines_from_segment_def fs_open_def index_open_def fs_def lines) (simp add: ls_def)
  then have "fst (read_lines (at_instant now fs) SrcStdout 1 2 (snd (line_count (at_instant now fs) SrcStdout test_reader)))
      = Inr [''bbb'', ''ccc'']"
    by (simp add: read_lines_def line_count_def case_prod_unfold segments_again segs read_lines_from_segments_def vw numeral_2_eq_2)
  moreover have "fst (line_count (at_instant now fs) SrcStdout test_reader) = 3"
    by (simp add: line_count_def case_prod_unfold segs)
  moreover have "fs = [''/t/test.stdout'' \<mapsto> bytes_of ''aaa\<newline>bbb\<newline>ccc\<newline>'']"
    by (simp add: fs_def content_def ls_def line_bytes_def bytes_of_def)
  ultimately show ?thesis
    unfolding test_fallback_no_index_def Let_def case_prod_unfold by (simp only:)
qed

end
