(* ===== verification/Unit_Tests_Tui.thy ===== *)
theory Unit_Tests_Tui
  imports End_To_End Tui_Event_Loop Unit_Tests_Logs
begin

text \<open>
  The unit tests of \<open>src/tui/app.rs\<close> and \<open>src/tui/event_loop.rs\<close>: selection, the stream mode,
  pausing, the counters of the live buffer, which lines are visible, and the mouse. A test without
  log files has no reader, so it holds in every \<open>view\<close>; the one with a log takes the clock \<open>now\<close>.
\<close>

section \<open>\<open>src/tui/app.rs\<close>\<close>

definition make_process :: "string \<Rightarrow> process_state \<Rightarrow> process_info" where
  "make_process name st =
     \<lparr>pi_name = name, pi_id = ''p-'' @ name, pi_pid = 100, pi_state = st,
      pi_exit_code = (if st = PExited then Some 0 else None),
      pi_uptime_secs = (if st = PRunning then Some 10 else None),
      pi_command = ''true'', pi_port = None, pi_url = None, pi_restart_count = None,
      pi_max_restarts = None, pi_restart_policy = None, pi_watched = None\<rparr>"

definition test_select_next_wraps :: bool where
  "test_select_next_wraps \<longleftrightarrow>
     (let ap = update_processes
                 [make_process ''a'' PRunning, make_process ''b'' PRunning, make_process ''c'' PRunning] app_new;
          ap = select_next (ap\<lparr>ap_selected := 2\<rparr>)
      in ap_selected ap = 0)"

definition test_select_prev_wraps :: bool where
  "test_select_prev_wraps \<longleftrightarrow>
     (let ap = update_processes
                 [make_process ''a'' PRunning, make_process ''b'' PRunning, make_process ''c'' PRunning] app_new;
          ap = select_prev (ap\<lparr>ap_selected := 0\<rparr>)
      in ap_selected ap = 2)"

definition test_cycle_stream_mode :: "view \<Rightarrow> bool" where
  "test_cycle_stream_mode vw \<longleftrightarrow>
     (let ap0 = app_new; ap1 = cycle_stream_mode vw ap0; ap2 = cycle_stream_mode vw ap1;
          ap3 = cycle_stream_mode vw ap2
      in ap_stream_mode ap0 = ModeStdout \<and> ap_stream_mode ap1 = ModeStderr \<and>
         ap_stream_mode ap2 = ModeBoth \<and> ap_stream_mode ap3 = ModeStdout)"

definition test_toggle_pause :: bool where
  "test_toggle_pause \<longleftrightarrow>
     (let ap0 = app_new; ap1 = toggle_pause ap0; ap2 = toggle_pause ap1
      in \<not> ap_paused ap0 \<and> ap_paused ap1 \<and> \<not> ap_paused ap2)"

definition test_push_output :: "view \<Rightarrow> bool" where
  "test_push_output vw \<longleftrightarrow>
     (case hm_get (ap_buffers (push_output vw ''web'' Stdout ''hello world'' app_new)) ''web'' of
        None \<Rightarrow> False
      | Some buf \<Rightarrow> length (stdout_lines buf) = 1 \<and> stdout_lines buf ! 0 = ''hello world'')"

definition test_running_count :: bool where
  "test_running_count \<longleftrightarrow>
     running_count (update_processes
       [make_process ''a'' PRunning, make_process ''b'' PExited, make_process ''c'' PRunning] app_new) = 2"

definition test_exited_count :: bool where
  "test_exited_count \<longleftrightarrow>
     exited_count (update_processes
       [make_process ''a'' PRunning, make_process ''b'' PExited, make_process ''c'' PExited] app_new) = 2"

definition test_output_buffer_counters :: bool where
  "test_output_buffer_counters \<longleftrightarrow>
     (let buf0 = output_buffer_new 5;
          buf3 = ob_push SrcStdout ''c'' (ob_push SrcStderr ''b'' (ob_push SrcStdout ''a'' buf0));
          buf5 = ob_push SrcStderr ''e'' (ob_push SrcStdout ''d'' buf3);
          buf6 = ob_push SrcStderr ''f'' buf5
      in ob_len buf0 = 0 \<and> ob_stdout_count buf0 = 0 \<and> ob_stderr_count buf0 = 0 \<and> ob_is_empty buf0 \<and>
         ob_len buf3 = 3 \<and> ob_stdout_count buf3 = 2 \<and> ob_stderr_count buf3 = 1 \<and>
         ob_len buf5 = 5 \<and> ob_stdout_count buf5 = 3 \<and> ob_stderr_count buf5 = 2 \<and>
         ob_len buf6 = 5 \<and> ob_stdout_count buf6 = 2 \<and> ob_stderr_count buf6 = 3)"

text \<open>\<open>format!("{prefix}{i}")\<close> pushed for \<open>i\<close> in a range.\<close>

definition push_numbered :: "view \<Rightarrow> string \<Rightarrow> nat list \<Rightarrow> app \<Rightarrow> app" where
  "push_numbered vw pre = fold (\<lambda>i. push_output vw ''web'' Stdout (pre @ dec_nat i))"

definition test_visible_lines_hot_buffer_only :: "view \<Rightarrow> bool" where
  "test_visible_lines_hot_buffer_only vw \<longleftrightarrow>
     (let ap = push_numbered vw ''line '' [0..<20] app_new;
          ap = (update_processes [make_process ''web'' PRunning] ap)\<lparr>ap_visible_height := 10\<rparr>
      in case fst (visible_lines vw ''web'' 10 ap) of
           None \<Rightarrow> False
         | Some ls \<Rightarrow> length ls = 10 \<and> snd (ls ! 0) = ''line 10'' \<and> snd (ls ! 9) = ''line 19'')"

definition test_visible_lines_paused_scrolled :: "view \<Rightarrow> bool" where
  "test_visible_lines_paused_scrolled vw \<longleftrightarrow>
     (let ap = push_numbered vw ''line '' [0..<50] app_new;
          ap = set_offset ''web'' 20
                 ((update_processes [make_process ''web'' PRunning] ap)\<lparr>ap_visible_height := 10, ap_paused := True\<rparr>)
      in case fst (visible_lines vw ''web'' 10 ap) of
           None \<Rightarrow> False
         | Some ls \<Rightarrow> length ls = 10 \<and> snd (ls ! 0) = ''line 20'' \<and> snd (ls ! 9) = ''line 29'')"

definition test_visible_lines_with_filter_uses_filtered_index :: "view \<Rightarrow> bool" where
  "test_visible_lines_with_filter_uses_filtered_index vw \<longleftrightarrow>
     (let ap = (push_output vw ''web'' Stdout ''hello'' app_new)\<lparr>ap_filter := Some ''hello''\<rparr>
      in fst (visible_lines vw ''web'' 10 ap) = Some [])"

definition test_hot_line_count_with_and_without_filter :: "view \<Rightarrow> bool" where
  "test_hot_line_count_with_and_without_filter vw \<longleftrightarrow>
     (let ap = push_output vw ''web'' Stdout ''hello again''
                 (push_output vw ''web'' Stdout ''goodbye world''
                   (push_output vw ''web'' Stdout ''hello world'' app_new))
      in hot_line_count ''web'' None ap = 3 \<and> hot_line_count ''web'' (Some ''hello'') ap = 2 \<and>
         hot_line_count ''web'' (Some ''xyz'') ap = 0)"

lemma app_tests:
  test_select_next_wraps test_select_prev_wraps "test_cycle_stream_mode vw" test_toggle_pause
  test_running_count test_exited_count test_output_buffer_counters
  by code_simp+

lemma push_tests:
  "test_push_output vw" "test_visible_lines_with_filter_uses_filtered_index vw"
  "test_hot_line_count_with_and_without_filter vw"
  by (simp_all add: test_push_output_def test_visible_lines_with_filter_uses_filtered_index_def
      test_hot_line_count_with_and_without_filter_def push_output_def Let_def MAX_BUFFER_LINES_def
      output_buffer_new_def ob_push_def ob_evict_def source_of_stream_def app_new_def stdout_lines_def
      visible_lines_def filtered_visible_lines_def matching_count_def hot_line_count_def
      sublist_code)

text \<open>What a range of pushes leaves in an application that has no filter and no output yet.\<close>

lemma pushed_buffer:
  assumes "hm_get (ap_buffers ap) ''web'' = None" "ap_filter ap = None" "length is \<le> 10000"
  shows "\<exists>bs. push_numbered vw pre is ap = ap\<lparr>ap_buffers := bs\<rparr> \<and>
    hm_get bs ''web'' = (if is = [] then None else
      Some \<lparr>ob_lines = map (\<lambda>i. (SrcStdout, pre @ dec_nat i)) is,
       ob_max_lines = 10000, ob_stdout_count = length is, ob_stderr_count = 0\<rparr>)"
  using assms(3)
proof (induction "is" rule: rev_induct)
  case Nil
  show ?case by (intro exI [of _ "ap_buffers ap"]) (simp add: push_numbered_def assms(1))
next
  case (snoc i "is")
  then obtain bs where bs: "push_numbered vw pre is ap = ap\<lparr>ap_buffers := bs\<rparr>"
    "hm_get bs ''web'' = (if is = [] then None else
      Some \<lparr>ob_lines = map (\<lambda>i. (SrcStdout, pre @ dec_nat i)) is,
       ob_max_lines = 10000, ob_stdout_count = length is, ob_stderr_count = 0\<rparr>)"
    by auto
  let ?buf = "\<lparr>ob_lines = map (\<lambda>i. (SrcStdout, pre @ dec_nat i)) (is @ [i]),
    ob_max_lines = 10000, ob_stdout_count = length (is @ [i]), ob_stderr_count = 0\<rparr>"
  have "push_output vw ''web'' Stdout (pre @ dec_nat i) (ap\<lparr>ap_buffers := bs\<rparr>)
      = ap\<lparr>ap_buffers := hm_insert ''web'' ?buf bs\<rparr>"
    using assms(2) snoc.prems bs(2)
    by (cases "is = []") (simp_all add: push_output_def Let_def MAX_BUFFER_LINES_def
      output_buffer_new_def ob_push_def ob_evict_def source_of_stream_def)
  moreover have "push_numbered vw pre (is @ [i]) ap
      = push_output vw ''web'' Stdout (pre @ dec_nat i) (push_numbered vw pre is ap)"
    by (simp add: push_numbered_def)
  ultimately show ?case by (intro exI [of _ "hm_insert ''web'' ?buf bs"]) (simp add: bs(1))
qed

lemma pushed_lines:
  assumes "0 < n" "n \<le> 10000"
  obtains bs where "push_numbered vw pre [0..<n] app_new = app_new\<lparr>ap_buffers := bs\<rparr>"
    "\<And>ap. ap_buffers ap = bs \<Longrightarrow> ap_stream_mode ap = ModeStdout \<Longrightarrow>
       hot_lines ''web'' ap = map (\<lambda>i. (SrcStdout, pre @ dec_nat i)) [0..<n]"
  using pushed_buffer [of app_new "[0..<n]" vw pre] assms
  by (auto simp: app_new_def hot_lines_def stdout_lines_def comp_def)

text \<open>Without a reader the window is one of the live lines.\<close>

lemma hot_window:
  assumes "ap_disk_readers ap = []" "ap_filter ap = None" "buffers_ok ap"
    and "hot_lines name ap = map f [0..<n]"
    and "e = n - shown_offset name ap" "s = e - h"
  shows "fst (visible_lines vw name h ap) = Some (map f [s..<e])"
proof -
  have "hot_line_count name None ap = n"
    using hot_line_count_length [OF assms(3), of name] assms(4) by simp
  with assms show ?thesis
    by (simp add: visible_lines_def total_line_count_def disk_line_count_def with_reader_def Let_def
        hot_buffer_range_def drop_map take_map)
qed

lemma push_numbered_ok: "buffers_ok ap \<Longrightarrow> buffers_ok (push_numbered vw pre is ap)"
proof (induction "is" arbitrary: ap)
  case (Cons i "is")
  have "buffers_ok (push_output vw ''web'' Stdout (pre @ dec_nat i) ap)"
    using receive_buffers [OF Cons.prems, of "(vw, ''web'', Stdout, pre @ dec_nat i)"] by (simp add: receive_def)
  from Cons.IH [OF this] show ?case by (simp add: push_numbered_def)
qed (simp add: push_numbered_def)

lemma window_tests:
  "test_visible_lines_hot_buffer_only vw" "test_visible_lines_paused_scrolled vw"
proof -
  have numbers: "dec_nat 10 = ''10''" "dec_nat 19 = ''19''" "dec_nat 20 = ''20''" "dec_nat 29 = ''29''"
    by code_simp+
  have ok: "buffers_ok app_new" by (simp add: buffers_ok_def app_new_def)
  obtain bs where bs: "push_numbered vw ''line '' [0..<20] app_new = app_new\<lparr>ap_buffers := bs\<rparr>"
    "\<And>ap. ap_buffers ap = bs \<Longrightarrow> ap_stream_mode ap = ModeStdout \<Longrightarrow>
      hot_lines ''web'' ap = map (\<lambda>i. (SrcStdout, ''line '' @ dec_nat i)) [0..<20]"
    by (rule pushed_lines [of 20 vw "''line ''"]) auto
  show "test_visible_lines_hot_buffer_only vw"
    using push_numbered_ok [OF ok, of vw "''line ''" "[0..<20]"]
    unfolding test_visible_lines_hot_buffer_only_def bs(1) Let_def
    by (subst hot_window [OF _ _ _ bs(2) refl refl])
      (simp_all add: app_new_def numbers update_processes_def shown_offset_def buffers_ok_def)
  obtain bs where bs: "push_numbered vw ''line '' [0..<50] app_new = app_new\<lparr>ap_buffers := bs\<rparr>"
    "\<And>ap. ap_buffers ap = bs \<Longrightarrow> ap_stream_mode ap = ModeStdout \<Longrightarrow>
      hot_lines ''web'' ap = map (\<lambda>i. (SrcStdout, ''line '' @ dec_nat i)) [0..<50]"
    by (rule pushed_lines [of 50 vw "''line ''"]) auto
  show "test_visible_lines_paused_scrolled vw"
    using push_numbered_ok [OF ok, of vw "''line ''" "[0..<50]"]
    unfolding test_visible_lines_paused_scrolled_def bs(1) Let_def
    by (subst hot_window [OF _ _ _ bs(2) refl refl])
      (simp_all add: app_new_def numbers update_processes_def set_offset_def offset_of_def shown_offset_def buffers_ok_def)
qed

text \<open>The log of this test is written by the same loop as the reader tests' helper.\<close>

definition window_at :: "(line_source \<times> string) list option \<Rightarrow> (nat \<times> string) list \<Rightarrow> bool" where
  "window_at shown expected \<longleftrightarrow>
     (case shown of
        None \<Rightarrow> False
      | Some ls \<Rightarrow> length ls = 10 \<and> list_all (\<lambda>(i, line). snd (ls ! i) = line) expected)"

definition test_visible_lines_with_disk_reader :: "nat \<Rightarrow> bool" where
  "test_visible_lines_with_disk_reader now \<longleftrightarrow>
     (let disk = map (\<lambda>i. ''disk line '' @ dec_nat i) [0..<100];
          vw = at_instant now (create_log_with_index ''/t'' ''web.stdout'' disk 0 Map.empty);
          ap = app_new\<lparr>ap_disk_readers := hm_insert ''web'' (disk_log_reader_new ''/t'' ''web'') (ap_disk_readers app_new)\<rparr>;
          ap = push_numbered vw ''disk line '' [90..<100] ap;
          ap = (update_processes [make_process ''web'' PRunning] ap)\<lparr>ap_visible_height := 10\<rparr>;
          (total, ap) = total_line_count vw ''web'' ap;
          (live, ap) = visible_lines vw ''web'' 10 ap;
          ap = set_offset ''web'' 90 (ap\<lparr>ap_paused := True\<rparr>);
          (top, ap) = visible_lines vw ''web'' 10 ap;
          ap = set_offset ''web'' 5 ap;
          (middle, ap) = visible_lines vw ''web'' 10 ap
      in total = 100 \<and>
         window_at live [(0, ''disk line 90''), (9, ''disk line 99'')] \<and>
         window_at top [(0, ''disk line 0''), (9, ''disk line 9'')] \<and>
         window_at middle [(0, ''disk line 85''), (4, ''disk line 89''), (5, ''disk line 90''), (9, ''disk line 94'')])"

text \<open>The application between two questions: a complete log of \<open>n\<close> lines on disk, the last of them live.\<close>

definition has_log :: "view \<Rightarrow> (nat \<Rightarrow> line_source \<times> string) \<Rightarrow> nat \<Rightarrow> nat \<Rightarrow> app \<Rightarrow> bool" where
  "has_log vw f first n ap \<longleftrightarrow>
     (\<exists>L. reads vw ap ''web'' L \<and> mode_lines L ModeStdout = map f [0..<n]) \<and> buffers_ok ap \<and>
     ap_filter ap = None \<and> ap_stream_mode ap = ModeStdout \<and> hot_lines ''web'' ap = map f [first..<n]"

lemma has_log_ask:
  assumes "has_log vw f first n ap" "\<And>L. \<exists>x. answers vw L ask x"
  shows "has_log vw f first n (snd (with_reader ''web'' d ask ap))"
proof -
  obtain L where "reads vw ap ''web'' L" "mode_lines L ModeStdout = map f [0..<n]"
    using assms(1) by (auto simp: has_log_def)
  moreover obtain x where "answers vw L ask x" using assms(2) by blast
  ultimately show ?thesis
    using with_reader_reads [of vw ap "''web''" L ask x d] assms(1) by (auto simp: has_log_def buffers_ok_def)
qed

lemma has_log_count: "has_log vw f first n ap \<Longrightarrow> has_log vw f first n (snd (disk_line_count vw ''web'' ap))"
  unfolding disk_line_count_def by (rule has_log_ask, assumption, rule exI, rule answers_count)

lemma has_log_total:
  assumes "has_log vw f first n ap"
  shows "fst (total_line_count vw ''web'' ap) = n" "has_log vw f first n (snd (total_line_count vw ''web'' ap))"
proof -
  obtain L where "reads vw ap ''web'' L" "mode_lines L ModeStdout = map f [0..<n]"
    and ap: "buffers_ok ap" "ap_stream_mode ap = ModeStdout" "hot_lines ''web'' ap = map f [first..<n]"
    using assms by (auto simp: has_log_def)
  then have "fst (disk_line_count vw ''web'' ap) = n"
    using with_reader_reads [OF _ answers_count, of vw ap "''web''" L 0] by (simp add: disk_line_count_def)
  then show "fst (total_line_count vw ''web'' ap) = n"
    by (simp add: total_line_count_def case_prod_unfold hot_line_count_length ap)
  show "has_log vw f first n (snd (total_line_count vw ''web'' ap))"
    using has_log_count [OF assms] by (simp add: total_line_count_def case_prod_unfold Let_def)
qed

lemma has_log_visible:
  assumes "has_log vw f first n ap" "first \<le> n" "e = n - shown_offset ''web'' ap"
  shows "fst (visible_lines vw ''web'' h ap) = Some (map f [e - h..<e])"
    "has_log vw f first n (snd (visible_lines vw ''web'' h ap))"
proof -
  obtain L where L: "reads vw ap ''web'' L" "mode_lines L ModeStdout = map f [0..<n]"
    and ap: "buffers_ok ap" "ap_filter ap = None" "ap_stream_mode ap = ModeStdout" "hot_lines ''web'' ap = map f [first..<n]"
    using assms(1) by (auto simp: has_log_def)
  have "[0..<n] = [0..<first] @ [first..<n]" using assms(2) upt_add_eq_append [of 0 first "n - first"] by simp
  then have "suffix (map f [first..<n]) (map f [0..<n])" by (simp add: suffix_def)
  then have "shown_log (map f [0..<n]) (map f [first..<n]) = map f [0..<n]"
    by (rule shown_log_suffix)
  then show "fst (visible_lines vw ''web'' h ap) = Some (map f [e - h..<e])"
    using visible_window [OF L(1) ap(1,2), of h] L(2) ap(3,4) assms(3)
    by (simp add: tail_window_drop drop_map take_map)
  have range: "has_log vw f first n (snd (disk_read_range vw ''web'' st k ap'))" if "has_log vw f first n ap'" for st k ap'
    unfolding disk_read_range_def by (rule has_log_ask [OF that], rule exI, rule answers_range)
  show "has_log vw f first n (snd (visible_lines vw ''web'' h ap))"
    using has_log_total(2) [OF assms(1)] has_log_count [OF has_log_total(2) [OF assms(1)]]
    by (auto simp: visible_lines_def ap(2) case_prod_unfold Let_def intro!: range)
qed

lemma visible_lines_paused: "ap_paused (snd (visible_lines vw name h ap)) = ap_paused ap"
  by (simp add: visible_lines_def filtered_visible_lines_def total_line_count_def disk_line_count_def
      disk_read_range_def Let_def case_prod_unfold)

lemma has_log_scroll:
  "has_log vw f first n ap \<Longrightarrow> has_log vw f first n (set_offset name k ap)"
  "has_log vw f first n ap \<Longrightarrow> has_log vw f first n (ap\<lparr>ap_paused := b\<rparr>)"
  by (auto simp: has_log_def set_offset_def reads_def buffers_ok_def hot_lines_def cong: option.case_cong)

lemma length_seg_text: "length (seg_text es) = sum_list (map (Suc \<circ> length) (map fst es))"
  by (induction es) simp_all

lemma disk_reader_test: "test_visible_lines_with_disk_reader now"
proof -
  define f where "f = (\<lambda>i. (SrcStdout, ''disk line '' @ dec_nat i))"
  define disk where "disk = map (\<lambda>i. ''disk line '' @ dec_nat i) [0..<100]"
  define vw where "vw = at_instant now (create_log_with_index ''/t'' ''web.stdout'' disk 0 Map.empty)"
  define start where "start = app_new\<lparr>ap_disk_readers := hm_insert ''web'' (disk_log_reader_new ''/t'' ''web'') (ap_disk_readers app_new)\<rparr>"
  define ap where "ap = (update_processes [make_process ''web'' PRunning] (push_numbered vw ''disk line '' [90..<100] start))\<lparr>ap_visible_height := 10\<rparr>"
  have "sum_list (map (Suc \<circ> length) disk) = 1290" "list_all (\<lambda>l. CHR ''\<newline>'' \<notin> set l) disk"
    unfolding disk_def by code_simp+
  then have "sees vw (streams (numbered 0 disk) []) (disk_log_reader_new ''/t'' ''web'')"
    unfolding vw_def using single_log_sees [of "''web''" disk now] by (simp add: length_seg_text)
  moreover have "mode_lines (streams (numbered 0 disk) []) ModeStdout = map f [0..<100]"
  proof -
    have "mode_lines (streams (numbered 0 disk) []) ModeStdout = map (Pair SrcStdout) (map fst (numbered 0 disk))"
      by (simp add: mode_lines_def streams_def comp_def del: fst_numbered)
    then show ?thesis by (simp add: disk_def f_def)
  qed
  moreover have "hm_get (ap_buffers start) ''web'' = None" "ap_filter start = None" "ap_stream_mode start = ModeStdout"
      "ap_selected start = 0" "ap_paused start = False" "ap_scroll_offsets start = []"
      "hm_get (ap_disk_readers start) ''web'' = Some (disk_log_reader_new ''/t'' ''web'')" "buffers_ok start"
    by (simp_all add: start_def app_new_def buffers_ok_def)
  moreover from this(1,2) obtain bs where bs: "push_numbered vw ''disk line '' [90..<100] start = start\<lparr>ap_buffers := bs\<rparr>"
    "hm_get bs ''web'' = Some \<lparr>ob_lines = map f [90..<100], ob_max_lines = 10000, ob_stdout_count = 10, ob_stderr_count = 0\<rparr>"
    using pushed_buffer [of start "[90..<100]" vw "''disk line ''"] by (auto simp: f_def)
  moreover have "buffers_ok (start\<lparr>ap_buffers := bs\<rparr>)"
    using push_numbered_ok [OF \<open>buffers_ok start\<close>] bs(1) by metis
  ultimately have log: "has_log vw f 90 100 ap" "\<not> ap_paused ap" "ap_scroll_offsets ap = []"
    by (auto simp: has_log_def ap_def reads_def update_processes_def hot_lines_def stdout_lines_def buffers_ok_def
        f_def comp_def)
  have numbers: "dec_nat 0 = ''0''" "dec_nat 9 = ''9''" "dec_nat 85 = ''85''" "dec_nat 89 = ''89''"
      "dec_nat 90 = ''90''" "dec_nat 94 = ''94''" "dec_nat 99 = ''99''"
    by code_simp+
  define ap1 where "ap1 = snd (total_line_count vw ''web'' ap)"
  have log1: "has_log vw f 90 100 ap1" "shown_offset ''web'' ap1 = 0"
    using has_log_total(2) [OF log(1)] log(2)
    by (simp_all add: ap1_def shown_offset_def total_line_count_def disk_line_count_def case_prod_unfold Let_def)
  define ap2 where "ap2 = set_offset ''web'' 90 ((snd (visible_lines vw ''web'' 10 ap1))\<lparr>ap_paused := True\<rparr>)"
  have log2: "has_log vw f 90 100 ap2"
    unfolding ap2_def by (intro has_log_scroll has_log_visible(2) [OF log1(1) _ refl]) simp
  have off2: "shown_offset ''web'' ap2 = 90" "ap_paused ap2"
    by (simp_all add: ap2_def shown_offset_def set_offset_def offset_of_def)
  define ap3 where "ap3 = set_offset ''web'' 5 (snd (visible_lines vw ''web'' 10 ap2))"
  have log3: "has_log vw f 90 100 ap3"
    unfolding ap3_def by (intro has_log_scroll has_log_visible(2) [OF log2 _ refl]) simp
  have off3: "shown_offset ''web'' ap3 = 5"
    using off2(2) by (simp add: ap3_def visible_lines_paused shown_offset_def set_offset_def offset_of_def)
  show ?thesis
    unfolding test_visible_lines_with_disk_reader_def Let_def case_prod_unfold disk_def [symmetric]
      vw_def [symmetric] start_def [symmetric] ap_def [symmetric] ap1_def [symmetric] ap2_def [symmetric]
      ap3_def [symmetric]
    by (simp add: has_log_total(1) [OF log(1)] has_log_visible(1) [OF log1(1) _ refl] log1(2)
        has_log_visible(1) [OF log2 _ refl] off2(1) has_log_visible(1) [OF log3 _ refl] off3
        window_at_def f_def numbers)
qed

section \<open>\<open>src/tui/event_loop.rs\<close>\<close>

definition left_click :: "u16 \<Rightarrow> u16 \<Rightarrow> mouse_event" where
  "left_click column row = \<lparr>me_kind = MouseDownLeft, me_column = column, me_row = row\<rparr>"

definition left_click_selects_only_process_rows_inside_left_pane :: "view \<Rightarrow> bool" where
  "left_click_selects_only_process_rows_inside_left_pane vw \<longleftrightarrow>
     (let ap0 = update_processes
                  [make_process ''a'' PRunning, make_process ''b'' PRunning, make_process ''c'' PRunning] app_new;
          ap1 = handle_mouse vw (left_click 21 3) ap0;
          ap2 = handle_mouse vw (left_click 22 1) ap1;
          ap3 = handle_mouse vw (left_click 21 4) ap2
      in ap_selected ap1 = 2 \<and> ap_selected ap2 = 2 \<and> ap_selected ap3 = 2)"

lemma left_click_tests: "left_click_selects_only_process_rows_inside_left_pane vw"
  by code_simp

end
