(* ===== verification/Spec2Isabelle.thy ===== *)
theory Spec2Isabelle
  imports Stop_Properties Restart_Properties Two_Streams Config Proxy_Server Server_Properties Client_Main
    Tui_Screen End_To_End Teardown Watcher Waiting_Clients Tui_Tasks Tui_Layout Daemon_Lifecycle
    Observations Unit_Tests Unit_Tests_Manager Unit_Tests_Tui
begin

text \<open>
  A verification library for agent-procs, the Rust program in \<open>src/\<close> whose daemon starts, watches,
  restarts and stops development processes, captures their output to log files, and serves
  clients over a Unix socket; the command line and a terminal interface are its clients.

  The program's parts. One task, the process manager's actor (\<open>src/daemon/actor.rs\<close>), owns the
  process table (\<open>src/daemon/process_manager.rs\<close>) and handles one message at a time: client
  commands, the reports of the tasks that tear process groups down, restart timers, file watchers,
  and a periodic tick. Capture tasks (\<open>src/daemon/log_writer.rs\<close>) write each line to a log file and a
  record to the index beside it (\<open>src/daemon/log_index.rs\<close>), rotate both, and broadcast the line.
  The request server (\<open>src/daemon/server.rs\<close>, \<open>src/daemon/wait_engine.rs\<close>) answers connections by
  asking the actor or by listening to the broadcast. The reverse proxy (\<open>src/daemon/proxy.rs\<close>) routes
  requests by host name through a map the actor publishes. Clients read the project file
  (\<open>src/config.rs\<close>) and the log files (\<open>src/tui/disk_log_reader.rs\<close>).

  How the theories follow the code:
  \<^item> \<open>Prelude\<close>: words, byte strings, results, hash maps as association lists, list lemmas; the locales
    \<open>invariant_system\<close> (a start set, a step relation and an invariant it keeps), \<open>event_system\<close> (a handler
    and an invariant, a sublocale of it), \<open>recent_items\<close> (a bounded buffer, an \<open>event_system\<close>; interpreted on
    the ring of \<open>tail_file\<close> and on the live buffers) and \<open>codec\<close> (interpreted on the wire names and, extended
    to \<open>fixed_codec\<close>, on the index format).
  \<^item> \<open>Protocol\<close> (\<open>src/protocol.rs\<close>), \<open>Errors\<close> (\<open>src/error.rs\<close>), \<open>Paths\<close> (\<open>src/paths.rs\<close>), \<open>Ports\<close>
    (\<open>src/daemon/port_allocator.rs\<close>, \<open>IdCounter\<close> of \<open>src/session.rs\<close>, \<open>bind_proxy_port\<close>): the data and
    the small components; the locale \<open>port_pool\<close> is the contract of the two ranges of ports.
  \<^item> \<open>Process_Manager\<close>, \<open>Actor\<close>: the process table and the actor, one definition per method and per
    message handler. What a handler sends is an outbox of values; what the operating system answers
    (can a port be bound, does a child start, has it exited) is the record \<open>os_env\<close>.
  \<^item> \<open>Process_Table\<close>, \<open>Process_Operations\<close>, \<open>Actor_Accounts\<close>, \<open>Actor_Invariant\<close>, \<open>Actor_Commands\<close>:
    the invariant of one record, of the table and of the actor with its outbox, and that every
    operation and handler keeps it.
  \<^item> \<open>Daemon\<close>: the actor in its environment as a transition system (\<open>daemon_step\<close>), an instance of
    \<open>invariant_system\<close>; \<open>Daemon_Properties\<close>, \<open>Isolation\<close>, \<open>Stop_Properties\<close>, \<open>Restart_Properties\<close>,
    \<open>Waiting_Clients\<close> (the steps taken while a teardown is in flight, an instance too) and
    \<open>Proxy_Sync\<close> state what follows for the program: no panic, every client answered, no child
    lost, the restart budget, a stop is final, the proxy's routes follow the table. What every step keeps
    of the published routes is proved in the locale \<open>proxy_view\<close>, for two views of them: they cover the
    live processes, and they are those of the table.
  \<^item> \<open>Log_Index\<close>, \<open>Files\<close>, \<open>Log_Writer\<close>: the index format and its buffered writer, the file system,
    capture and rotation. \<open>Log_History\<close>: the abstract segmented log that capture refines.
  \<^item> \<open>Disk_Log_Reader\<close>, \<open>Log_Reading\<close>, \<open>Two_Streams\<close>: the reader of rotated segments and of both
    streams merged, against the abstract log; the locale \<open>line_reader\<close> is what searching needs of a
    reader and is interpreted on the reader of one stream and on the merged one. How many lines of a
    stream rotation has removed is \<open>lost\<close>, the number the abstract log forgets, with a bound on what is
    kept when there are any.
  \<^item> \<open>Config\<close>: the project file and Kahn's algorithm for the order of starting.
  \<^item> \<open>Proxy_Server\<close>: host names, forwarding, error pages, on top of \<open>Proxy_Sync\<close>.
  \<^item> \<open>Server\<close>, \<open>Server_Properties\<close>: connections, requests, waiting for output, following logs, the
    connection limit (a second \<open>invariant_system\<close>).
  \<^item> \<open>Teardown\<close> (\<open>teardown\<close> and \<open>join_capture\<close> of \<open>src/daemon/process_manager.rs\<close>): how a process group
    is ended, with the time each phase may take, and the bound on the whole.
  \<^item> \<open>Watcher\<close> (\<open>src/daemon/watcher.rs\<close>): which changes count and the debounce.
  \<^item> \<open>Client\<close> (\<open>src/cli/mod.rs\<close>, \<open>src/daemon/spawn.rs\<close>, \<open>is_daemon_alive\<close> of \<open>src/session.rs\<close>): finding,
    checking and starting the daemon, requests and streams. \<open>Client_Commands\<close>, \<open>Client_Up\<close> (the rest of
    \<open>src/cli/\<close>): one definition per command, with its requests, output and exit code; \<open>Client_Main\<close>
    (\<open>src/main.rs\<close>): the dispatch.
  \<^item> \<open>Tui_App\<close> (\<open>src/tui/app.rs\<close>): the interface's state, live buffers, scrolling, windows over disk and
    live lines, filters; \<open>Tui_View\<close> relates what is shown to the log. \<open>Tui_Event_Loop\<close>
    (\<open>src/tui/event_loop.rs\<close>, \<open>src/tui/input.rs\<close>): keys, events, reconnecting, and an invariant of the
    application over every run of the loop; \<open>Tui_Tasks\<close>: the tasks that feed it and the interleavings of
    what they send. \<open>Tui_Screen\<close>, \<open>Tui_Layout\<close> (\<open>src/tui/ui.rs\<close>, \<open>src/tui/mod.rs\<close>): the texts and colours
    put on the screen, the areas they go to and what a click hits, and how the terminal is taken and
    handed back.
  \<^item> \<open>Daemon_Lifecycle\<close>: the accept loops of the server and of the proxy, and the shutdown signal they
    share (an \<open>invariant_system\<close>).
  \<^item> \<open>End_To_End\<close>: capture, log files, reader and interface composed: the screen shows what was printed.
  \<^item> \<open>Observations\<close>: behaviour of the code that its authors may not intend, proved of the model.
  \<^item> \<open>Unit_Tests\<close>, \<open>Unit_Tests_Manager\<close>, \<open>Unit_Tests_Logs\<close>, \<open>Unit_Tests_Tui\<close>: the tests that stand in the
    modules of \<open>src/\<close>, translated over the model under their own names, and that they hold.
  Bounds and termination. Loops over finite data are structural recursion. Others have a measure:
  \<open>path_parent\<close> (the length of the path), \<open>start_rounds\<close> (the processes not yet placed), the chunked
  search (the lines left), \<open>grace\<close> (the time to the deadline), \<open>debounce\<close> (the events left),
  \<open>trim_end_matches\<close> (the length of the text). The reader looks for at most \<open>ROTATED_LIMIT\<close> (the
  largest \<open>u32\<close>) rotated segments and the start-up of the daemon is polled 100 times, both the code's own
  bounds; no fuel is used.

  The properties are the theorems whose text starts with their number, C1 to C40. They are of these
  kinds: safety and accounting of the daemon (C1 to C11), what its operations do (C12, C13), agreement of
  components (C14, C21, C22, C26), the log format and its readers (C15 to C22), configuration (C23, C24),
  proxy, server and watcher (C25 to C29), the interface (C30 to C33, C40), teardown (C34) and the client
  (C35 to C39).

  Assumptions on code outside \<open>src/\<close> are arguments: the operating system (\<open>os_env\<close>, \<open>bind\<close>,
  \<open>create\<close>, \<open>send\<close>), the regular expression engine, the YAML and JSON parsers. File system operations
  of one call of the log reader see one state of the files. Positions in logs and sizes of files are
  natural numbers where the code has \<open>usize\<close> or \<open>u64\<close> and a sum would have to pass 2 to the 64. That
  memory runs out is modelled where the user asks for the amount (\<open>with_capacity\<close>), nowhere else. Paths
  are compared as texts.

  Not modelled: the JSON text (serde), the argument parser and its help (clap, in \<open>src/main.rs\<close>), the
  painting of widgets (ratatui, in \<open>src/tui/ui.rs\<close>), \<open>src/lib.rs\<close> and \<open>src/daemon/mod.rs\<close> (module
  declarations), the tests of \<open>src/protocol.rs\<close> (of the JSON text), tokio's scheduling and channels
  beyond the order of messages, and HTTP itself.
\<close>

end
